(* ===== verification/Prelude.thy ===== *)
theory Prelude
  imports Main "HOL-Library.Word" "HOL-Library.Multiset"
begin

text \<open>
  Shared vocabulary of the development.

  \<^item> JavaScript strings are lists of 16-bit code units (\<open>jsstr\<close>); \<open>js\<close> embeds an ASCII
    literal. The string values the program compares, concatenates and slices are values of
    this type, so lengths and prefixes count code units, as they do in the language.
  \<^item> A JavaScript value that may be \<open>null\<close> or \<open>undefined\<close> is an \<open>option\<close>; the code tests
    both with truthiness or \<open>??\<close>, never apart.
  \<^item> A rejected promise or a thrown exception is \<open>Inl\<close> of an \<open>exn\<close>; the program only
    distinguishes \<open>ApiError\<close> (with its status and message) from everything else.
  \<^item> \<open>Array.prototype.sort\<close> is a stable sort by a comparator.
  \<^item> The interfaces of the library: \<open>codec\<close> (encode, decode), \<open>kept_assertion\<close> and
    \<open>transition_system\<close> (events, an initial condition, an invariant) and \<open>latest_guard\<close>
    (which of several requests in flight may still write).
\<close>

section \<open>Strings and truthiness\<close>

type_synonym code_unit = "16 word"
type_synonym jsstr = "code_unit list"

definition cu :: "nat \<Rightarrow> code_unit" where
  "cu n = of_nat n"

definition ch :: "char \<Rightarrow> code_unit" where
  "ch c = cu (of_char c)"

definition js :: "string \<Rightarrow> jsstr" where
  "js s = map ch s"


lemma unat_cu: "n < 65536 \<Longrightarrow> unat (cu n) = n"
  by (simp add: cu_def unat_of_nat take_bit_nat_eq_self)

lemma cu_unat [simp]: "cu (unat u) = u"
  by (simp add: cu_def)

lemma unat_code_unit_lt: "unat (u :: code_unit) < 65536"
  using unsigned_less [of u, where 'a = nat] by simp

lemma unat_ch: "unat (ch c) = of_char c"
proof -
  have "(of_char c :: nat) < 65536"
    using nat_of_char_less_256 [of c] by linarith
  then show ?thesis by (simp add: ch_def unat_cu)
qed

lemma ch_eq_iff [simp]: "ch a = ch b \<longleftrightarrow> a = b"
  by (metis unat_ch of_char_eq_iff)

lemma inj_ch: "inj ch"
  by (rule injI) simp

lemma js_eq_iff [simp]: "js s = js t \<longleftrightarrow> s = t"
  by (simp add: js_def inj_map_eq_map [OF inj_ch])

lemma js_Cons: "js (c # s) = ch c # js s"
  by (simp add: js_def)

lemma set_js: "set (js s) = ch ` set s"
  by (simp add: js_def)

lemma js_append: "js (s @ t) = js s @ js t"
  by (simp add: js_def)

lemma js_Nil [simp]: "js [] = []"
  by (simp add: js_def)

lemma js_eq_Nil [simp]: "js s = [] \<longleftrightarrow> s = []" "[] = js s \<longleftrightarrow> s = []"
  by (auto simp: js_def)

lemma length_js [simp]: "length (js s) = length s"
  by (simp add: js_def)

text \<open>\<open>s || d\<close> and \<open>s || undefined\<close> on strings: the empty string is falsy.\<close>

definition str_or :: "jsstr \<Rightarrow> jsstr \<Rightarrow> jsstr" where
  "str_or s d = (if s = [] then d else s)"

definition str_or_undef :: "jsstr \<Rightarrow> jsstr option" where
  "str_or_undef s = (if s = [] then None else Some s)"

text \<open>A nullable string is truthy when it is present and not empty.\<close>

definition truthy :: "jsstr option \<Rightarrow> bool" where
  "truthy s = (case s of None \<Rightarrow> False | Some t \<Rightarrow> t \<noteq> [])"

lemma truthy_simps [simp]: "\<not> truthy None" "truthy (Some t) \<longleftrightarrow> t \<noteq> []"
  by (simp_all add: truthy_def)

lemma str_or_undef_simps [simp]:
  "str_or_undef [] = None" "s \<noteq> [] \<Longrightarrow> str_or_undef s = Some s"
  "str_or_undef s = None \<longleftrightarrow> s = []" "str_or_undef s = Some t \<longleftrightarrow> s = t \<and> s \<noteq> []"
  by (auto simp: str_or_undef_def)

section \<open>Exceptions\<close>

text \<open>
  The program's catch blocks ask one question, \<open>err instanceof ApiError\<close>. Everything else
  that can be thrown (a network \<open>TypeError\<close>, a \<open>URIError\<close>, a JSON \<open>SyntaxError\<close>) is
  \<open>OtherError\<close>.
\<close>

datatype exn = ApiError (exn_status: nat) (exn_message: jsstr) | OtherError

type_synonym 'a result = "exn + 'a"

section \<open>Array.prototype.sort\<close>

fun insert_by :: "('a \<Rightarrow> 'a \<Rightarrow> int) \<Rightarrow> 'a \<Rightarrow> 'a list \<Rightarrow> 'a list" where
  "insert_by c x [] = [x]"
| "insert_by c x (y # ys) = (if c x y \<le> 0 then x # y # ys else y # insert_by c x ys)"

definition js_sort :: "('a \<Rightarrow> 'a \<Rightarrow> int) \<Rightarrow> 'a list \<Rightarrow> 'a list" where
  "js_sort c xs = foldr (insert_by c) xs []"

text \<open>
  What the language asks of a comparator: swapping the arguments swaps the sign, and \<open>\<le>\<close> is
  transitive. \<open>String.prototype.localeCompare\<close> is documented to be such a comparator.
\<close>

definition consistent_cmp :: "('a \<Rightarrow> 'a \<Rightarrow> int) \<Rightarrow> bool" where
  "consistent_cmp c \<longleftrightarrow> (\<forall>a b. (c a b < 0) = (0 < c b a))
     \<and> (\<forall>a b d. c a b \<le> 0 \<longrightarrow> c b d \<le> 0 \<longrightarrow> c a d \<le> 0)"

lemma consistent_cmpD:
  assumes "consistent_cmp c"
  shows cmp_swap: "(c a b < 0) = (0 < c b a)"
    and cmp_trans: "c a b \<le> 0 \<Longrightarrow> c b d \<le> 0 \<Longrightarrow> c a d \<le> 0"
  using assms unfolding consistent_cmp_def by blast+

lemma cmp_refl: "consistent_cmp c \<Longrightarrow> c a a = 0"
  using cmp_swap [of c a a] by linarith

lemma cmp_total: "consistent_cmp c \<Longrightarrow> \<not> c a b \<le> 0 \<Longrightarrow> c b a \<le> 0"
  using cmp_swap [of c b a] by linarith

lemma cmp_eq_sym: "consistent_cmp c \<Longrightarrow> c a b = 0 \<Longrightarrow> c b a = 0"
  using cmp_swap [of c a b] cmp_swap [of c b a] by linarith

text \<open>Sorting by a key, ascending and descending, inherits consistency.\<close>

lemma consistent_cmp_key: "consistent_cmp c \<Longrightarrow> consistent_cmp (\<lambda>a b. c (k a) (k b))"
  unfolding consistent_cmp_def by blast

lemma consistent_cmp_flip: "consistent_cmp c \<Longrightarrow> consistent_cmp (\<lambda>a b. c b a)"
  unfolding consistent_cmp_def by blast

lemma mset_insert_by [simp]: "mset (insert_by c x xs) = add_mset x (mset xs)"
  by (induction xs) auto

lemma mset_js_sort [simp]: "mset (js_sort c xs) = mset xs"
  by (induction xs) (simp_all add: js_sort_def)

lemma set_js_sort [simp]: "set (js_sort c xs) = set xs"
  by (metis mset_js_sort set_mset_mset)

lemma length_js_sort [simp]: "length (js_sort c xs) = length xs"
  by (metis mset_js_sort size_mset)

lemma js_sort_Nil_iff [simp]: "js_sort c xs = [] \<longleftrightarrow> xs = []"
  by (metis length_0_conv length_js_sort)

abbreviation sorted_cmp :: "('a \<Rightarrow> 'a \<Rightarrow> int) \<Rightarrow> 'a list \<Rightarrow> bool" where
  "sorted_cmp c \<equiv> sorted_wrt (\<lambda>a b. c a b \<le> 0)"

lemma set_insert_by: "set (insert_by c x xs) = insert x (set xs)"
  by (induction xs) auto

lemma sorted_insert_by:
  assumes "consistent_cmp c" "sorted_cmp c xs"
  shows "sorted_cmp c (insert_by c x xs)"
  using assms(2)
proof (induction xs)
  case Nil
  then show ?case by simp
next
  case (Cons y ys)
  show ?case
  proof (cases "c x y \<le> 0")
    case True
    with Cons.prems show ?thesis
      by (auto intro: cmp_trans [OF assms(1), of x y])
  next
    case False
    then have "c y x \<le> 0" by (rule cmp_total [OF assms(1)])
    with Cons False show ?thesis by (auto simp: set_insert_by)
  qed
qed

lemma sorted_js_sort: "consistent_cmp c \<Longrightarrow> sorted_cmp c (js_sort c xs)"
  by (induction xs) (simp_all add: js_sort_def sorted_insert_by)

lemma filter_insert_by:
  assumes "consistent_cmp c" "sorted_cmp c xs"
  shows "filter (\<lambda>y. c z y = 0) (insert_by c x xs)
       = (if c z x = 0 then x # filter (\<lambda>y. c z y = 0) xs else filter (\<lambda>y. c z y = 0) xs)"
  using assms(2)
proof (induction xs)
  case Nil
  then show ?case by simp
next
  case (Cons y ys)
  show ?case
  proof (cases "c x y \<le> 0")
    case True
    then show ?thesis by simp
  next
    case False
    have "\<not> (c z x = 0 \<and> c z y = 0)"
    proof
      assume "c z x = 0 \<and> c z y = 0"
      then have "c x z \<le> 0" "c z y \<le> 0"
        using cmp_eq_sym [OF assms(1), of z x] by simp_all
      then show False using False cmp_trans [OF assms(1)] by blast
    qed
    with Cons False show ?thesis by auto
  qed
qed

text \<open>Stability: elements that compare equal keep their order.\<close>

lemma stable_js_sort:
  assumes "consistent_cmp c"
  shows "filter (\<lambda>y. c z y = 0) (js_sort c xs) = filter (\<lambda>y. c z y = 0) xs"
proof (induction xs)
  case Nil
  then show ?case by (simp add: js_sort_def)
next
  case (Cons x xs)
  have "js_sort c (x # xs) = insert_by c x (js_sort c xs)" by (simp add: js_sort_def)
  with Cons show ?case
    by (simp add: filter_insert_by [OF assms sorted_js_sort [OF assms]])
qed

section \<open>Codecs\<close>

text \<open>
  An encoder whose output is read back by a decoder on every well-formed value. What a client
  of a codec needs is that two values are never confused on the wire.
\<close>

locale codec =
  fixes enc :: "'a \<Rightarrow> 'b" and dec :: "'b \<Rightarrow> 'a option" and wf :: "'a \<Rightarrow> bool"
  assumes dec_enc: "wf x \<Longrightarrow> dec (enc x) = Some x"
begin

lemma enc_inj: "wf x \<Longrightarrow> wf y \<Longrightarrow> enc x = enc y \<Longrightarrow> x = y"
  by (metis dec_enc option.inject)

lemma enc_eq_iff: "wf x \<Longrightarrow> wf y \<Longrightarrow> enc x = enc y \<longleftrightarrow> x = y"
  using enc_inj by blast

lemma enc_inj_on: "inj_on enc {x. wf x}"
  by (rule inj_onI) (auto intro: enc_inj)

end

section \<open>Transition systems\<close>

text \<open>
  A component that reacts to events is a relation \<open>step s e t\<close>. A run is a list of events;
  the reachable states are those some run leads to from an initial state.
\<close>

inductive run :: "('s \<Rightarrow> 'e \<Rightarrow> 's \<Rightarrow> bool) \<Rightarrow> 's \<Rightarrow> 'e list \<Rightarrow> 's \<Rightarrow> bool"
  for step :: "'s \<Rightarrow> 'e \<Rightarrow> 's \<Rightarrow> bool" where
  run_Nil: "run step s [] s"
| run_Cons: "step s e t \<Longrightarrow> run step t es u \<Longrightarrow> run step s (e # es) u"

inductive reach :: "('s \<Rightarrow> bool) \<Rightarrow> ('s \<Rightarrow> 'e \<Rightarrow> 's \<Rightarrow> bool) \<Rightarrow> 's \<Rightarrow> bool"
  for init :: "'s \<Rightarrow> bool" and step :: "'s \<Rightarrow> 'e \<Rightarrow> 's \<Rightarrow> bool" where
  reach_init: "init s \<Longrightarrow> reach init step s"
| reach_step: "reach init step s \<Longrightarrow> step s e t \<Longrightarrow> reach init step t"

inductive_simps run_Nil_iff [simp]: "run step s [] t"
inductive_simps run_Cons_iff: "run step s (e # es) u"

lemma run_append: "run step s (es @ fs) u \<longleftrightarrow> (\<exists>t. run step s es t \<and> run step t fs u)"
  by (induction es arbitrary: s) (auto simp: run_Cons_iff)

lemma run_snoc: "run step s es t \<Longrightarrow> step t e u \<Longrightarrow> run step s (es @ [e]) u"
  by (auto simp: run_append run_Cons_iff)

lemma reach_run: "reach init step s \<Longrightarrow> run step s es t \<Longrightarrow> reach init step t"
  by (induction es arbitrary: s) (auto simp: run_Cons_iff intro: reach_step)

text \<open>An assertion kept by every event of a given sort.\<close>

locale kept_assertion =
  fixes step :: "'s \<Rightarrow> 'e \<Rightarrow> 's \<Rightarrow> bool" and ok :: "'e \<Rightarrow> bool" and inv :: "'s \<Rightarrow> bool"
  assumes kept: "step s e t \<Longrightarrow> ok e \<Longrightarrow> inv s \<Longrightarrow> inv t"
begin

lemma run_kept: "run step s es t \<Longrightarrow> \<forall>e\<in>set es. ok e \<Longrightarrow> inv s \<Longrightarrow> inv t"
  by (induction rule: run.induct) (auto intro: kept)

end

text \<open>An invariant: an assertion that holds at the start and that every event keeps.\<close>

locale transition_system = kept_assertion step "\<lambda>_. True" inv
  for step :: "'s \<Rightarrow> 'e \<Rightarrow> 's \<Rightarrow> bool" and inv :: "'s \<Rightarrow> bool" +
  fixes init :: "'s \<Rightarrow> bool"
  assumes inv_init: "init s \<Longrightarrow> inv s"
begin

lemma reach_inv: "reach init step s \<Longrightarrow> inv s"
  by (induction rule: reach.induct) (auto intro: inv_init kept)

lemma run_inv: "init s \<Longrightarrow> run step s es t \<Longrightarrow> inv t"
  by (rule run_kept) (auto intro: inv_init)

end

section \<open>Who may still write\<close>

text \<open>
  Several requests may be in flight for one slot of state. \<open>accepts s r\<close> says that an answer
  to request \<open>r\<close> would be written. Two laws: at most one request is accepted, and a request
  once turned away stays turned away.
\<close>

locale latest_guard =
  fixes step :: "'s \<Rightarrow> 'e \<Rightarrow> 's \<Rightarrow> bool" and issued :: "'s \<Rightarrow> 'r set"
    and accepts :: "'s \<Rightarrow> 'r \<Rightarrow> bool"
  assumes accepts_one: "accepts s r \<Longrightarrow> accepts s q \<Longrightarrow> r = q"
    and issued_mono: "step s e t \<Longrightarrow> issued s \<subseteq> issued t"
    and refused_stays: "step s e t \<Longrightarrow> r \<in> issued s \<Longrightarrow> \<not> accepts s r \<Longrightarrow> \<not> accepts t r"
begin

lemma refused_forever:
  "run step s es t \<Longrightarrow> r \<in> issued s \<Longrightarrow> \<not> accepts s r \<Longrightarrow> r \<in> issued t \<and> \<not> accepts t r"
proof (induction rule: run.induct)
  case (run_Cons s e t es u)
  then show ?case using issued_mono [of s e t] refused_stays [of s e t r] by blast
qed simp

lemma superseded_forever:
  "run step s es t \<Longrightarrow> accepts s r \<Longrightarrow> q \<in> issued s \<Longrightarrow> q \<noteq> r \<Longrightarrow> \<not> accepts t q"
  using refused_forever [of s es t q] accepts_one [of s q r] by blast

end

end
