(* ===== verification/JsText.thy ===== *)
theory JsText
  imports Prelude
begin

text \<open>
  The string operations of the language and the platform that the program uses, on lists of
  code units: \<open>trim\<close>, \<open>split\<close>, \<open>join\<close>, \<open>slice(0, n)\<close>, \<open>String(n)\<close>,
  \<open>encodeURIComponent\<close> and the serialisation of \<open>URLSearchParams\<close>. Beside the two encoders
  stand the readers a server applies to a path segment and to a query string; they are
  reference definitions (no code of the repository under \<open>web/\<close>), and interpret \<open>codec\<close>.
\<close>

section \<open>trim, split, join, slice, String\<close>

text \<open>White space and line terminators of ECMAScript, as \<open>String.prototype.trim\<close> strips them.\<close>

definition is_space :: "code_unit \<Rightarrow> bool" where
  "is_space u = (let n = unat u in
     9 \<le> n \<and> n \<le> 13 \<or> n = 32 \<or> n = 160 \<or> n = 5760 \<or> 8192 \<le> n \<and> n \<le> 8202
     \<or> n = 8232 \<or> n = 8233 \<or> n = 8239 \<or> n = 8287 \<or> n = 12288 \<or> n = 65279)"

definition js_trim :: "jsstr \<Rightarrow> jsstr" where
  "js_trim s = rev (dropWhile is_space (rev (dropWhile is_space s)))"

fun js_split :: "code_unit \<Rightarrow> jsstr \<Rightarrow> jsstr list" where
  "js_split c [] = [[]]"
| "js_split c (x # xs) =
     (if x = c then [] # js_split c xs
      else (case js_split c xs of [] \<Rightarrow> [[x]] | y # ys \<Rightarrow> (x # y) # ys))"

fun js_join :: "jsstr \<Rightarrow> jsstr list \<Rightarrow> jsstr" where
  "js_join sep [] = []"
| "js_join sep [x] = x"
| "js_join sep (x # y # ys) = x @ sep @ js_join sep (y # ys)"

definition js_prefix :: "nat \<Rightarrow> jsstr \<Rightarrow> jsstr" where
  "js_prefix n s = take n s"

definition digit_unit :: "nat \<Rightarrow> code_unit" where
  "digit_unit d = cu (48 + d)"

fun nat_str :: "nat \<Rightarrow> jsstr" where
  "nat_str n = (if n < 10 then [digit_unit n] else nat_str (n div 10) @ [digit_unit (n mod 10)])"

declare nat_str.simps [simp del]

definition int_str :: "int \<Rightarrow> jsstr" where
  "int_str i = (if i < 0 then js ''-'' @ nat_str (nat (- i)) else nat_str (nat i))"

lemma js_split_nonempty [simp]: "js_split c s \<noteq> []"
  by (induction s) (auto split: list.splits)

lemma js_split_no_sep [simp]: "c \<notin> set s \<Longrightarrow> js_split c s = [s]"
  by (induction s) auto

lemma js_split_append_sep: "c \<notin> set s \<Longrightarrow> js_split c (s @ c # t) = s # js_split c t"
  by (induction s) auto

lemma js_split_join:
  assumes "xs \<noteq> []" "\<forall>x\<in>set xs. c \<notin> set x"
  shows "js_split c (js_join [c] xs) = xs"
  using assms
proof (induction xs rule: induct_list012)
  case (3 x y zs)
  then show ?case using js_split_append_sep [of c x "js_join [c] (y # zs)"] by auto
qed auto

lemma js_split_join_sep:
  assumes "xs \<noteq> []" "\<forall>x\<in>set xs. c \<notin> set x" "c \<notin> set sep"
  shows "js_split c (js_join (c # sep) xs) = hd xs # map (\<lambda>x. sep @ x) (tl xs)"
  using assms(1,2)
proof (induction xs rule: induct_list012)
  case (3 x y zs)
  have "js_split c (sep @ js_join (c # sep) (y # zs))
      = (sep @ y) # map (\<lambda>x. sep @ x) zs"
  proof (cases zs)
    case Nil
    with 3 assms(3) show ?thesis by simp
  next
    case (Cons z ws)
    have "c \<notin> set (sep @ y)" using 3 assms(3) by simp
    from js_split_append_sep [OF this, of "sep @ js_join (c # sep) (z # ws)"]
      js_split_append_sep [of c y "sep @ js_join (c # sep) (z # ws)"]
    have "js_split c (sep @ js_join (c # sep) (y # z # ws))
        = (sep @ y) # js_split c (sep @ js_join (c # sep) (z # ws))"
      and "js_split c (js_join (c # sep) (y # z # ws))
        = y # js_split c (sep @ js_join (c # sep) (z # ws))"
      using 3 by simp_all
    with 3 Cons show ?thesis by simp
  qed
  then show ?case
    using 3 js_split_append_sep [of c x "sep @ js_join (c # sep) (y # zs)"] by simp
qed auto

lemma js_join_eq_Nil: "js_join sep xs = [] \<Longrightarrow> \<forall>x\<in>set xs. x \<noteq> [] \<Longrightarrow> xs = []"
  by (induction xs rule: induct_list012) auto

text \<open>A string is trimmed when it neither begins nor ends with white space.\<close>

definition trimmed :: "jsstr \<Rightarrow> bool" where
  "trimmed s \<longleftrightarrow> s = [] \<or> \<not> is_space (hd s) \<and> \<not> is_space (last s)"

lemma dropWhile_id: "xs = [] \<or> \<not> P (hd xs) \<Longrightarrow> dropWhile P xs = xs"
  by (cases xs) auto

lemma js_trim_trimmed: "trimmed s \<Longrightarrow> js_trim s = s"
  by (auto simp: trimmed_def js_trim_def dropWhile_id hd_rev)

lemma trimmed_js_trim: "trimmed (js_trim s)"
proof -
  define t where "t = dropWhile is_space s"
  define u where "u = dropWhile is_space (rev t)"
  have u: "u = [] \<or> \<not> is_space (hd u)"
    unfolding u_def by (metis hd_dropWhile)
  have t: "t = [] \<or> \<not> is_space (hd t)"
    unfolding t_def by (metis hd_dropWhile)
  have "rev t = takeWhile is_space (rev t) @ u" by (simp add: u_def)
  then have "t = rev u @ rev (takeWhile is_space (rev t))"
    by (metis rev_append rev_rev_ident)
  then have "u \<noteq> [] \<Longrightarrow> hd t = last u \<and> t \<noteq> []"
    by (metis Nil_is_append_conv hd_append2 hd_rev rev_is_Nil_conv)
  with t u show ?thesis
    by (auto simp: trimmed_def js_trim_def t_def [symmetric] u_def [symmetric] hd_rev last_rev)
qed

lemma js_trim_idem [simp]: "js_trim (js_trim s) = js_trim s"
  by (rule js_trim_trimmed) (rule trimmed_js_trim)

lemma js_trim_Cons_space: "is_space c \<Longrightarrow> js_trim (c # s) = js_trim s"
  by (simp add: js_trim_def)

lemma set_js_trim: "set (js_trim s) \<subseteq> set s"
  unfolding js_trim_def by (auto dest!: set_dropWhileD)

lemma is_space_blank [simp]: "is_space (ch CHR '' '')"
  by (simp add: is_space_def unat_ch)

lemma js_prefix_length: "length (js_prefix n s) = min (length s) n"
  by (simp add: js_prefix_def)

section \<open>Code points and UTF-8\<close>

definition is_high :: "code_unit \<Rightarrow> bool" where
  "is_high u = (55296 \<le> unat u \<and> unat u \<le> 56319)"

definition is_low :: "code_unit \<Rightarrow> bool" where
  "is_low u = (56320 \<le> unat u \<and> unat u \<le> 57343)"

definition pair_code :: "code_unit \<Rightarrow> code_unit \<Rightarrow> nat" where
  "pair_code u v = (unat u - 55296) * 1024 + (unat v - 56320) + 65536"

text \<open>
  The code points of a string, as \<open>CodePointAt\<close> finds them; \<open>None\<close> is a surrogate without
  its partner.
\<close>

fun code_points :: "jsstr \<Rightarrow> nat option list" where
  "code_points [] = []"
| "code_points [u] = [if is_high u \<or> is_low u then None else Some (unat u)]"
| "code_points (u # v # s) =
     (if is_high u \<and> is_low v then Some (pair_code u v) # code_points s
      else (if is_high u \<or> is_low u then None else Some (unat u)) # code_points (v # s))"

definition utf8 :: "nat \<Rightarrow> nat list" where
  "utf8 c =
     (if c < 128 then [c]
      else if c < 2048 then [192 + c div 64, 128 + c mod 64]
      else if c < 65536 then [224 + c div 4096, 128 + c div 64 mod 64, 128 + c mod 64]
      else [240 + c div 262144, 128 + c div 4096 mod 64, 128 + c div 64 mod 64, 128 + c mod 64])"

definition well_formed :: "jsstr \<Rightarrow> bool" where
  "well_formed s \<longleftrightarrow> None \<notin> set (code_points s)"

section \<open>Percent encoding\<close>

definition is_alnum :: "nat \<Rightarrow> bool" where
  "is_alnum n = (48 \<le> n \<and> n \<le> 57 \<or> 65 \<le> n \<and> n \<le> 90 \<or> 97 \<le> n \<and> n \<le> 122)"

text \<open>\<open>A-Z a-z 0-9 - _ . ! ~ * ' ( )\<close>: what \<open>encodeURIComponent\<close> leaves as it is.\<close>

definition uri_unescaped :: "nat \<Rightarrow> bool" where
  "uri_unescaped n = (is_alnum n \<or> n \<in> {45, 95, 46, 33, 126, 42, 39, 40, 41})"

definition hex_unit :: "nat \<Rightarrow> code_unit" where
  "hex_unit d = (if d < 10 then cu (48 + d) else cu (55 + d))"

definition percent :: "nat \<Rightarrow> jsstr" where
  "percent b = [cu 37, hex_unit (b div 16), hex_unit (b mod 16)]"

definition uri_code :: "nat \<Rightarrow> jsstr" where
  "uri_code c = (if uri_unescaped c then [cu c] else concat (map percent (utf8 c)))"

text \<open>\<open>None\<close> is the \<open>URIError\<close> thrown for a lone surrogate.\<close>

definition encodeURIComponent :: "jsstr \<Rightarrow> jsstr option" where
  "encodeURIComponent s =
     (if None \<in> set (code_points s) then None
      else Some (concat (map (\<lambda>c. uri_code (the c)) (code_points s))))"

text \<open>\<open>URLSearchParams\<close>: a list of pairs; \<open>set\<close> replaces the first of that name, or appends.\<close>

type_synonym params = "(jsstr \<times> jsstr) list"

fun params_set :: "jsstr \<Rightarrow> jsstr \<Rightarrow> params \<Rightarrow> params" where
  "params_set n v [] = [(n, v)]"
| "params_set n v ((m, w) # ps) =
     (if m = n then (n, v) # filter (\<lambda>p. fst p \<noteq> n) ps else (m, w) # params_set n v ps)"

definition form_unescaped :: "nat \<Rightarrow> bool" where
  "form_unescaped n = (is_alnum n \<or> n \<in> {42, 45, 46, 95})"

definition form_code :: "nat option \<Rightarrow> jsstr" where
  "form_code c = (let n = (case c of None \<Rightarrow> 65533 | Some n \<Rightarrow> n) in
     if n = 32 then [cu 43]
     else if form_unescaped n then [cu n]
     else concat (map percent (utf8 n)))"

definition form_encode :: "jsstr \<Rightarrow> jsstr" where
  "form_encode s = concat (map form_code (code_points s))"

definition params_str :: "params \<Rightarrow> jsstr" where
  "params_str ps = js_join (js ''&'') (map (\<lambda>(n, v). form_encode n @ js ''='' @ form_encode v) ps)"

section \<open>The readers\<close>

definition hex_value :: "code_unit \<Rightarrow> nat option" where
  "hex_value u = (let n = unat u in
     if 48 \<le> n \<and> n \<le> 57 then Some (n - 48)
     else if 65 \<le> n \<and> n \<le> 70 then Some (n - 55)
     else if 97 \<le> n \<and> n \<le> 102 then Some (n - 87)
     else None)"

text \<open>The octets of a percent-encoded text; \<open>form\<close> says whether \<open>+\<close> stands for a blank.\<close>

fun octets :: "bool \<Rightarrow> jsstr \<Rightarrow> nat list option" where
  "octets form [] = Some []"
| "octets form (u # s) =
     (if unat u = 37 then
        (case s of
           h # l # r \<Rightarrow>
             (case (hex_value h, hex_value l) of
                (Some a, Some b) \<Rightarrow> map_option (\<lambda>os. (16 * a + b) # os) (octets form r)
              | _ \<Rightarrow> None)
         | _ \<Rightarrow> None)
      else if form \<and> unat u = 43 then map_option (\<lambda>os. 32 # os) (octets form s)
      else if unat u < 128 then map_option (\<lambda>os. unat u # os) (octets form s)
      else None)"

fun utf8_decode :: "nat list \<Rightarrow> nat list option" where
  "utf8_decode [] = Some []"
| "utf8_decode (a # bs) =
     (if a < 128 then map_option (\<lambda>cs. a # cs) (utf8_decode bs)
      else if a < 192 then None
      else if a < 224 then (case bs of
          b # r \<Rightarrow> map_option (\<lambda>cs. ((a - 192) * 64 + (b - 128)) # cs) (utf8_decode r)
        | _ \<Rightarrow> None)
      else if a < 240 then (case bs of
          b # c # r \<Rightarrow> map_option (\<lambda>cs. ((a - 224) * 4096 + (b - 128) * 64 + (c - 128)) # cs)
            (utf8_decode r)
        | _ \<Rightarrow> None)
      else (case bs of
          b # c # d # r \<Rightarrow> map_option
            (\<lambda>cs. ((a - 240) * 262144 + (b - 128) * 4096 + (c - 128) * 64 + (d - 128)) # cs)
            (utf8_decode r)
        | _ \<Rightarrow> None))"

definition utf16 :: "nat \<Rightarrow> jsstr" where
  "utf16 c = (if c < 65536 then [cu c]
     else [cu (55296 + (c - 65536) div 1024), cu (56320 + (c - 65536) mod 1024)])"

definition read_text :: "bool \<Rightarrow> jsstr \<Rightarrow> jsstr option" where
  "read_text form s = map_option (\<lambda>cs. concat (map utf16 cs)) (Option.bind (octets form s) utf8_decode)"

definition read_segment :: "jsstr \<Rightarrow> jsstr option" where
  "read_segment s = read_text False s"

fun split_first :: "code_unit \<Rightarrow> jsstr \<Rightarrow> jsstr \<times> jsstr" where
  "split_first c [] = ([], [])"
| "split_first c (x # xs) = (if x = c then ([], xs) else apfst ((#) x) (split_first c xs))"

definition read_pair :: "jsstr \<Rightarrow> (jsstr \<times> jsstr) option" where
  "read_pair s = (case split_first (ch CHR ''='') s of (n, v) \<Rightarrow>
     Option.bind (read_text True n) (\<lambda>n'. map_option (\<lambda>v'. (n', v')) (read_text True v)))"

definition read_params :: "jsstr \<Rightarrow> params option" where
  "read_params s = (if s = [] then Some [] else those (map read_pair (js_split (ch CHR ''&'') s)))"

section \<open>Round trips\<close>

lemma hex_value_hex_unit: "d < 16 \<Longrightarrow> hex_value (hex_unit d) = Some d"
  by (auto simp: hex_value_def hex_unit_def unat_cu)

declare octets.simps(2) [simp del]

lemma octets_percent:
  "b < 256 \<Longrightarrow> octets form (percent b @ s) = map_option ((#) b) (octets form s)"
  by (auto simp: percent_def hex_value_hex_unit octets.simps(2) unat_cu)

lemma map_option_append_Nil: "map_option ((@) []) x = x"
  by (cases x) auto

lemma map_option_append_Cons: "map_option ((@) (a # bs)) x = map_option ((#) a) (map_option ((@) bs) x)"
  by (cases x) auto

lemma octets_percents:
  "\<forall>b\<in>set bs. b < 256 \<Longrightarrow>
     octets form (concat (map percent bs) @ s) = map_option ((@) bs) (octets form s)"
  by (induction bs) (simp_all add: octets_percent map_option_append_Nil map_option_append_Cons)

lemma utf8_octets: "c < 1114112 \<Longrightarrow> \<forall>b\<in>set (utf8 c). b < 256"
  by (auto simp: utf8_def)

lemma octets_plain:
  assumes "n < 128" "n \<noteq> 37" "form \<longrightarrow> n \<noteq> 43"
  shows "octets form (cu n # s) = map_option ((@) [n]) (octets form s)"
  using assms
  by (auto simp: unat_cu octets.simps(2) map_option_append_Nil map_option_append_Cons)

lemma octets_plus: "octets True (cu 43 # s) = map_option ((@) [32]) (octets True s)"
  by (simp add: unat_cu octets.simps(2) map_option_append_Nil map_option_append_Cons)

lemma octets_uri_code:
  assumes "c < 1114112"
  shows "octets form (uri_code c @ s) = map_option ((@) (utf8 c)) (octets form s)"
proof (cases "uri_unescaped c")
  case True
  then have "c < 128" "c \<noteq> 37" "c \<noteq> 43" by (auto simp: uri_unescaped_def is_alnum_def)
  with True octets_plain [of c form s] show ?thesis by (simp add: uri_code_def utf8_def)
next
  case False
  then show ?thesis using octets_percents [OF utf8_octets [OF assms]] by (simp add: uri_code_def)
qed

lemma octets_form_code:
  assumes "c < 1114112"
  shows "octets True (form_code (Some c) @ s) = map_option ((@) (utf8 c)) (octets True s)"
proof -
  consider "c = 32" | "c \<noteq> 32" "form_unescaped c" | "c \<noteq> 32" "\<not> form_unescaped c" by blast
  then show ?thesis
  proof cases
    case 1
    then show ?thesis by (simp add: form_code_def utf8_def octets_plus)
  next
    case 2
    then have "c < 128" "c \<noteq> 37" "c \<noteq> 43" by (auto simp: form_unescaped_def is_alnum_def)
    with 2 octets_plain [of c True s] show ?thesis by (simp add: form_code_def utf8_def)
  next
    case 3
    then have "form_code (Some c) = concat (map percent (utf8 c))" by (simp add: form_code_def)
    then show ?thesis by (simp only: octets_percents [OF utf8_octets [OF assms]])
  qed
qed

lemma utf8_decode_bytes:
  "p < 128 \<Longrightarrow> utf8_decode (p # bs) = map_option ((#) p) (utf8_decode bs)"
  "p < 32 \<Longrightarrow> utf8_decode ((192 + p) # (128 + q) # bs)
     = map_option ((#) (p * 64 + q)) (utf8_decode bs)"
  "p < 16 \<Longrightarrow> utf8_decode ((224 + p) # (128 + q) # (128 + r) # bs)
     = map_option ((#) (p * 4096 + q * 64 + r)) (utf8_decode bs)"
  "utf8_decode ((240 + p) # (128 + q) # (128 + r) # (128 + t) # bs)
     = map_option ((#) (p * 262144 + q * 4096 + r * 64 + t)) (utf8_decode bs)"
  by simp_all

lemma base64_digits:
  fixes c :: nat
  shows "c div 4096 * 4096 + c div 64 mod 64 * 64 + c mod 64 = c"
    and "c div 262144 * 262144 + c div 4096 mod 64 * 4096 + c div 64 mod 64 * 64 + c mod 64 = c"
proof -
  have d: "c div 4096 = c div 64 div 64" "c div 262144 = c div 4096 div 64"
    by (simp_all add: div_mult2_eq [symmetric])
  have e: "c div 64 * 64 + c mod 64 = c" "c div 64 div 64 * 64 + c div 64 mod 64 = c div 64"
    "c div 4096 div 64 * 64 + c div 4096 mod 64 = c div 4096" by simp_all
  then show "c div 4096 * 4096 + c div 64 mod 64 * 64 + c mod 64 = c"
    unfolding d by linarith
  with e show "c div 262144 * 262144 + c div 4096 mod 64 * 4096 + c div 64 mod 64 * 64 + c mod 64 = c"
    unfolding d(2) by linarith
qed

lemma utf8_decode_utf8: "utf8_decode (utf8 c @ bs) = map_option ((#) c) (utf8_decode bs)"
proof -
  consider "c < 128" | "128 \<le> c" "c < 2048" | "2048 \<le> c" "c < 65536" | "65536 \<le> c" by linarith
  then show ?thesis
  proof cases
    case 1
    then have "utf8 c = [c]" by (simp add: utf8_def)
    with utf8_decode_bytes(1) [OF 1] show ?thesis by (simp del: utf8_decode.simps)
  next
    case 2
    then have "utf8 c = [192 + c div 64, 128 + c mod 64]" by (simp add: utf8_def)
    moreover have "c div 64 < 32" using 2 by (intro less_mult_imp_div_less) simp
    moreover have "c div 64 * 64 + c mod 64 = c" by (rule div_mult_mod_eq)
    ultimately show ?thesis
      using utf8_decode_bytes(2) [of "c div 64" "c mod 64" bs] by (simp del: utf8_decode.simps)
  next
    case 3
    then have "utf8 c = [224 + c div 4096, 128 + c div 64 mod 64, 128 + c mod 64]"
      by (simp add: utf8_def)
    moreover have "c div 4096 < 16" using 3 by (intro less_mult_imp_div_less) simp
    moreover have "c div 4096 * 4096 + c div 64 mod 64 * 64 + c mod 64 = c"
      by (rule base64_digits(1))
    ultimately show ?thesis
      using utf8_decode_bytes(3) [of "c div 4096" "c div 64 mod 64" "c mod 64" bs]
      by (simp del: utf8_decode.simps)
  next
    case 4
    then have "utf8 c = [240 + c div 262144, 128 + c div 4096 mod 64, 128 + c div 64 mod 64,
      128 + c mod 64]" by (simp add: utf8_def)
    moreover have "c div 262144 * 262144 + c div 4096 mod 64 * 4096 + c div 64 mod 64 * 64 + c mod 64 = c"
      by (rule base64_digits(2))
    ultimately show ?thesis
      using utf8_decode_bytes(4) [of "c div 262144" "c div 4096 mod 64" "c div 64 mod 64" "c mod 64" bs]
      by (simp del: utf8_decode.simps)
  qed
qed

lemma pair_code_bounds:
  assumes "is_high u" "is_low v"
  shows "65536 \<le> pair_code u v" "pair_code u v < 1114112"
  using assms by (auto simp: pair_code_def is_high_def is_low_def)

lemma code_points_bound: "Some c \<in> set (code_points s) \<Longrightarrow> c < 1114112"
proof (induction s rule: code_points.induct)
  case (2 u)
  then show ?case using unat_code_unit_lt [of u] by (auto split: if_splits)
next
  case (3 u v s)
  then show ?case
    using unat_code_unit_lt [of u] pair_code_bounds(2) [of u v] by (auto split: if_splits)
qed simp

lemma utf16_unit: "utf16 (unat u) = [u]"
  using unat_code_unit_lt [of u] by (simp add: utf16_def)

lemma utf16_pair:
  assumes "is_high u" "is_low v"
  shows "utf16 (pair_code u v) = [u, v]"
proof -
  let ?d = "pair_code u v - 65536"
  have "?d = 1024 * (unat u - 55296) + (unat v - 56320)" "unat v - 56320 < 1024"
    using assms by (auto simp: pair_code_def is_low_def)
  then have "?d div 1024 = unat u - 55296" "?d mod 1024 = unat v - 56320"
    by (simp_all only: div_mult_self4 mod_mult_self4) simp_all
  then have "55296 + ?d div 1024 = unat u" "56320 + ?d mod 1024 = unat v"
    using assms by (auto simp: is_high_def is_low_def)
  moreover have "\<not> pair_code u v < 65536" by (simp add: pair_code_def)
  ultimately show ?thesis by (simp only: utf16_def if_False cu_unat)
qed

lemma utf16_code_points:
  "None \<notin> set (code_points s) \<Longrightarrow> concat (map (\<lambda>c. utf16 (the c)) (code_points s)) = s"
  by (induction s rule: code_points.induct) (auto simp: utf16_unit utf16_pair split: if_splits)

lemma well_formed_code_points:
  assumes "well_formed s"
  obtains cs where "code_points s = map Some cs" "\<forall>c\<in>set cs. c < 1114112" "concat (map utf16 cs) = s"
proof -
  define cs where "cs = map the (code_points s)"
  have no: "None \<notin> set (code_points s)" using assms by (simp add: well_formed_def)
  have eq: "code_points s = map Some cs"
    unfolding cs_def map_map comp_def
    by (rule map_idI [symmetric]) (metis no option.collapse)
  moreover have "\<forall>c\<in>set cs. c < 1114112"
    using code_points_bound [of _ s] by (auto simp: eq)
  moreover have "concat (map utf16 cs) = s"
    using utf16_code_points [OF no] by (simp add: cs_def comp_def)
  ultimately show ?thesis by (rule that)
qed

lemma octets_concat_code:
  assumes "\<forall>c\<in>set cs. \<forall>s. octets form (f c @ s) = map_option ((@) (utf8 c)) (octets form s)"
  shows "octets form (concat (map f cs)) = Some (concat (map utf8 cs))"
  using assms by (induction cs) auto

lemma utf8_decode_concat: "utf8_decode (concat (map utf8 cs)) = Some cs"
  by (induction cs) (simp_all add: utf8_decode_utf8)

lemma encodeURIComponent_Some_iff: "(\<exists>t. encodeURIComponent s = Some t) \<longleftrightarrow> well_formed s"
  by (simp add: encodeURIComponent_def well_formed_def)

text \<open>Both readers, of a path segment and of a form value, accept it.\<close>

lemma read_text_encode:
  assumes "encodeURIComponent s = Some t"
  shows "read_text form t = Some s"
proof -
  have "well_formed s" using assms encodeURIComponent_Some_iff by blast
  then obtain cs where cs: "code_points s = map Some cs" "\<forall>c\<in>set cs. c < 1114112"
    "concat (map utf16 cs) = s" by (rule well_formed_code_points)
  have "t = concat (map uri_code cs)"
    using assms by (auto simp: encodeURIComponent_def cs(1) comp_def split: if_splits)
  then have "octets form t = Some (concat (map utf8 cs))"
    using cs(2) by (simp add: octets_concat_code octets_uri_code)
  with cs(2,3) show ?thesis by (simp add: read_text_def utf8_decode_concat)
qed

lemma read_segment_encode: "encodeURIComponent s = Some t \<Longrightarrow> read_segment t = Some s"
  by (simp add: read_segment_def read_text_encode)

lemma code_points_units:
  "\<forall>u\<in>set s. unat u < 55296 \<Longrightarrow> code_points s = map (\<lambda>u. Some (unat u)) s"
  by (induction s rule: code_points.induct) (auto simp: is_high_def is_low_def)

lemma encode_unescaped:
  assumes "\<forall>u\<in>set s. uri_unescaped (unat u)"
  shows "encodeURIComponent s = Some s"
proof -
  have "\<forall>u\<in>set s. unat u < 55296" using assms by (auto simp: uri_unescaped_def is_alnum_def)
  moreover have "concat (map (\<lambda>u. uri_code (unat u)) s) = s"
    using assms by (induction s) (auto simp: uri_code_def)
  ultimately show ?thesis by (simp add: encodeURIComponent_def code_points_units comp_def image_iff)
qed

lemma read_literal:
  "\<forall>c\<in>set s. uri_unescaped (of_char c) \<Longrightarrow> read_text form (js s) = Some (js s)"
  by (rule read_text_encode, rule encode_unescaped) (auto simp: set_js unat_ch)

lemma read_text_form_encode:
  assumes "well_formed s"
  shows "read_text True (form_encode s) = Some s"
proof -
  obtain cs where cs: "code_points s = map Some cs" "\<forall>c\<in>set cs. c < 1114112"
    "concat (map utf16 cs) = s" using assms by (rule well_formed_code_points)
  have "octets True (form_encode s) = Some (concat (map utf8 cs))"
    using cs(2) by (simp add: form_encode_def cs(1) comp_def octets_concat_code octets_form_code)
  with cs(2,3) show ?thesis by (simp add: read_text_def utf8_decode_concat)
qed

section \<open>What the encoders may emit\<close>

text \<open>Only unescaped characters and \<open>%\<close>: no separator of a path or of a query string.\<close>

definition url_text :: "(nat \<Rightarrow> bool) \<Rightarrow> jsstr \<Rightarrow> bool" where
  "url_text plain s \<longleftrightarrow> (\<forall>u\<in>set s. plain (unat u) \<or> unat u \<in> {37, 43})"

lemma url_text_simps [simp]:
  "url_text plain []" "url_text plain (s @ t) \<longleftrightarrow> url_text plain s \<and> url_text plain t"
  by (auto simp: url_text_def)

lemma url_text_avoids:
  "url_text plain s \<Longrightarrow> \<not> plain (of_char c) \<Longrightarrow> of_char c \<notin> {37, 43 :: nat} \<Longrightarrow> ch c \<notin> set s"
  by (auto simp: url_text_def unat_ch)

lemma url_text_concat: "\<forall>s\<in>set ss. url_text plain s \<Longrightarrow> url_text plain (concat ss)"
  by (induction ss) auto

lemma unat_hex_unit: "d < 16 \<Longrightarrow> is_alnum (unat (hex_unit d))"
  by (auto simp: hex_unit_def unat_cu is_alnum_def)

lemma url_text_percent:
  assumes "b < 256" "\<forall>n. is_alnum n \<longrightarrow> plain n"
  shows "url_text plain (percent b)"
proof -
  have "b div 16 < 16" using assms(1) by (intro less_mult_imp_div_less) simp
  then have "is_alnum (unat (hex_unit (b div 16)))" "is_alnum (unat (hex_unit (b mod 16)))"
    by (simp_all add: unat_hex_unit)
  with assms(2) show ?thesis by (simp add: url_text_def percent_def unat_cu)
qed

lemma url_text_percents:
  assumes "c < 1114112" "\<forall>n. is_alnum n \<longrightarrow> plain n"
  shows "url_text plain (concat (map percent (utf8 c)))"
  by (rule url_text_concat)
    (use utf8_octets [OF assms(1)] url_text_percent [OF _ assms(2)] in auto)

lemma url_text_uri_code:
  assumes "c < 1114112"
  shows "url_text uri_unescaped (uri_code c)"
proof (cases "uri_unescaped c")
  case True
  then have "c < 65536" by (auto simp: uri_unescaped_def is_alnum_def)
  with True show ?thesis by (simp add: uri_code_def url_text_def unat_cu)
next
  case False
  then show ?thesis by (simp add: uri_code_def url_text_percents [OF assms] uri_unescaped_def)
qed

lemma url_text_form_code:
  assumes "\<forall>n. c = Some n \<longrightarrow> n < 1114112"
  shows "url_text form_unescaped (form_code c)"
proof -
  define n where "n = (case c of None \<Rightarrow> 65533 | Some n \<Rightarrow> n)"
  have n: "n < 1114112" using assms by (auto simp: n_def split: option.splits)
  have eq: "form_code c = (if n = 32 then [cu 43] else if form_unescaped n then [cu n]
      else concat (map percent (utf8 n)))"
    by (simp add: form_code_def n_def)
  have small: "form_unescaped n \<Longrightarrow> n < 65536" by (auto simp: form_unescaped_def is_alnum_def)
  have "\<forall>n. is_alnum n \<longrightarrow> form_unescaped n" by (simp add: form_unescaped_def)
  from url_text_percents [OF n this] small show ?thesis
    unfolding eq by (simp add: url_text_def unat_cu)
qed

lemma encodeURIComponent_text:
  assumes "encodeURIComponent s = Some t"
  shows "url_text uri_unescaped t"
proof -
  have "\<forall>c\<in>set (code_points s). url_text uri_unescaped (uri_code (the c))"
    using assms code_points_bound [of _ s]
    by (auto simp: encodeURIComponent_def intro!: url_text_uri_code split: if_splits)
      (metis option.collapse)
  then show ?thesis using assms
    by (auto simp: encodeURIComponent_def intro!: url_text_concat split: if_splits)
qed

lemma form_encode_text: "url_text form_unescaped (form_encode s)"
  unfolding form_encode_def
  by (rule url_text_concat) (auto intro: url_text_form_code code_points_bound)

lemma form_text_no_separator:
  assumes "url_text form_unescaped s"
  shows "ch CHR ''&'' \<notin> set s" "ch CHR ''='' \<notin> set s"
  using assms by (auto simp: url_text_def form_unescaped_def is_alnum_def unat_ch)

section \<open>Query strings\<close>

definition params_ok :: "params \<Rightarrow> bool" where
  "params_ok ps \<longleftrightarrow> (\<forall>p\<in>set ps. well_formed (fst p) \<and> well_formed (snd p))"

lemma split_first_append: "c \<notin> set n \<Longrightarrow> split_first c (n @ c # v) = (n, v)"
  by (induction n) auto

lemma read_pair_text:
  assumes "well_formed n" "well_formed v"
  shows "read_pair (form_encode n @ js ''='' @ form_encode v) = Some (n, v)"
  using assms split_first_append [OF form_text_no_separator(2) [OF form_encode_text]]
  by (simp add: read_pair_def js_Cons read_text_form_encode)

lemma read_params_str:
  assumes "params_ok ps"
  shows "read_params (params_str ps) = Some ps"
proof (cases "ps = []")
  case True
  then show ?thesis by (simp add: params_str_def read_params_def)
next
  case False
  let ?txt = "\<lambda>p. form_encode (fst p) @ js ''='' @ form_encode (snd p)"
  have str: "params_str ps = js_join [ch CHR ''&''] (map ?txt ps)"
    by (simp add: params_str_def js_Cons split_def)
  have "ch CHR ''&'' \<notin> set (?txt p)" for p
    using form_text_no_separator(1) [OF form_encode_text] by (simp add: js_Cons)
  then have split: "js_split (ch CHR ''&'') (params_str ps) = map ?txt ps"
    unfolding str using False by (intro js_split_join) auto
  have "params_str ps \<noteq> []"
    using js_join_eq_Nil [of "[ch CHR ''&'']" "map ?txt ps"] False by (auto simp: str js_Cons)
  moreover have "map read_pair (map ?txt ps) = map Some ps"
    unfolding map_map
    by (rule map_cong [OF refl]) (use assms in \<open>simp add: params_ok_def read_pair_text\<close>)
  moreover have "those (map Some ps) = Some ps" by (induction ps) auto
  ultimately show ?thesis unfolding read_params_def split by (simp only: if_False)
qed

interpretation path_segment: codec encodeURIComponent "\<lambda>t. Option.bind t read_segment" well_formed
proof unfold_locales
  fix s assume "well_formed s"
  then obtain t where "encodeURIComponent s = Some t" using encodeURIComponent_Some_iff by blast
  then show "Option.bind (encodeURIComponent s) read_segment = Some s"
    by (simp add: read_segment_encode)
qed

interpretation query_string: codec params_str read_params params_ok
  by unfold_locales (rule read_params_str)

end
