(* ===== verification/Types.thy ===== *)
theory Types
  imports JsText
begin

text \<open>
  The wire types of \<open>web/src/api/types.ts\<close>: string unions as datatypes with their wire
  names, interfaces as records, and the JSON text of the two request bodies the console sends
  (\<open>JSON.stringify\<close>). Record fields carry the interface's name as a prefix, since several
  interfaces share field names.
\<close>

section \<open>Buttons and punctuation\<close>

definition EM_DASH :: jsstr where
  "EM_DASH = [cu 8212]"

definition ELLIPSIS :: jsstr where
  "ELLIPSIS = [cu 8230]"

text \<open>A button: its text, and whether it can be pressed.\<close>

record button =
  btn_text :: jsstr
  btn_enabled :: bool

section \<open>String unions\<close>

datatype job_status = Queued | In_progress | Completed | Failed

definition job_status_str :: "job_status \<Rightarrow> jsstr" where
  "job_status_str s = js (case s of Queued \<Rightarrow> ''queued'' | In_progress \<Rightarrow> ''in_progress''
     | Completed \<Rightarrow> ''completed'' | Failed \<Rightarrow> ''failed'')"

datatype event_type =
    BackupRequested | BackupStarted | BackupCompleted | BackupFailed
  | PluginDiscoveryStarted | PluginDiscoveryCompleted
  | ArtifactCreated | ArtifactUploadStarted | ArtifactUploadCompleted
  | RepositoryVerificationStarted | RepositoryVerificationCompleted
  | RestoreVerificationStarted | RestoreVerificationCompleted
  | RetentionApplied

definition event_type_str :: "event_type \<Rightarrow> jsstr" where
  "event_type_str t = js (case t of
       BackupRequested \<Rightarrow> ''BackupRequested''
     | BackupStarted \<Rightarrow> ''BackupStarted''
     | BackupCompleted \<Rightarrow> ''BackupCompleted''
     | BackupFailed \<Rightarrow> ''BackupFailed''
     | PluginDiscoveryStarted \<Rightarrow> ''PluginDiscoveryStarted''
     | PluginDiscoveryCompleted \<Rightarrow> ''PluginDiscoveryCompleted''
     | ArtifactCreated \<Rightarrow> ''ArtifactCreated''
     | ArtifactUploadStarted \<Rightarrow> ''ArtifactUploadStarted''
     | ArtifactUploadCompleted \<Rightarrow> ''ArtifactUploadCompleted''
     | RepositoryVerificationStarted \<Rightarrow> ''RepositoryVerificationStarted''
     | RepositoryVerificationCompleted \<Rightarrow> ''RepositoryVerificationCompleted''
     | RestoreVerificationStarted \<Rightarrow> ''RestoreVerificationStarted''
     | RestoreVerificationCompleted \<Rightarrow> ''RestoreVerificationCompleted''
     | RetentionApplied \<Rightarrow> ''RetentionApplied'')"

definition job_statuses :: "job_status list" where
  "job_statuses = [Queued, In_progress, Completed, Failed]"

text \<open>Reading a status back from its wire name.\<close>

definition read_job_status :: "jsstr \<Rightarrow> job_status option" where
  "read_job_status s = List.find (\<lambda>t. job_status_str t = s) job_statuses"

interpretation job_status_wire: codec job_status_str read_job_status "\<lambda>_. True"
proof unfold_locales
  fix t :: job_status
  show "read_job_status (job_status_str t) = Some t"
    by (cases t) (simp_all add: read_job_status_def job_statuses_def job_status_str_def)
qed

section \<open>Interfaces\<close>

record host =
  host_name :: jsstr
  host_host :: jsstr
  host_plugins :: "jsstr list"
  host_schedule :: jsstr

record policy =
  policy_daily :: int
  policy_weekly :: int
  policy_monthly :: int
  policy_yearly :: int

record job =
  job_id :: jsstr
  job_host :: jsstr
  job_plugin :: jsstr
  job_policy :: policy
  job_state :: job_status
  job_queuedAt :: jsstr

record snapshot =
  snap_id :: jsstr
  snap_jobId :: jsstr
  snap_host :: jsstr
  snap_plugin :: jsstr
  snap_size :: nat
  snap_checksum :: jsstr
  snap_createdAt :: jsstr

record bop_event =
  event_kind :: event_type
  event_jobId :: jsstr
  event_host :: jsstr
  event_plugin :: jsstr
  event_resource :: jsstr
  event_fields :: "(jsstr \<times> jsstr) list"
  event_timestamp :: jsstr

record trigger_request =
  req_host :: jsstr
  req_plugin :: jsstr

record informix_config =
  ifx_host :: jsstr
  ifx_port :: int
  ifx_username :: jsstr
  ifx_passwordEnv :: jsstr
  ifx_serverName :: jsstr
  ifx_database :: jsstr
  ifx_tables :: "jsstr list"
  ifx_agentPath :: jsstr

record postgres_config =
  pg_username :: jsstr
  pg_passwordEnv :: jsstr
  pg_databases :: "jsstr list"
  pg_container :: jsstr

record filesystem_config =
  fs_paths :: "jsstr list"
  fs_excludes :: "jsstr list"

datatype plugin_config =
    Informix informix_config
  | Postgres postgres_config
  | Filesystem filesystem_config

section \<open>JSON.stringify\<close>

datatype json = JNull | JBool bool | JNum int | JStr jsstr | JArr "json list"
  | JObj "(jsstr \<times> json) list"

definition low_hex :: "nat \<Rightarrow> code_unit" where
  "low_hex d = (if d < 10 then cu (48 + d) else cu (87 + d))"

definition unicode_escape :: "nat \<Rightarrow> jsstr" where
  "unicode_escape n = [cu 92, ch CHR ''u'', low_hex (n div 4096), low_hex (n div 256 mod 16),
     low_hex (n div 16 mod 16), low_hex (n mod 16)]"

text \<open>
  One code point of a string literal (\<open>QuoteJSONString\<close>): the short escapes, \<open>\u\<close> for other
  control characters, the character itself otherwise.
\<close>

definition quote_code :: "nat \<Rightarrow> jsstr" where
  "quote_code n =
     (if n = 8 then [cu 92, ch CHR ''b''] else if n = 9 then [cu 92, ch CHR ''t'']
      else if n = 10 then [cu 92, ch CHR ''n''] else if n = 12 then [cu 92, ch CHR ''f'']
      else if n = 13 then [cu 92, ch CHR ''r''] else if n = 34 then [cu 92, cu 34]
      else if n = 92 then [cu 92, cu 92]
      else if n < 32 then unicode_escape n else utf16 n)"

text \<open>A surrogate without its partner is escaped too;\<close>

fun quote_units :: "jsstr \<Rightarrow> jsstr" where
  "quote_units [] = []"
| "quote_units [u] = (if is_high u \<or> is_low u then unicode_escape (unat u) else quote_code (unat u))"
| "quote_units (u # v # s) =
     (if is_high u \<and> is_low v then u # v # quote_units s
      else (if is_high u \<or> is_low u then unicode_escape (unat u) else quote_code (unat u))
        @ quote_units (v # s))"

definition json_string :: "jsstr \<Rightarrow> jsstr" where
  "json_string s = cu 34 # quote_units s @ [cu 34]"

fun stringify :: "json \<Rightarrow> jsstr" where
  "stringify JNull = js ''null''"
| "stringify (JBool b) = (if b then js ''true'' else js ''false'')"
| "stringify (JNum n) = int_str n"
| "stringify (JStr s) = json_string s"
| "stringify (JArr xs) = js ''['' @ js_join (js '','') (map stringify xs) @ js '']''"
| "stringify (JObj ps) = js ''{'' @ js_join (js '','')
     (map (\<lambda>(k, v). json_string k @ js '':'' @ stringify v) ps) @ js ''}''"

definition strs_json :: "jsstr list \<Rightarrow> json" where
  "strs_json xs = JArr (map JStr xs)"

definition trigger_json :: "trigger_request \<Rightarrow> json" where
  "trigger_json r = JObj [(js ''host'', JStr (req_host r)), (js ''plugin'', JStr (req_plugin r))]"

fun config_json :: "plugin_config \<Rightarrow> json" where
  "config_json (Informix c) = JObj
     [(js ''host'', JStr (ifx_host c)), (js ''port'', JNum (ifx_port c)),
      (js ''username'', JStr (ifx_username c)), (js ''passwordEnv'', JStr (ifx_passwordEnv c)),
      (js ''serverName'', JStr (ifx_serverName c)), (js ''database'', JStr (ifx_database c)),
      (js ''tables'', strs_json (ifx_tables c)), (js ''agentPath'', JStr (ifx_agentPath c))]"
| "config_json (Postgres c) = JObj
     [(js ''username'', JStr (pg_username c)), (js ''passwordEnv'', JStr (pg_passwordEnv c)),
      (js ''databases'', strs_json (pg_databases c)), (js ''container'', JStr (pg_container c))]"
| "config_json (Filesystem c) = JObj
     [(js ''paths'', strs_json (fs_paths c)), (js ''excludes'', strs_json (fs_excludes c))]"

end
