(* ===== verification/Client.thy ===== *)
theory Client
  imports Types
begin

text \<open>
  \<open>web/src/api/client.ts\<close>: the module state (token, \<open>sessionStorage\<close>, the set of
  401 listeners), the two halves of \<open>request\<close> on either side of \<open>await fetch\<close>, and the
  endpoints of \<open>api\<close>. What the network answers is an argument (\<open>fetch_outcome\<close>); the two
  readings the code makes of one body, as an error object and as the endpoint's type, are two
  fields of the response.
\<close>

section \<open>Module state\<close>

record client =
  token :: "jsstr option"
  storage :: "jsstr \<Rightarrow> jsstr option"
  listeners :: "nat list"

definition STORAGE_KEY :: jsstr where
  "STORAGE_KEY = js ''bop.token''"

definition module_load :: "(jsstr \<Rightarrow> jsstr option) \<Rightarrow> client" where
  "module_load st = \<lparr>token = st STORAGE_KEY, storage = st, listeners = []\<rparr>"

definition getToken :: "client \<Rightarrow> jsstr option" where
  "getToken c = token c"

definition setToken :: "jsstr \<Rightarrow> client \<Rightarrow> client" where
  "setToken t c = c\<lparr>token := Some t, storage := (storage c)(STORAGE_KEY := Some t)\<rparr>"

definition clearToken :: "client \<Rightarrow> client" where
  "clearToken c = c\<lparr>token := None, storage := (storage c)(STORAGE_KEY := None)\<rparr>"

text \<open>A \<open>Set\<close> of listeners: insertion order, no duplicates. Listeners are identities.\<close>

definition onUnauthorized :: "nat \<Rightarrow> client \<Rightarrow> client" where
  "onUnauthorized l c =
     (if l \<in> set (listeners c) then c else c\<lparr>listeners := listeners c @ [l]\<rparr>)"

definition offUnauthorized :: "nat \<Rightarrow> client \<Rightarrow> client" where
  "offUnauthorized l c = c\<lparr>listeners := filter (\<lambda>k. k \<noteq> l) (listeners c)\<rparr>"

section \<open>Headers\<close>

text \<open>
  \<open>Headers.set\<close>: the value is stripped of HTTP white space; a value with a code unit above
  255, or with NUL, LF or CR left inside, makes it throw (\<open>None\<close>). Names are matched without
  case.
\<close>

type_synonym headers = "(jsstr \<times> jsstr) list"

definition http_space :: "code_unit \<Rightarrow> bool" where
  "http_space u = (unat u \<in> {9, 10, 13, 32})"

definition header_value :: "jsstr \<Rightarrow> jsstr option" where
  "header_value v =
     (let w = rev (dropWhile http_space (rev (dropWhile http_space v))) in
      if list_all (\<lambda>u. unat u \<le> 255 \<and> unat u \<notin> {0, 10, 13}) w then Some w else None)"

definition lower_unit :: "code_unit \<Rightarrow> code_unit" where
  "lower_unit u = (if 65 \<le> unat u \<and> unat u \<le> 90 then cu (unat u + 32) else u)"

definition same_name :: "jsstr \<Rightarrow> jsstr \<Rightarrow> bool" where
  "same_name a b = (map lower_unit a = map lower_unit b)"

definition headers_set :: "jsstr \<Rightarrow> jsstr \<Rightarrow> headers \<Rightarrow> headers option" where
  "headers_set n v hs =
     map_option (\<lambda>w. filter (\<lambda>h. \<not> same_name (fst h) n) hs @ [(n, w)]) (header_value v)"

definition headers_get :: "jsstr \<Rightarrow> headers \<Rightarrow> jsstr option" where
  "headers_get n hs = map_option snd (List.find (\<lambda>h. same_name (fst h) n) hs)"

section \<open>request\<close>

record request_init =
  init_method :: "jsstr option"
  init_headers :: headers
  init_body :: "jsstr option"

record http_request =
  http_path :: jsstr
  http_method :: jsstr
  http_headers :: headers
  http_body :: "jsstr option"

definition no_init :: request_init where
  "no_init = \<lparr>init_method = None, init_headers = [], init_body = None\<rparr>"

datatype error_body = NotJson | NullBody | ErrorObject "jsstr option"

text \<open>\<open>res_value\<close>: \<open>None\<close> when \<open>res.json()\<close> rejects, \<open>Some None\<close> for a JSON \<open>null\<close>.\<close>

record 'a response =
  res_status :: nat
  res_statusText :: jsstr
  res_error :: error_body
  res_value :: "'a option option"

datatype 'a fetch_outcome = NetworkError | Responded "'a response"

definition res_ok :: "('a, 'b) response_scheme \<Rightarrow> bool" where
  "res_ok r = (200 \<le> res_status r \<and> res_status r \<le> 299)"

text \<open>Up to \<open>await fetch\<close>: the headers from the token held in module state, and from the body.\<close>

definition request_start :: "client \<Rightarrow> jsstr \<Rightarrow> request_init \<Rightarrow> http_request result" where
  "request_start c path ini =
     (let h0 = Some (init_headers ini);
          h1 = (if truthy (token c)
                then Option.bind h0 (headers_set (js ''Authorization'') (js ''Bearer '' @ the (token c)))
                else h0);
          h2 = (if truthy (init_body ini)
                then Option.bind h1 (headers_set (js ''Content-Type'') (js ''application/json''))
                else h1)
      in case h2 of
           None \<Rightarrow> Inl OtherError
         | Some hs \<Rightarrow> Inr \<lparr>http_path = path,
             http_method = (case init_method ini of None \<Rightarrow> js ''GET'' | Some m \<Rightarrow> m),
             http_headers = hs, http_body = init_body ini\<rparr>)"

definition error_message :: "('a, 'b) response_scheme \<Rightarrow> jsstr" where
  "error_message r = (case res_error r of
       ErrorObject (Some e) \<Rightarrow> if e \<noteq> [] then e else res_statusText r
     | ErrorObject None \<Rightarrow> res_statusText r
     | NotJson \<Rightarrow> res_statusText r
     | NullBody \<Rightarrow> res_statusText r)"

text \<open>
  After \<open>await fetch\<close>: the result of the promise (\<open>Inr None\<close> is \<open>undefined\<close> or \<open>null\<close>) and
  the listeners called, in order. \<open>client\<close> is the module state at that moment.
\<close>

definition request_finish ::
  "client \<Rightarrow> bool \<Rightarrow> 'a fetch_outcome \<Rightarrow> 'a option result \<times> nat list" where
  "request_finish c suppress out = (case out of
       NetworkError \<Rightarrow> (Inl OtherError, [])
     | Responded r \<Rightarrow>
         (let notified = (if res_status r = 401 \<and> \<not> suppress then listeners c else []) in
          if \<not> res_ok r then (Inl (ApiError (res_status r) (error_message r)), notified)
          else if res_status r = 204 then (Inr None, notified)
          else (case res_value r of
                  None \<Rightarrow> (Inl OtherError, notified)
                | Some v \<Rightarrow> (Inr v, notified))))"

section \<open>api\<close>

record api_call =
  call_path :: jsstr
  call_init :: request_init
  call_suppress :: bool

definition read_call :: "jsstr \<Rightarrow> api_call" where
  "read_call path = \<lparr>call_path = path, call_init = no_init, call_suppress = False\<rparr>"

definition write_call :: "jsstr \<Rightarrow> jsstr \<Rightarrow> json \<Rightarrow> api_call" where
  "write_call meth path body =
     \<lparr>call_path = path,
      call_init = \<lparr>init_method = Some meth, init_headers = [], init_body = Some (stringify body)\<rparr>,
      call_suppress = True\<rparr>"

text \<open>\<open>encodeURIComponent\<close> throws before \<open>request\<close> is entered.\<close>

definition encoded :: "jsstr \<Rightarrow> jsstr result" where
  "encoded s = (case encodeURIComponent s of None \<Rightarrow> Inl OtherError | Some t \<Rightarrow> Inr t)"

fun bind_result :: "'a result \<Rightarrow> ('a \<Rightarrow> 'b result) \<Rightarrow> 'b result" where
  "bind_result (Inl e) f = Inl e"
| "bind_result (Inr x) f = f x"

definition listHosts :: api_call where
  "listHosts = read_call (js ''/v1/hosts'')"

definition listJobs :: "jsstr option \<Rightarrow> api_call result" where
  "listJobs status =
     (if truthy status
      then bind_result (encoded (the status)) (\<lambda>e. Inr (read_call (js ''/v1/jobs'' @ js ''?status='' @ e)))
      else Inr (read_call (js ''/v1/jobs'')))"

definition getJob :: "jsstr \<Rightarrow> api_call result" where
  "getJob i = bind_result (encoded i) (\<lambda>e. Inr (read_call (js ''/v1/jobs/'' @ e)))"

definition listSnapshots :: "jsstr \<Rightarrow> api_call result" where
  "listSnapshots h = bind_result (encoded h) (\<lambda>e. Inr (read_call (js ''/v1/snapshots?host='' @ e)))"

record event_filter =
  filter_jobId :: "jsstr option"
  filter_host :: "jsstr option"
  filter_limit :: "nat option"

definition event_params :: "event_filter option \<Rightarrow> params" where
  "event_params f = (case f of
       None \<Rightarrow> []
     | Some g \<Rightarrow>
         (let p0 = [];
              p1 = (if truthy (filter_jobId g) then params_set (js ''job_id'') (the (filter_jobId g)) p0 else p0);
              p2 = (if truthy (filter_host g) then params_set (js ''host'') (the (filter_host g)) p1 else p1)
          in case filter_limit g of
               Some n \<Rightarrow> if n \<noteq> 0 then params_set (js ''limit'') (nat_str n) p2 else p2
             | None \<Rightarrow> p2))"

definition listEvents :: "event_filter option \<Rightarrow> api_call" where
  "listEvents f =
     (let qs = params_str (event_params f)
      in read_call (js ''/v1/events'' @ (if qs \<noteq> [] then js ''?'' @ qs else [])))"

definition triggerBackup :: "trigger_request \<Rightarrow> api_call" where
  "triggerBackup r = write_call (js ''POST'') (js ''/v1/backups'') (trigger_json r)"

definition config_path :: "jsstr \<Rightarrow> jsstr \<Rightarrow> jsstr result" where
  "config_path h p = bind_result (encoded h) (\<lambda>eh. bind_result (encoded p) (\<lambda>ep.
     Inr (js ''/v1/hosts/'' @ eh @ js ''/plugins/'' @ ep @ js ''/config'')))"

definition getPluginConfig :: "jsstr \<Rightarrow> jsstr \<Rightarrow> api_call result" where
  "getPluginConfig h p = bind_result (config_path h p) (\<lambda>path. Inr (read_call path))"

definition setPluginConfig :: "jsstr \<Rightarrow> jsstr \<Rightarrow> plugin_config \<Rightarrow> api_call result" where
  "setPluginConfig h p cfg =
     bind_result (config_path h p) (\<lambda>path. Inr (write_call (js ''PUT'') path (config_json cfg)))"

text \<open>A call as it leaves the browser.\<close>

definition send :: "client \<Rightarrow> api_call \<Rightarrow> http_request result" where
  "send c a = request_start c (call_path a) (call_init a)"

section \<open>The token store\<close>

lemma token_ops [simp]:
  "token (setToken t c) = Some t" "token (clearToken c) = None"
  "listeners (setToken t c) = listeners c" "listeners (clearToken c) = listeners c"
  "storage (setToken t c) STORAGE_KEY = Some t" "storage (clearToken c) STORAGE_KEY = None"
  "token (onUnauthorized l c) = token c" "token (offUnauthorized l c) = token c"
  "storage (onUnauthorized l c) = storage c" "storage (offUnauthorized l c) = storage c"
  by (simp_all add: setToken_def clearToken_def onUnauthorized_def offUnauthorized_def)

lemma listener_ops:
  "set (listeners (onUnauthorized l c)) = insert l (set (listeners c))"
  "set (listeners (offUnauthorized l c)) = set (listeners c) - {l}"
  "distinct (listeners c) \<Longrightarrow> distinct (listeners (onUnauthorized l c))"
  "distinct (listeners c) \<Longrightarrow> distinct (listeners (offUnauthorized l c))"
  by (auto simp: onUnauthorized_def offUnauthorized_def)

text \<open>Module state and \<open>sessionStorage\<close> agree, and other keys are left alone.\<close>

definition synced :: "client \<Rightarrow> bool" where
  "synced c \<longleftrightarrow> storage c STORAGE_KEY = token c"

lemma synced_ops [simp, intro]:
  "synced (module_load st)" "synced (setToken t c)" "synced (clearToken c)"
  "synced c \<Longrightarrow> synced (onUnauthorized l c)" "synced c \<Longrightarrow> synced (offUnauthorized l c)"
  by (simp_all add: synced_def module_load_def)

lemma storage_frame:
  "k \<noteq> STORAGE_KEY \<Longrightarrow> storage (setToken t c) k = storage c k"
  "k \<noteq> STORAGE_KEY \<Longrightarrow> storage (clearToken c) k = storage c k"
  by (simp_all add: setToken_def clearToken_def)

section \<open>Headers of a request\<close>

lemma same_name_sym: "same_name a b = same_name b a"
  by (auto simp: same_name_def)

lemma same_name_trans: "same_name a b \<Longrightarrow> same_name b c \<Longrightarrow> same_name a c"
  by (simp add: same_name_def)

lemma same_name_refl [simp]: "same_name a a"
  by (simp add: same_name_def)

lemma find_append: "List.find P (xs @ ys) = (case List.find P xs of None \<Rightarrow> List.find P ys | Some x \<Rightarrow> Some x)"
  by (induction xs) auto

lemma headers_get_set:
  assumes "headers_set n v hs = Some hs'"
  shows "headers_get m hs' = (if same_name m n then header_value v else headers_get m hs)"
proof -
  obtain w where w: "header_value v = Some w" "hs' = filter (\<lambda>h. \<not> same_name (fst h) n) hs @ [(n, w)]"
    using assms by (auto simp: headers_set_def)
  show ?thesis
  proof (cases "same_name m n")
    case True
    then have "List.find (\<lambda>h. same_name (fst h) m) (filter (\<lambda>h. \<not> same_name (fst h) n) hs) = None"
      using same_name_trans by (auto simp: find_None_iff)
    with True w show ?thesis by (simp add: headers_get_def find_append same_name_sym)
  next
    case False
    then have "List.find (\<lambda>h. same_name (fst h) m) (filter (\<lambda>h. \<not> same_name (fst h) n) hs)
        = List.find (\<lambda>h. same_name (fst h) m) hs"
      by (induction hs) (auto simp: same_name_def)
    with False w show ?thesis
      by (auto simp: headers_get_def find_append same_name_sym split: option.splits)
  qed
qed

lemma header_value_plain:
  assumes "v \<noteq> []" "\<not> http_space (hd v)" "\<not> http_space (last v)"
    and "list_all (\<lambda>u. unat u \<le> 255 \<and> unat u \<notin> {0, 10, 13}) v"
  shows "header_value v = Some v"
proof -
  have "dropWhile http_space v = v" "dropWhile http_space (rev v) = rev v"
    using assms(1-3) by (auto simp: dropWhile_id hd_rev)
  with assms(4) show ?thesis by (simp add: header_value_def)
qed

text \<open>A token as it is pasted: visible, within a byte, no blank at its end.\<close>

definition header_token :: "jsstr \<Rightarrow> bool" where
  "header_token t \<longleftrightarrow> t \<noteq> [] \<and> \<not> http_space (last t)
     \<and> list_all (\<lambda>u. unat u \<le> 255 \<and> unat u \<notin> {0, 10, 13}) t"

lemma header_value_bearer:
  assumes "header_token t"
  shows "header_value (js ''Bearer '' @ t) = Some (js ''Bearer '' @ t)"
  by (rule header_value_plain)
    (use assms in \<open>auto simp: header_token_def js_Cons unat_ch http_space_def\<close>)

lemma header_value_json: "header_value (js ''application/json'') = Some (js ''application/json'')"
  by (rule header_value_plain) (simp_all add: js_Cons unat_ch http_space_def)

lemma header_names_differ [simp]:
  "\<not> same_name (js ''Authorization'') (js ''Content-Type'')"
  "\<not> same_name (js ''Content-Type'') (js ''Authorization'')"
  by (auto simp: same_name_def dest: map_eq_imp_length_eq)

section \<open>Paths and queries\<close>

lemma encoded_Inr_iff: "encoded s = Inr t \<longleftrightarrow> encodeURIComponent s = Some t"
  by (simp add: encoded_def split: option.splits)

lemma encoded_well_formed: "well_formed s \<Longrightarrow> \<exists>t. encoded s = Inr t"
  using encodeURIComponent_Some_iff [of s] by (auto simp: encoded_Inr_iff)

lemma bind_result_Inr_iff: "bind_result r f = Inr y \<longleftrightarrow> (\<exists>x. r = Inr x \<and> f x = Inr y)"
  by (cases r) auto

lemma encoded_no_separator:
  assumes "encoded s = Inr t"
  shows "ch CHR ''/'' \<notin> set t" "ch CHR ''?'' \<notin> set t" "ch CHR ''#'' \<notin> set t"
    "ch CHR ''&'' \<notin> set t" "ch CHR ''='' \<notin> set t"
proof -
  have t: "url_text uri_unescaped t" using assms by (simp add: encoded_Inr_iff encodeURIComponent_text)
  show "ch CHR ''/'' \<notin> set t" "ch CHR ''?'' \<notin> set t" "ch CHR ''#'' \<notin> set t"
    "ch CHR ''&'' \<notin> set t" "ch CHR ''='' \<notin> set t"
    by (rule url_text_avoids [OF t]; simp add: uri_unescaped_def is_alnum_def)+
qed

lemma read_segment_encoded: "encoded s = Inr t \<Longrightarrow> read_segment t = Some s"
  by (simp add: encoded_Inr_iff read_segment_encode)

lemma call_path_simps [simp]:
  "call_path (read_call p) = p" "call_path (write_call m p b) = p"
  "call_suppress (read_call p) = False" "call_suppress (write_call m p b) = True"
  by (simp_all add: read_call_def write_call_def)

text \<open>
  What becomes of a path (reference definitions). The URL parser of the browser removes the dot
  segments, \<open>.\<close> and \<open>..\<close> however they are escaped, the latter with the segment before them;
  a server reads the segments that are left, each percent-decoded. Of a path with a query it reads
  the part before the first \<open>?\<close>, and the pairs after it.
\<close>

definition dot_name :: "jsstr \<Rightarrow> bool" where
  "dot_name s \<longleftrightarrow> s = js ''.'' \<or> s = js ''..''"

fun resolve_dots :: "jsstr option list \<Rightarrow> jsstr option list \<Rightarrow> jsstr option list" where
  "resolve_dots out [] = rev out"
| "resolve_dots out (s # ss) =
     (if s = Some (js ''..'') then resolve_dots (if ss = [] then Some [] # tl out else tl out) ss
      else if s = Some (js ''.'') then resolve_dots (if ss = [] then Some [] # out else out) ss
      else resolve_dots (s # out) ss)"

definition route :: "jsstr \<Rightarrow> jsstr option list" where
  "route path = (let ss = map read_segment (js_split (ch CHR ''/'') path)
     in hd ss # resolve_dots [] (tl ss))"

definition path_query :: "jsstr \<Rightarrow> jsstr \<times> params option" where
  "path_query url = apsnd read_params (split_first (ch CHR ''?'') url)"

lemma resolve_dots_plain:
  "\<forall>s\<in>set ss. \<not> dot_name s \<Longrightarrow> resolve_dots out (map Some ss) = rev out @ map Some ss"
  by (induction ss arbitrary: out) (auto simp: dot_name_def)

lemma split_path:
  "xs \<noteq> [] \<Longrightarrow> \<forall>x\<in>set xs. ch CHR ''/'' \<notin> set x \<Longrightarrow> map read_segment xs = ss
    \<Longrightarrow> route (js_join [ch CHR ''/''] xs) = hd ss # resolve_dots [] (tl ss)"
  by (simp add: route_def js_split_join Let_def)

lemma route_join:
  assumes "\<forall>x\<in>set xs. ch CHR ''/'' \<notin> set x" "map read_segment xs = map Some ys"
    and "ys \<noteq> []" "\<forall>y\<in>set (tl ys). \<not> dot_name y"
  shows "route (js_join [ch CHR ''/''] xs) = map Some ys"
proof -
  have "xs \<noteq> []" using assms(2,3) by auto
  from split_path [OF this assms(1,2)] show ?thesis
    using assms(3,4) by (cases ys) (simp_all add: resolve_dots_plain)
qed

lemma literal_not_dot [simp]:
  "\<not> dot_name (js ''v1'')" "\<not> dot_name (js ''hosts'')" "\<not> dot_name (js ''jobs'')"
  "\<not> dot_name (js ''plugins'')" "\<not> dot_name (js ''config'')" "\<not> dot_name (js ''informix'')"
  by (simp_all add: dot_name_def)

lemma read_segment_literal [simp]:
  "read_segment [] = Some []"
  "read_segment (js ''v1'') = Some (js ''v1'')" "read_segment (js ''hosts'') = Some (js ''hosts'')"
  "read_segment (js ''jobs'') = Some (js ''jobs'')"
  "read_segment (js ''plugins'') = Some (js ''plugins'')"
  "read_segment (js ''config'') = Some (js ''config'')"
  using read_literal [of "[]" False] unfolding read_segment_def
  by (simp_all add: read_literal uri_unescaped_def is_alnum_def)

lemma config_path_join:
  "js ''/v1/hosts/'' @ eh @ js ''/plugins/'' @ ep @ js ''/config'' = js_join [ch CHR ''/'']
     [[], js ''v1'', js ''hosts'', eh, js ''plugins'', ep, js ''config'']"
  by (simp add: js_Cons)

lemma job_path_join:
  "js ''/v1/jobs/'' @ e = js_join [ch CHR ''/''] [[], js ''v1'', js ''jobs'', e]"
  by (simp add: js_Cons)

lemma config_path_resolved:
  assumes "config_path h p = Inr path"
  shows "route path = Some [] # resolve_dots [] (map Some [js ''v1'', js ''hosts'', h, js ''plugins'', p, js ''config''])"
proof -
  obtain eh ep where e: "encoded h = Inr eh" "encoded p = Inr ep"
    and path: "path = js ''/v1/hosts/'' @ eh @ js ''/plugins/'' @ ep @ js ''/config''"
    using assms(1) by (auto simp: config_path_def bind_result_Inr_iff)
  have "route path = hd (map Some [[], js ''v1'', js ''hosts'', h, js ''plugins'', p, js ''config''])
      # resolve_dots [] (tl (map Some [[], js ''v1'', js ''hosts'', h, js ''plugins'', p, js ''config'']))"
    unfolding path config_path_join
    by (rule split_path)
      (use e in \<open>auto simp: read_segment_encoded set_js dest: encoded_no_separator(1)\<close>)
  then show ?thesis by simp
qed

text \<open>
  The name \<open>..\<close> takes its segment and the one before it away, the name \<open>.\<close> its own: what the
  path of such a name says then, in full.
\<close>

definition without_dots :: "jsstr \<Rightarrow> jsstr \<Rightarrow> jsstr list" where
  "without_dots h p = (if h = js ''..'' then [[], js ''v1''] else if h = js ''.'' then [[], js ''v1'', js ''hosts'']
       else [[], js ''v1'', js ''hosts'', h])
     @ (if p = js ''..'' then [] else if p = js ''.'' then [js ''plugins''] else [js ''plugins'', p]) @ [js ''config'']"

lemma config_path_route:
  assumes "config_path h p = Inr path"
  shows "route path = map Some (without_dots h p)"
  unfolding config_path_resolved [OF assms] by (simp add: without_dots_def)

lemma without_dots_iff: "without_dots h p = [[], js ''v1'', js ''hosts'', h, js ''plugins'', p, js ''config'']
    \<longleftrightarrow> \<not> dot_name h \<and> \<not> dot_name p"
  by (auto simp: without_dots_def dot_name_def)

lemma config_path_plain:
  assumes "config_path h p = Inr path"
  shows "ch CHR ''?'' \<notin> set path" "ch CHR ''#'' \<notin> set path"
  using assms
  by (auto simp: config_path_def bind_result_Inr_iff set_js dest: encoded_no_separator)

lemma split_first_plain: "c \<notin> set s \<Longrightarrow> split_first c s = (s, [])"
  by (induction s) auto

lemma read_params_single:
  assumes "read_text True n = Some n'" "read_text True v = Some v'"
    and "ch CHR ''='' \<notin> set n" "ch CHR ''&'' \<notin> set n" "ch CHR ''&'' \<notin> set v"
  shows "read_params (n @ js ''='' @ v) = Some [(n', v')]"
proof -
  have "ch CHR ''&'' \<notin> set (n @ js ''='' @ v)" using assms by (simp add: js_Cons)
  then have "js_split (ch CHR ''&'') (n @ js ''='' @ v) = [n @ js ''='' @ v]"
    by (rule js_split_no_sep)
  moreover have "split_first (ch CHR ''='') (n @ js ''='' @ v) = (n, v)"
    using split_first_append [OF assms(3)] by (simp add: js_Cons)
  ultimately show ?thesis using assms(1,2)
    by (simp add: read_params_def read_pair_def js_Cons)
qed

lemma path_query_append:
  assumes "ch CHR ''?'' \<notin> set p"
  shows "path_query (p @ js ''?'' @ q) = (p, read_params q)"
  using split_first_append [OF assms, of q] by (simp add: path_query_def js_Cons)

lemma path_query_plain:
  assumes "ch CHR ''?'' \<notin> set p"
  shows "path_query p = (p, Some [])"
  using split_first_plain [OF assms] by (simp add: path_query_def read_params_def)

lemma read_single_encoded:
  assumes "encoded v = Inr e" "\<forall>c\<in>set n. uri_unescaped (of_char c)"
    "CHR ''='' \<notin> set n" "CHR ''&'' \<notin> set n"
  shows "read_params (js n @ js ''='' @ e) = Some [(js n, v)]"
proof -
  have "read_text True e = Some v" using assms(1) by (simp add: encoded_Inr_iff read_text_encode)
  moreover have "ch CHR ''='' \<notin> set (js n)" "ch CHR ''&'' \<notin> set (js n)"
    using assms(3,4) by (auto simp: set_js)
  ultimately show ?thesis using read_literal [OF assms(2)] encoded_no_separator(4) [OF assms(1)]
    by (intro read_params_single)
qed

lemma params_set_fresh: "n \<notin> fst ` set ps \<Longrightarrow> params_set n v ps = ps @ [(n, v)]"
  by (induction ps) auto

lemma event_params_alt:
  "event_params (Some f) =
     (if truthy (filter_jobId f) then [(js ''job_id'', the (filter_jobId f))] else [])
   @ (if truthy (filter_host f) then [(js ''host'', the (filter_host f))] else [])
   @ (case filter_limit f of Some n \<Rightarrow> if n \<noteq> 0 then [(js ''limit'', nat_str n)] else [] | None \<Rightarrow> [])"
  by (simp add: event_params_def params_set_fresh Let_def split: option.splits)

lemma well_formed_units: "\<forall>u\<in>set s. unat u < 55296 \<Longrightarrow> well_formed s"
  by (auto simp: well_formed_def code_points_units)

lemma well_formed_js [simp]: "well_formed (js s)"
proof (rule well_formed_units, rule ballI)
  fix u assume "u \<in> set (js s)"
  then obtain c where "u = ch c" by (auto simp: set_js)
  moreover have "(of_char c :: nat) < 55296" using nat_of_char_less_256 [of c] by linarith
  ultimately show "unat u < 55296" by (simp add: unat_ch)
qed

lemma set_nat_str: "u \<in> set (nat_str n) \<Longrightarrow> 48 \<le> unat u \<and> unat u \<le> 57"
proof (induction n rule: nat_str.induct)
  case (1 n)
  have d: "unat (digit_unit k) = 48 + k" if "k < 10" for k
    using that by (simp add: digit_unit_def unat_cu)
  show ?case
  proof (cases "n < 10")
    case True
    with 1 show ?thesis by (simp add: nat_str.simps [of n] d)
  next
    case False
    with 1 have "u \<in> set (nat_str (n div 10)) \<or> u = digit_unit (n mod 10)"
      by (auto simp: nat_str.simps [of n])
    then show ?thesis using 1(1) [OF False] d [of "n mod 10"] by auto
  qed
qed

lemma well_formed_nat_str [simp]: "well_formed (nat_str n)"
  by (rule well_formed_units) (auto dest: set_nat_str)

lemma params_str_Nil_iff: "params_str ps = [] \<longleftrightarrow> ps = []"
proof
  assume "params_str ps = []"
  then have "map (\<lambda>(n, v). form_encode n @ js ''='' @ form_encode v) ps = []"
    unfolding params_str_def by (rule js_join_eq_Nil) (auto simp: js_Cons)
  then show "ps = []" by simp
qed (simp add: params_str_def)

lemma send_authorization:
  assumes "send c a = Inr req" "init_headers (call_init a) = []"
  shows "headers_get (js ''Authorization'') (http_headers req) =
     (if truthy (token c) then header_value (js ''Bearer '' @ the (token c)) else None)"
proof -
  have none: "headers_get n [] = None" for n by (simp add: headers_get_def)
  show ?thesis using assms
    by (auto simp: send_def request_start_def Let_def none headers_get_set bind_eq_Some_conv
        split: option.splits if_splits)
qed

lemma send_token_cong: "token c = token d \<Longrightarrow> send c a = send d a"
  by (simp add: send_def request_start_def Let_def cong: if_cong)

lemma api_call_headers [simp]:
  "init_headers (call_init (read_call p)) = []" "init_headers (call_init (write_call m p b)) = []"
  "init_body (call_init (read_call p)) = None"
  "init_method (call_init (read_call p)) = None" "init_method (call_init (write_call m p b)) = Some m"
  "init_body (call_init (write_call m p b)) = Some (stringify b)"
  by (simp_all add: read_call_def write_call_def no_init_def)

lemma send_fields:
  assumes "send c a = Inr req"
  shows "http_path req = call_path a" "http_body req = init_body (call_init a)"
    and "http_method req = (case init_method (call_init a) of None \<Rightarrow> js ''GET'' | Some m \<Rightarrow> m)"
  using assms by (auto simp: send_def request_start_def Let_def split: option.splits)

lemma send_leaves:
  assumes "token c = Some t" "header_token t" "init_headers (call_init a) = []"
  shows "\<exists>w. send c a = Inr w"
  using assms header_value_bearer [OF assms(2)]
  by (simp add: send_def request_start_def headers_set_def header_value_json Let_def split: option.splits)

section \<open>Properties\<close>

text \<open>
  Every request presents the token held in module state, as \<open>Authorization: Bearer\<close>, and no
  such header when there is none; a body makes it JSON. A request only fails to leave when the
  token cannot be a header value.
\<close>

theorem request_headers:
  assumes "init_headers (call_init a) = []"
  shows "case send c a of
      Inl e \<Rightarrow> e = OtherError \<and> truthy (token c) \<and> header_value (js ''Bearer '' @ the (token c)) = None
    | Inr req \<Rightarrow> http_path req = call_path a \<and> http_body req = init_body (call_init a)
        \<and> headers_get (js ''Authorization'') (http_headers req) =
            (if truthy (token c) then header_value (js ''Bearer '' @ the (token c)) else None)
        \<and> headers_get (js ''Content-Type'') (http_headers req) =
            (if truthy (init_body (call_init a)) then Some (js ''application/json'') else None)"
proof -
  have none: "headers_get n [] = None" for n by (simp add: headers_get_def)
  have json: "\<exists>hs'. headers_set (js ''Content-Type'') (js ''application/json'') hs = Some hs'" for hs
    by (simp add: headers_set_def header_value_json)
  show ?thesis
  proof (cases "truthy (token c)")
    case False
    with json [of "[]"] assms show ?thesis
      by (auto simp: send_def request_start_def Let_def none headers_get_set header_value_json)
  next
    case True
    note t = True
    show ?thesis
    proof (cases "headers_set (js ''Authorization'') (js ''Bearer '' @ the (token c)) []")
      case None
      then have "header_value (js ''Bearer '' @ the (token c)) = None" by (simp add: headers_set_def)
      with None t assms show ?thesis by (simp add: send_def request_start_def Let_def)
    next
      case (Some hs)
      with json [of hs] t assms show ?thesis
        by (auto simp: send_def request_start_def Let_def none headers_get_set [OF Some]
            headers_get_set header_value_json)
    qed
  qed
qed

theorem request_headers_witness:
  "\<exists>req. send (setToken (js ''s3cret'') (module_load (\<lambda>_. None))) listHosts = Inr req
     \<and> headers_get (js ''Authorization'') (http_headers req) = Some (js ''Bearer s3cret'')"
proof -
  let ?c = "setToken (js ''s3cret'') (module_load (\<lambda>_. None))"
  have "header_token (js ''s3cret'')"
    by (simp add: header_token_def js_Cons unat_ch http_space_def)
  from header_value_bearer [OF this]
  have v: "header_value (js ''Bearer '' @ the (token ?c)) = Some (js ''Bearer s3cret'')"
    by (simp add: js_append [symmetric])
  have "init_headers (call_init listHosts) = []" by (simp add: listHosts_def read_call_def no_init_def)
  from request_headers [OF this, of ?c] v show ?thesis by (auto split: sum.splits)
qed

text \<open>
  C9. The three ways a request ends. It resolves only on a 2xx status; it rejects with an
  \<open>ApiError\<close> exactly on every other status, carrying that status and the server's message if the
  body has one and the status text otherwise; it rejects with anything else only when the
  network failed or a 2xx body was not JSON.
\<close>

theorem request_outcomes:
  "(fst (request_finish c quiet out) = Inr v \<longrightarrow>
      (\<exists>r. out = Responded r \<and> res_ok r \<and> (res_status r = 204 \<and> v = None \<or> res_value r = Some v)))
   \<and> (fst (request_finish c quiet out) = Inl (ApiError st m) \<longleftrightarrow>
      (\<exists>r. out = Responded r \<and> \<not> res_ok r \<and> res_status r = st
         \<and> m = (case res_error r of ErrorObject (Some e) \<Rightarrow> str_or e (res_statusText r)
                | _ \<Rightarrow> res_statusText r)))
   \<and> (fst (request_finish c quiet out) = Inl OtherError \<longleftrightarrow>
      out = NetworkError
      \<or> (\<exists>r. out = Responded r \<and> res_ok r \<and> res_status r \<noteq> 204 \<and> res_value r = None))"
proof -
  have msg: "error_message r = (case res_error r of ErrorObject (Some e) \<Rightarrow> str_or e (res_statusText r)
      | _ \<Rightarrow> res_statusText r)" for r :: "'a response"
    by (simp add: error_message_def str_or_def split: error_body.splits option.splits)
  have "fst (request_finish c quiet out) = Inr v \<Longrightarrow>
      \<exists>r. out = Responded r \<and> res_ok r \<and> (res_status r = 204 \<and> v = None \<or> res_value r = Some v)"
    by (cases out) (auto simp: request_finish_def Let_def split: if_splits option.splits)
  moreover have "fst (request_finish c quiet out) = Inl (ApiError st m) \<longleftrightarrow>
      (\<exists>r. out = Responded r \<and> \<not> res_ok r \<and> res_status r = st
         \<and> m = (case res_error r of ErrorObject (Some e) \<Rightarrow> str_or e (res_statusText r)
                | _ \<Rightarrow> res_statusText r))"
    unfolding msg [symmetric]
    by (cases out) (auto simp: request_finish_def Let_def split: if_splits option.splits)
  moreover have "fst (request_finish c quiet out) = Inl OtherError \<longleftrightarrow> out = NetworkError
      \<or> (\<exists>r. out = Responded r \<and> res_ok r \<and> res_status r \<noteq> 204 \<and> res_value r = None)"
    by (cases out) (auto simp: request_finish_def Let_def split: if_splits option.splits)
  ultimately show ?thesis by blast
qed

theorem request_outcomes_witness:
  "fst (request_finish (module_load (\<lambda>_. None)) False
       (Responded \<lparr>res_status = 404, res_statusText = js ''Not Found'',
          res_error = ErrorObject (Some (js ''no stored config'')), res_value = None :: nat option option\<rparr>))
     = Inl (ApiError 404 (js ''no stored config''))
   \<and> (\<exists>r :: nat response. res_ok r \<and> res_value r = Some (Some 7)
     \<and> fst (request_finish (module_load (\<lambda>_. None)) False (Responded r)) = Inr (Some 7))"
proof -
  let ?c = "module_load (\<lambda>_. None)"
  let ?r = "\<lparr>res_status = 200, res_statusText = [], res_error = NotJson, res_value = Some (Some 7)\<rparr>
    :: nat response"
  have "fst (request_finish ?c False (Responded ?r)) = Inr (Some 7)"
    by (simp add: request_finish_def res_ok_def)
  with request_outcomes [of ?c False "Responded ?r" "Some 7"]
  have "\<exists>r :: nat response. res_ok r \<and> res_value r = Some (Some 7)
      \<and> fst (request_finish ?c False (Responded r)) = Inr (Some 7)" by blast
  moreover have "fst (request_finish ?c False (Responded \<lparr>res_status = 404, res_statusText = js ''Not Found'',
      res_error = ErrorObject (Some (js ''no stored config'')), res_value = None :: nat option option\<rparr>))
      = Inl (ApiError 404 (js ''no stored config''))"
    by (simp add: request_outcomes res_ok_def str_or_def)
  ultimately show ?thesis by blast
qed

text \<open>
  C8. Host and plugin names as path segments, exactly. Whatever characters they hold, the path of a
  plugin's configuration, for loading and for saving, is read back as the seven segments of the
  route with these very names exactly when neither name is \<open>.\<close> or \<open>..\<close>. A name that is one of
  these two is not escaped, and the browser resolves it: the path is then a shorter one
  (\<open>without_dots\<close>), with \<open>..\<close> one from which the segment before it is gone too. No name can open a
  query or a fragment. A pair of names has such a path exactly when both are well formed; a lone
  surrogate makes the call throw.
\<close>

theorem config_call_route:
  "(getPluginConfig h p = Inr a \<longrightarrow>
      (route (call_path a) = map Some [[], js ''v1'', js ''hosts'', h, js ''plugins'', p, js ''config'']
        \<longleftrightarrow> h \<notin> {js ''.'', js ''..''} \<and> p \<notin> {js ''.'', js ''..''})
      \<and> (h = js ''..'' \<and> p \<notin> {js ''.'', js ''..''} \<longrightarrow> route (call_path a) = map Some [[], js ''v1'', js ''plugins'', p, js ''config''])
      \<and> (p = js ''..'' \<and> h \<notin> {js ''.'', js ''..''} \<longrightarrow> route (call_path a) = map Some [[], js ''v1'', js ''hosts'', h, js ''config''])
      \<and> ch CHR ''?'' \<notin> set (call_path a) \<and> ch CHR ''#'' \<notin> set (call_path a)
      \<and> (\<exists>b. setPluginConfig h p cfg = Inr b \<and> call_path b = call_path a))
   \<and> ((\<exists>a. getPluginConfig h p = Inr a) \<longleftrightarrow> well_formed h \<and> well_formed p)"
proof -
  have "(\<exists>a. getPluginConfig h p = Inr a) \<longleftrightarrow> (\<exists>e. encoded h = Inr e) \<and> (\<exists>e. encoded p = Inr e)"
    by (auto simp: getPluginConfig_def config_path_def bind_result_Inr_iff)
  then have "(\<exists>a. getPluginConfig h p = Inr a) \<longleftrightarrow> well_formed h \<and> well_formed p"
    by (simp add: encoded_Inr_iff encodeURIComponent_Some_iff)
  moreover have "(route (call_path a) = map Some [[], js ''v1'', js ''hosts'', h, js ''plugins'', p, js ''config'']
        \<longleftrightarrow> h \<notin> {js ''.'', js ''..''} \<and> p \<notin> {js ''.'', js ''..''})
      \<and> (h = js ''..'' \<and> p \<notin> {js ''.'', js ''..''} \<longrightarrow> route (call_path a) = map Some [[], js ''v1'', js ''plugins'', p, js ''config''])
      \<and> (p = js ''..'' \<and> h \<notin> {js ''.'', js ''..''} \<longrightarrow> route (call_path a) = map Some [[], js ''v1'', js ''hosts'', h, js ''config''])
      \<and> ch CHR ''?'' \<notin> set (call_path a) \<and> ch CHR ''#'' \<notin> set (call_path a)
      \<and> (\<exists>b. setPluginConfig h p cfg = Inr b \<and> call_path b = call_path a)"
    if a: "getPluginConfig h p = Inr a"
  proof -
    have path: "config_path h p = Inr (call_path a)"
      using a by (auto simp: getPluginConfig_def bind_result_Inr_iff)
    then have "\<exists>b. setPluginConfig h p cfg = Inr b \<and> call_path b = call_path a"
      by (simp add: setPluginConfig_def)
    moreover have "route (call_path a) = map Some [[], js ''v1'', js ''hosts'', h, js ''plugins'', p, js ''config'']
        \<longleftrightarrow> h \<notin> {js ''.'', js ''..''} \<and> p \<notin> {js ''.'', js ''..''}"
      unfolding config_path_route [OF path] inj_map_eq_map [OF inj_Some] without_dots_iff by (auto simp: dot_name_def)
    ultimately show ?thesis
      using config_path_plain [OF path] by (auto simp: config_path_route [OF path] without_dots_def)
  qed
  ultimately show ?thesis by blast
qed

theorem config_call_route_witness:
  "(\<exists>a. getPluginConfig (js ''db/1?x'') (js ''postgres'') = Inr a
     \<and> route (call_path a) = map Some
         [[], js ''v1'', js ''hosts'', js ''db/1?x'', js ''plugins'', js ''postgres'', js ''config''])
   \<and> (\<exists>a. getPluginConfig (js ''..'') (js ''postgres'') = Inr a
     \<and> route (call_path a) = map Some [[], js ''v1'', js ''plugins'', js ''postgres'', js ''config''])"
proof -
  obtain a where "getPluginConfig (js ''db/1?x'') (js ''postgres'') = Inr a"
    using config_call_route [of "js ''db/1?x''" "js ''postgres''"] by auto
  moreover from this have "route (call_path a) = map Some
      [[], js ''v1'', js ''hosts'', js ''db/1?x'', js ''plugins'', js ''postgres'', js ''config'']"
    using config_call_route [of "js ''db/1?x''" "js ''postgres''"] by simp
  moreover obtain b where "getPluginConfig (js ''..'') (js ''postgres'') = Inr b"
    using config_call_route [of "js ''..''" "js ''postgres''"] by auto
  moreover from this have "route (call_path b) = map Some [[], js ''v1'', js ''plugins'', js ''postgres'', js ''config'']"
    using config_call_route [of "js ''..''" "js ''postgres''"] by simp
  ultimately show ?thesis by blast
qed

lemma path_query_listJobs:
  assumes "listJobs (Some s) = Inr a" "s \<noteq> []"
  shows "path_query (call_path a) = (js ''/v1/jobs'', Some [(js ''status'', s)])"
proof -
  obtain e where e: "encoded s = Inr e" "call_path a = js ''/v1/jobs'' @ js ''?'' @ js ''status'' @ js ''='' @ e"
    using assms by (auto simp: listJobs_def bind_result_Inr_iff js_Cons)
  then show ?thesis
    using path_query_append [of "js ''/v1/jobs''"] read_single_encoded [OF e(1), of "''status''"]
    by (simp add: set_js uri_unescaped_def is_alnum_def)
qed

lemma path_query_listSnapshots:
  assumes "listSnapshots h = Inr a"
  shows "path_query (call_path a) = (js ''/v1/snapshots'', Some [(js ''host'', h)])"
proof -
  obtain e where e: "encoded h = Inr e" "call_path a = js ''/v1/snapshots'' @ js ''?'' @ js ''host'' @ js ''='' @ e"
    using assms by (auto simp: listSnapshots_def bind_result_Inr_iff js_Cons)
  then show ?thesis
    using path_query_append [of "js ''/v1/snapshots''"] read_single_encoded [OF e(1), of "''host''"]
    by (simp add: set_js uri_unescaped_def is_alnum_def)
qed

lemma path_query_listEvents:
  assumes "params_ok (event_params f)"
  shows "path_query (call_path (listEvents f)) = (js ''/v1/events'', Some (event_params f))"
proof -
  have plain: "ch CHR ''?'' \<notin> set (js ''/v1/events'')" by (simp add: set_js)
  show ?thesis
  proof (cases "event_params f = []")
    case True
    then have "call_path (listEvents f) = js ''/v1/events''" by (simp add: listEvents_def params_str_def)
    with True path_query_plain [OF plain] show ?thesis by simp
  next
    case False
    then have "call_path (listEvents f) = js ''/v1/events'' @ js ''?'' @ params_str (event_params f)"
      by (simp add: listEvents_def params_str_Nil_iff)
    then show ?thesis by (simp only: path_query_append [OF plain] query_string.dec_enc [OF assms])
  qed
qed

lemma route_getJob_resolved:
  assumes "getJob i = Inr a"
  shows "route (call_path a) = Some [] # resolve_dots [] (map Some [js ''v1'', js ''jobs'', i])"
proof -
  obtain e where e: "encoded i = Inr e" "call_path a = js ''/v1/jobs/'' @ e"
    using assms by (auto simp: getJob_def bind_result_Inr_iff)
  have "route (call_path a) = hd (map Some [[], js ''v1'', js ''jobs'', i])
      # resolve_dots [] (tl (map Some [[], js ''v1'', js ''jobs'', i]))"
    unfolding e(2) job_path_join
    by (rule split_path)
      (use e in \<open>auto simp: read_segment_encoded set_js dest: encoded_no_separator(1)\<close>)
  then show ?thesis by simp
qed

lemma route_getJob:
  assumes "getJob i = Inr a" "\<not> dot_name i"
  shows "route (call_path a) = map Some [[], js ''v1'', js ''jobs'', i]"
  using assms(2) unfolding route_getJob_resolved [OF assms(1)] by (simp add: dot_name_def)

text \<open>
  The queries say what the pages ask: the status filter, the host of the snapshots and the
  event filter are read back from the URL exactly, empty filters and a zero limit being left out;
  and the path of a job is read back as its id, so two jobs never share a path.
\<close>

theorem query_calls_route:
  "(listJobs (Some s) = Inr a \<and> s \<noteq> [] \<longrightarrow> path_query (call_path a) = (js ''/v1/jobs'', Some [(js ''status'', s)]))
   \<and> (listSnapshots h = Inr a \<longrightarrow> path_query (call_path a) = (js ''/v1/snapshots'', Some [(js ''host'', h)]))
   \<and> (params_ok (event_params (Some f)) \<longrightarrow> path_query (call_path (listEvents (Some f))) = (js ''/v1/events'', Some
        ((if truthy (filter_jobId f) then [(js ''job_id'', the (filter_jobId f))] else [])
       @ (if truthy (filter_host f) then [(js ''host'', the (filter_host f))] else [])
       @ (case filter_limit f of Some n \<Rightarrow> if n \<noteq> 0 then [(js ''limit'', nat_str n)] else [] | None \<Rightarrow> []))))
   \<and> (getJob i = Inr a \<and> \<not> dot_name i \<longrightarrow> route (call_path a) = map Some [[], js ''v1'', js ''jobs'', i])"
  unfolding event_params_alt [symmetric]
  using path_query_listJobs path_query_listSnapshots path_query_listEvents route_getJob by blast

theorem query_calls_route_witness:
  "path_query (call_path (listEvents (Some \<lparr>filter_jobId = Some (js ''a&b''), filter_host = Some [], filter_limit = Some 200\<rparr>)))
     = (js ''/v1/events'', Some [(js ''job_id'', js ''a&b''), (js ''limit'', nat_str 200)])"
proof -
  let ?f = "\<lparr>filter_jobId = Some (js ''a&b''), filter_host = Some [], filter_limit = Some 200\<rparr>"
  have "params_ok (event_params (Some ?f))"
    unfolding event_params_alt by (simp add: params_ok_def)
  with query_calls_route [of _ _ _ ?f] show ?thesis by simp
qed

end
