(* ===== verification/UseApi.thy ===== *)
theory UseApi
  imports Client
begin

text \<open>
  \<open>web/src/hooks/useApi.ts\<close>: the fetching hook every page uses. The state is the hook's own
  (\<open>data\<close>, \<open>error\<close>, \<open>loading\<close>, the \<open>requestId\<close> counter, the dependencies its callbacks
  were made for, the interval and the closure variable \<open>timer\<close> of its polling effect) and the
  part of the browser it acts on: the live intervals, the registered listener, whether the tab
  is hidden, and the requests in flight. Handlers are functions; \<open>hook_step\<close> adds who may
  call them when. The fetcher is asynchronous: it returns a promise and does not throw.
\<close>

section \<open>State\<close>

datatype request_kind = Load | Refresh

record 'k in_flight =
  fl_id :: nat
  fl_kind :: request_kind
  fl_key :: 'k

record ('d, 'k) hook =
  hook_data :: "'d option"
  hook_error :: "jsstr option"
  hook_loading :: bool
  requestId :: nat
  hook_key :: 'k
  hook_interval :: "nat option"
  hook_timer :: "nat option"
  hook_listening :: bool
  hook_mounted :: bool
  tab_hidden :: bool
  live_timers :: "nat list"
  next_timer :: nat
  in_flight :: "'k in_flight list"

section \<open>Handlers\<close>

definition issue :: "request_kind \<Rightarrow> ('d, 'k) hook \<Rightarrow> ('d, 'k) hook" where
  "issue kind h =
     (let i = Suc (requestId h) in
      h\<lparr>requestId := i,
        in_flight := in_flight h @ [\<lparr>fl_id = i, fl_kind = kind, fl_key = hook_key h\<rparr>]\<rparr>)"

definition load :: "('d, 'k) hook \<Rightarrow> ('d, 'k) hook" where
  "load h = issue Load (h\<lparr>hook_loading := True, hook_error := None\<rparr>)"

definition refresh :: "('d, 'k) hook \<Rightarrow> ('d, 'k) hook" where
  "refresh h = issue Refresh h"

definition UNREACHABLE :: jsstr where
  "UNREACHABLE = js ''Could not reach the controller.''"

fun error_text :: "exn \<Rightarrow> jsstr" where
  "error_text (ApiError s m) = m"
| "error_text OtherError = UNREACHABLE"

text \<open>The \<open>then\<close> and \<open>catch\<close> callbacks of \<open>load\<close> and of \<open>refresh\<close>, for the request \<open>i\<close>.\<close>

fun settle :: "request_kind \<Rightarrow> nat \<Rightarrow> 'd option result \<Rightarrow> ('d, 'k) hook \<Rightarrow> ('d, 'k) hook" where
  "settle Load i (Inr r) h =
     (if i \<noteq> requestId h then h else h\<lparr>hook_data := r, hook_loading := False\<rparr>)"
| "settle Load i (Inl e) h =
     (if i \<noteq> requestId h then h
      else h\<lparr>hook_error := Some (error_text e), hook_loading := False\<rparr>)"
| "settle Refresh i (Inr r) h =
     (if i \<noteq> requestId h then h else h\<lparr>hook_data := r\<rparr>)"
| "settle Refresh i (Inl e) h = h"

definition start_timer :: "('d, 'k) hook \<Rightarrow> ('d, 'k) hook" where
  "start_timer h = (case hook_timer h of
       Some t \<Rightarrow> h
     | None \<Rightarrow> h\<lparr>hook_timer := Some (next_timer h), live_timers := next_timer h # live_timers h,
                next_timer := Suc (next_timer h)\<rparr>)"

definition stop_timer :: "('d, 'k) hook \<Rightarrow> ('d, 'k) hook" where
  "stop_timer h = (case hook_timer h of
       None \<Rightarrow> h
     | Some t \<Rightarrow> h\<lparr>live_timers := removeAll t (live_timers h), hook_timer := None\<rparr>)"

definition onVisibility :: "('d, 'k) hook \<Rightarrow> ('d, 'k) hook" where
  "onVisibility h = (if tab_hidden h then stop_timer h else start_timer (refresh h))"

definition polls :: "('d, 'k) hook \<Rightarrow> bool" where
  "polls h = (hook_interval h \<noteq> None \<and> hook_interval h \<noteq> Some 0)"

text \<open>
  The polling effect and its clean-up. The effect opens a new closure, so \<open>timer\<close> starts at
  \<open>null\<close>; the clean-up exists only when the effect got past its first line, which is when the
  listener is registered.
\<close>

definition poll_setup :: "('d, 'k) hook \<Rightarrow> ('d, 'k) hook" where
  "poll_setup h =
     (let h0 = h\<lparr>hook_timer := None\<rparr> in
      if \<not> polls h0 then h0
      else (let h1 = (if \<not> tab_hidden h0 then start_timer h0 else h0)
            in h1\<lparr>hook_listening := True\<rparr>))"

definition poll_cleanup :: "('d, 'k) hook \<Rightarrow> ('d, 'k) hook" where
  "poll_cleanup h = (if hook_listening h then (stop_timer h)\<lparr>hook_listening := False\<rparr> else h)"

section \<open>Lifecycle\<close>

definition mount :: "'k \<Rightarrow> nat option \<Rightarrow> bool \<Rightarrow> ('d, 'k) hook" where
  "mount k iv hid = poll_setup (load
     \<lparr>hook_data = None, hook_error = None, hook_loading = True, requestId = 0, hook_key = k,
      hook_interval = iv, hook_timer = None, hook_listening = False, hook_mounted = True,
      tab_hidden = hid, live_timers = [], next_timer = 0, in_flight = []\<rparr>)"

text \<open>
  A render with dependencies \<open>k\<close> and interval \<open>iv\<close>: \<open>load\<close> and \<open>refresh\<close> are new exactly
  when the dependencies are, the polling effect is keyed by the interval and \<open>refresh\<close>.
  Clean-ups run before effects, effects in the order of the source.
\<close>

definition rerender :: "'k \<Rightarrow> nat option \<Rightarrow> ('d, 'k) hook \<Rightarrow> ('d, 'k) hook" where
  "rerender k iv h =
     (let changed = (k \<noteq> hook_key h);
          repoll = (changed \<or> iv \<noteq> hook_interval h);
          h1 = (if repoll then poll_cleanup h else h);
          h2 = h1\<lparr>hook_key := k, hook_interval := iv\<rparr>;
          h3 = (if changed then load h2 else h2)
      in if repoll then poll_setup h3 else h3)"

definition unmount :: "('d, 'k) hook \<Rightarrow> ('d, 'k) hook" where
  "unmount h = (poll_cleanup h)\<lparr>hook_mounted := False\<rparr>"

definition visibility :: "bool \<Rightarrow> ('d, 'k) hook \<Rightarrow> ('d, 'k) hook" where
  "visibility hid h =
     (let h' = h\<lparr>tab_hidden := hid\<rparr> in if hook_listening h' then onVisibility h' else h')"

text \<open>The \<open>n\<close>-th request in flight is answered; setters of an unmounted component do nothing.\<close>

definition answer :: "nat \<Rightarrow> 'd option result \<Rightarrow> ('d, 'k) hook \<Rightarrow> ('d, 'k) hook" where
  "answer n out h =
     (let p = in_flight h ! n;
          h' = h\<lparr>in_flight := take n (in_flight h) @ drop (Suc n) (in_flight h)\<rparr>
      in if hook_mounted h then settle (fl_kind p) (fl_id p) out h' else h')"

section \<open>Steps\<close>

datatype ('d, 'k) hook_event =
    Rerender 'k "nat option" | Tick | Visibility bool | Answer nat "'d option result"
  | Reload | Unmount

text \<open>\<open>answers k d\<close>: the controller may answer a request made for \<open>k\<close> with \<open>d\<close>.\<close>

inductive hook_step ::
  "('k \<Rightarrow> 'd \<Rightarrow> bool) \<Rightarrow> ('d, 'k) hook \<Rightarrow> ('d, 'k) hook_event \<Rightarrow> ('d, 'k) hook \<Rightarrow> bool"
  for answers :: "'k \<Rightarrow> 'd \<Rightarrow> bool" where
  step_rerender: "hook_mounted h \<Longrightarrow> hook_step answers h (Rerender k iv) (rerender k iv h)"
| step_tick: "live_timers h \<noteq> [] \<Longrightarrow> hook_step answers h Tick (refresh h)"
| step_visibility: "hook_step answers h (Visibility hid) (visibility hid h)"
| step_answer: "n < length (in_flight h) \<Longrightarrow>
    (case out of Inr (Some d) \<Rightarrow> answers (fl_key (in_flight h ! n)) d | _ \<Rightarrow> True) \<Longrightarrow>
    hook_step answers h (Answer n out) (answer n out h)"
| step_reload: "hook_mounted h \<Longrightarrow> hook_step answers h Reload (load h)"
| step_unmount: "hook_mounted h \<Longrightarrow> hook_step answers h Unmount (unmount h)"

inductive_cases rerender_cases: "hook_step answers h (Rerender k iv) h'"
inductive_cases tick_cases: "hook_step answers h Tick h'"
inductive_cases answer_cases: "hook_step answers h (Answer n out) h'"

definition hook_init :: "('d, 'k) hook \<Rightarrow> bool" where
  "hook_init h \<longleftrightarrow> (\<exists>k iv hid. h = mount k iv hid)"

section \<open>What each handler leaves alone\<close>

lemma issue_simps [simp]:
  "requestId (issue kd h) = Suc (requestId h)" "hook_key (issue kd h) = hook_key h"
  "hook_data (issue kd h) = hook_data h" "hook_error (issue kd h) = hook_error h"
  "hook_loading (issue kd h) = hook_loading h" "hook_interval (issue kd h) = hook_interval h"
  "hook_timer (issue kd h) = hook_timer h" "hook_listening (issue kd h) = hook_listening h"
  "hook_mounted (issue kd h) = hook_mounted h" "tab_hidden (issue kd h) = tab_hidden h"
  "live_timers (issue kd h) = live_timers h" "next_timer (issue kd h) = next_timer h"
  "in_flight (issue kd h)
     = in_flight h @ [\<lparr>fl_id = Suc (requestId h), fl_kind = kd, fl_key = hook_key h\<rparr>]"
  by (simp_all add: issue_def)

lemma timer_simps [simp]:
  "requestId (start_timer h) = requestId h" "requestId (stop_timer h) = requestId h"
  "hook_key (start_timer h) = hook_key h" "hook_key (stop_timer h) = hook_key h"
  "hook_data (start_timer h) = hook_data h" "hook_data (stop_timer h) = hook_data h"
  "hook_error (start_timer h) = hook_error h" "hook_error (stop_timer h) = hook_error h"
  "hook_loading (start_timer h) = hook_loading h" "hook_loading (stop_timer h) = hook_loading h"
  "hook_interval (start_timer h) = hook_interval h" "hook_interval (stop_timer h) = hook_interval h"
  "hook_listening (start_timer h) = hook_listening h" "hook_listening (stop_timer h) = hook_listening h"
  "hook_mounted (start_timer h) = hook_mounted h" "hook_mounted (stop_timer h) = hook_mounted h"
  "tab_hidden (start_timer h) = tab_hidden h" "tab_hidden (stop_timer h) = tab_hidden h"
  "in_flight (start_timer h) = in_flight h" "in_flight (stop_timer h) = in_flight h"
  by (simp_all add: start_timer_def stop_timer_def split: option.splits)

lemma poll_simps [simp]:
  "requestId (poll_setup h) = requestId h" "requestId (poll_cleanup h) = requestId h"
  "hook_key (poll_setup h) = hook_key h" "hook_key (poll_cleanup h) = hook_key h"
  "hook_data (poll_setup h) = hook_data h" "hook_data (poll_cleanup h) = hook_data h"
  "hook_error (poll_setup h) = hook_error h" "hook_error (poll_cleanup h) = hook_error h"
  "hook_loading (poll_setup h) = hook_loading h" "hook_loading (poll_cleanup h) = hook_loading h"
  "hook_interval (poll_setup h) = hook_interval h" "hook_interval (poll_cleanup h) = hook_interval h"
  "hook_mounted (poll_setup h) = hook_mounted h" "hook_mounted (poll_cleanup h) = hook_mounted h"
  "tab_hidden (poll_setup h) = tab_hidden h" "tab_hidden (poll_cleanup h) = tab_hidden h"
  "in_flight (poll_setup h) = in_flight h" "in_flight (poll_cleanup h) = in_flight h"
  by (simp_all add: poll_setup_def poll_cleanup_def Let_def)

lemma load_simps [simp]:
  "requestId (load h) = Suc (requestId h)" "hook_key (load h) = hook_key h"
  "hook_data (load h) = hook_data h" "hook_error (load h) = None" "hook_loading (load h)"
  "hook_interval (load h) = hook_interval h" "hook_timer (load h) = hook_timer h"
  "hook_listening (load h) = hook_listening h" "hook_mounted (load h) = hook_mounted h"
  "tab_hidden (load h) = tab_hidden h" "live_timers (load h) = live_timers h"
  "next_timer (load h) = next_timer h"
  "in_flight (load h)
     = in_flight h @ [\<lparr>fl_id = Suc (requestId h), fl_kind = Load, fl_key = hook_key h\<rparr>]"
  by (simp_all add: load_def)

lemma settle_simps [simp]:
  "requestId (settle kd i out h) = requestId h" "hook_key (settle kd i out h) = hook_key h"
  "hook_interval (settle kd i out h) = hook_interval h" "hook_timer (settle kd i out h) = hook_timer h"
  "hook_listening (settle kd i out h) = hook_listening h" "hook_mounted (settle kd i out h) = hook_mounted h"
  "tab_hidden (settle kd i out h) = tab_hidden h" "live_timers (settle kd i out h) = live_timers h"
  "in_flight (settle kd i out h) = in_flight h"
  by (cases "(kd, i, out, h)" rule: settle.cases; simp)+

lemma settle_superseded: "i \<noteq> requestId h \<Longrightarrow> settle kd i out h = h"
  by (cases "(kd, i, out, h)" rule: settle.cases; simp)

definition drop_request :: "nat \<Rightarrow> ('d, 'k) hook \<Rightarrow> ('d, 'k) hook" where
  "drop_request n h = h\<lparr>in_flight := take n (in_flight h) @ drop (Suc n) (in_flight h)\<rparr>"

lemma answer_alt: "answer n out h = (if hook_mounted h
     then settle (fl_kind (in_flight h ! n)) (fl_id (in_flight h ! n)) out (drop_request n h)
     else drop_request n h)"
  by (simp add: answer_def drop_request_def Let_def)

lemma drop_request_simps [simp]:
  "requestId (drop_request n h) = requestId h" "hook_key (drop_request n h) = hook_key h"
  "hook_data (drop_request n h) = hook_data h" "hook_error (drop_request n h) = hook_error h"
  "hook_loading (drop_request n h) = hook_loading h"
  "hook_interval (drop_request n h) = hook_interval h" "hook_timer (drop_request n h) = hook_timer h"
  "hook_listening (drop_request n h) = hook_listening h" "hook_mounted (drop_request n h) = hook_mounted h"
  "tab_hidden (drop_request n h) = tab_hidden h" "live_timers (drop_request n h) = live_timers h"
  "in_flight (drop_request n h) = take n (in_flight h) @ drop (Suc n) (in_flight h)"
  by (simp_all add: drop_request_def)

lemma answer_simps [simp]:
  "requestId (answer n out h) = requestId h" "hook_key (answer n out h) = hook_key h"
  "hook_interval (answer n out h) = hook_interval h" "hook_timer (answer n out h) = hook_timer h"
  "hook_listening (answer n out h) = hook_listening h" "hook_mounted (answer n out h) = hook_mounted h"
  "tab_hidden (answer n out h) = tab_hidden h" "live_timers (answer n out h) = live_timers h"
  "in_flight (answer n out h) = take n (in_flight h) @ drop (Suc n) (in_flight h)"
  by (simp_all add: answer_alt)

section \<open>Requests and dependencies\<close>

definition requests_inv :: "('d, 'k) hook \<Rightarrow> bool" where
  "requests_inv h \<longleftrightarrow> sorted_wrt (<) (map fl_id (in_flight h))
     \<and> (\<forall>p\<in>set (in_flight h). fl_id p \<le> requestId h
          \<and> (fl_id p = requestId h \<longrightarrow> fl_key p = hook_key h))"

lemma requests_inv_issue:
  assumes "sorted_wrt (<) (map fl_id (in_flight h))" "\<forall>p\<in>set (in_flight h). fl_id p \<le> requestId h"
  shows "requests_inv (issue kd h)"
  using assms by (auto simp: requests_inv_def sorted_wrt_append less_Suc_eq_le)

lemma requests_inv_ids:
  "requests_inv h \<Longrightarrow> sorted_wrt (<) (map fl_id (in_flight h))
     \<and> (\<forall>p\<in>set (in_flight h). fl_id p \<le> requestId h)"
  by (auto simp: requests_inv_def)

lemma requests_inv_reload: "requests_inv h \<Longrightarrow> requests_inv (load h)"
  unfolding load_def by (rule requests_inv_issue) (auto simp: requests_inv_def)

lemma requests_inv_load: "requests_inv h \<Longrightarrow> requests_inv (load (h\<lparr>hook_key := k, hook_interval := iv\<rparr>))"
  unfolding load_def by (rule requests_inv_issue) (auto simp: requests_inv_def)

lemma requests_inv_cong:
  "requestId h' = requestId h \<Longrightarrow> hook_key h' = hook_key h \<Longrightarrow> in_flight h' = in_flight h \<Longrightarrow>
     requests_inv h' = requests_inv h"
  by (simp add: requests_inv_def)

lemma sorted_wrt_drop_one:
  "sorted_wrt P (map f xs) \<Longrightarrow> sorted_wrt P (map f (take n xs @ drop (Suc n) xs))"
proof -
  assume "sorted_wrt P (map f xs)"
  then have "sorted_wrt P (map f (take n xs @ drop n xs))" by simp
  then show ?thesis
    by (cases "drop n xs")
      (auto simp: sorted_wrt_append drop_Suc tl_drop dest: arg_cong [of _ _ tl] split: list.splits)
qed

lemma requests_inv_drop: "requests_inv h \<Longrightarrow> requests_inv (answer n out h)"
  unfolding requests_inv_def
  by (auto simp: sorted_wrt_drop_one simp del: map_append dest: in_set_takeD in_set_dropD)

lemma requests_inv_step: "hook_step answers h e h' \<Longrightarrow> requests_inv h \<Longrightarrow> requests_inv h'"
proof (induction rule: hook_step.induct)
  case (step_rerender h k iv)
  have "requests_inv (poll_cleanup h)"
    using step_rerender(2) requests_inv_cong [of "poll_cleanup h" h] by simp
  then have "requests_inv (load ((poll_cleanup h)\<lparr>hook_key := k, hook_interval := iv\<rparr>))"
    by (rule requests_inv_load)
  then show ?case using step_rerender(2)
    by (auto simp: rerender_def Let_def requests_inv_def)
next
  case (step_tick h)
  then show ?case unfolding refresh_def using requests_inv_ids requests_inv_issue by blast
next
  case (step_visibility h hid)
  have "requests_inv (refresh (h\<lparr>tab_hidden := hid\<rparr>))"
    unfolding refresh_def using step_visibility
    by (intro requests_inv_issue) (auto simp: requests_inv_def)
  then show ?case using step_visibility
    by (auto simp: visibility_def onVisibility_def Let_def requests_inv_def)
next
  case (step_answer n h out)
  then show ?case by (simp add: requests_inv_drop)
next
  case (step_reload h)
  then show ?case by (simp add: requests_inv_reload)
next
  case (step_unmount h)
  then show ?case by (simp add: unmount_def requests_inv_def)
qed

section \<open>Timers and the listener\<close>

definition timer_inv :: "('d, 'k) hook \<Rightarrow> bool" where
  "timer_inv h \<longleftrightarrow> live_timers h = (case hook_timer h of None \<Rightarrow> [] | Some t \<Rightarrow> [t])
     \<and> (hook_timer h \<noteq> None \<longleftrightarrow> hook_listening h \<and> \<not> tab_hidden h)
     \<and> (hook_listening h \<longleftrightarrow> hook_mounted h \<and> polls h)"

text \<open>Between a clean-up and the next set-up nothing is left running.\<close>

definition idle :: "('d, 'k) hook \<Rightarrow> bool" where
  "idle h \<longleftrightarrow> live_timers h = [] \<and> hook_timer h = None \<and> \<not> hook_listening h"

lemma idle_cleanup: "timer_inv h \<Longrightarrow> idle (poll_cleanup h)"
  by (auto simp: timer_inv_def idle_def poll_cleanup_def stop_timer_def split: option.splits)

lemma timer_inv_setup: "idle h \<Longrightarrow> hook_mounted h \<Longrightarrow> timer_inv (poll_setup h)"
  by (auto simp: timer_inv_def idle_def poll_setup_def start_timer_def polls_def Let_def
      split: option.splits)

lemma idle_load: "idle (load (h\<lparr>hook_key := k, hook_interval := iv\<rparr>)) = idle h"
  "idle (h\<lparr>hook_key := k, hook_interval := iv\<rparr>) = idle h"
  by (simp_all add: idle_def)

lemma polls_cong [simp]:
  "polls (issue kd h) = polls h" "polls (load h) = polls h" "polls (start_timer h) = polls h"
  "polls (stop_timer h) = polls h" "polls (answer n out h) = polls h"
  "polls (h\<lparr>tab_hidden := b\<rparr>) = polls h" "polls (h\<lparr>hook_key := k\<rparr>) = polls h"
  by (simp_all add: polls_def)

lemma timer_inv_cong:
  "timer_inv (issue kd h) = timer_inv h" "timer_inv (load h) = timer_inv h"
  "timer_inv (answer n out h) = timer_inv h"
  by (simp_all add: timer_inv_def)

lemma timer_inv_visibility: "timer_inv h \<Longrightarrow> timer_inv (visibility hid h)"
  by (auto simp: timer_inv_def visibility_def onVisibility_def refresh_def start_timer_def
      stop_timer_def Let_def polls_def issue_def split: option.splits)

lemma timer_inv_rerender:
  assumes "timer_inv h" "hook_mounted h"
  shows "timer_inv (rerender k iv h)"
proof (cases "k \<noteq> hook_key h \<or> iv \<noteq> hook_interval h")
  case True
  have "idle (poll_cleanup h)" using assms(1) by (rule idle_cleanup)
  with True assms(2) show ?thesis
    by (auto simp: rerender_def Let_def idle_load intro!: timer_inv_setup)
next
  case False
  with assms show ?thesis by (simp add: rerender_def)
qed

lemma timer_inv_step: "hook_step answers h e h' \<Longrightarrow> timer_inv h \<Longrightarrow> timer_inv h'"
proof (induction rule: hook_step.induct)
  case (step_unmount h)
  then have "idle (poll_cleanup h)" by (intro idle_cleanup)
  then show ?case by (simp add: unmount_def timer_inv_def idle_def)
qed (simp_all add: timer_inv_rerender timer_inv_visibility timer_inv_cong refresh_def)

section \<open>Data and the dependencies it answers\<close>

definition fresh_inv :: "('k \<Rightarrow> 'd \<Rightarrow> bool) \<Rightarrow> ('d, 'k) hook \<Rightarrow> bool" where
  "fresh_inv answers h \<longleftrightarrow>
     (\<not> hook_loading h \<and> hook_error h = None \<longrightarrow>
        (\<forall>d. hook_data h = Some d \<longrightarrow> answers (hook_key h) d))"

lemma fresh_inv_settle:
  assumes "requests_inv h" "p \<in> set (in_flight h)" "fresh_inv answers h"
    and "requestId h' = requestId h" "hook_key h' = hook_key h" "hook_data h' = hook_data h"
    and "hook_error h' = hook_error h" "hook_loading h' = hook_loading h"
    and "case out of Inr (Some d) \<Rightarrow> answers (fl_key p) d | _ \<Rightarrow> True"
  shows "fresh_inv answers (settle (fl_kind p) (fl_id p) out h')"
proof (cases "fl_id p = requestId h")
  case True
  then have key: "fl_key p = hook_key h" using assms(1,2) by (auto simp: requests_inv_def)
  show ?thesis
    by (cases "(fl_kind p, fl_id p, out, h')" rule: settle.cases)
      (use assms True key in \<open>auto simp: fresh_inv_def split: option.splits\<close>)
next
  case False
  then show ?thesis using assms by (simp add: settle_superseded fresh_inv_def)
qed

lemma fresh_inv_step:
  "hook_step answers h e h' \<Longrightarrow> requests_inv h \<Longrightarrow> fresh_inv answers h \<Longrightarrow> fresh_inv answers h'"
proof (induction rule: hook_step.induct)
  case (step_answer n h out)
  let ?p = "in_flight h ! n"
  have "?p \<in> set (in_flight h)" using step_answer(1) by simp
  then have "fresh_inv answers (settle (fl_kind ?p) (fl_id ?p) out (drop_request n h))"
    using step_answer by (intro fresh_inv_settle [of h]) simp_all
  moreover have "fresh_inv answers (drop_request n h) = fresh_inv answers h"
    by (simp add: fresh_inv_def)
  ultimately show ?case using step_answer(4) by (simp add: answer_alt)
qed (auto simp: fresh_inv_def rerender_def refresh_def visibility_def onVisibility_def unmount_def Let_def)

text \<open>While the latest request is a load, the hook shows neither an error nor an end of loading.\<close>

definition live_inv :: "('d, 'k) hook \<Rightarrow> bool" where
  "live_inv h \<longleftrightarrow> (\<forall>p\<in>set (in_flight h). fl_kind p = Load \<and> fl_id p = requestId h
     \<longrightarrow> hook_loading h \<and> hook_error h = None)"

lemma sorted_ids_distinct:
  assumes "sorted_wrt (<) (map fl_id xs)" "n < length xs"
    and "p \<in> set (take n xs @ drop (Suc n) xs)"
  shows "fl_id p \<noteq> fl_id (xs ! n)"
proof -
  have "map fl_id xs = map fl_id (take n xs) @ fl_id (xs ! n) # map fl_id (drop (Suc n) xs)"
    using id_take_nth_drop [OF assms(2)] by (metis list.simps(9) map_append)
  with assms(1) have "sorted_wrt (<) (map fl_id (take n xs) @ fl_id (xs ! n) # map fl_id (drop (Suc n) xs))"
    by simp
  with assms(3) show ?thesis by (auto simp: sorted_wrt_append)
qed

lemma live_inv_answer:
  assumes "requests_inv h" "live_inv h" "n < length (in_flight h)"
  shows "live_inv (answer n out h)"
proof -
  let ?p = "in_flight h ! n"
  have "hook_loading (answer n out h) \<and> hook_error (answer n out h) = None"
    if q: "q \<in> set (take n (in_flight h) @ drop (Suc n) (in_flight h))" "fl_kind q = Load"
      "fl_id q = requestId h" for q
  proof -
    have "fl_id q \<noteq> fl_id ?p"
      using sorted_ids_distinct [OF _ assms(3) q(1)] assms(1) by (simp add: requests_inv_def)
    then have "settle (fl_kind ?p) (fl_id ?p) out (drop_request n h) = drop_request n h"
      using q(3) by (simp add: settle_superseded)
    then have "hook_loading (answer n out h) = hook_loading h" "hook_error (answer n out h) = hook_error h"
      by (simp_all add: answer_alt)
    moreover have "q \<in> set (in_flight h)" using q(1) by (auto dest: in_set_takeD in_set_dropD)
    ultimately show ?thesis using q(2,3) assms(2) by (auto simp: live_inv_def)
  qed
  then show ?thesis unfolding live_inv_def by simp
qed

lemma live_inv_step:
  "hook_step answers h e h' \<Longrightarrow> requests_inv h \<Longrightarrow> live_inv h \<Longrightarrow> live_inv h'"
proof (induction rule: hook_step.induct)
  case (step_answer n h out)
  then show ?case by (simp add: live_inv_answer)
qed (fastforce simp: live_inv_def rerender_def refresh_def visibility_def onVisibility_def
      unmount_def requests_inv_def Let_def)+

section \<open>The invariant of the hook\<close>

definition hook_inv :: "('k \<Rightarrow> 'd \<Rightarrow> bool) \<Rightarrow> ('d, 'k) hook \<Rightarrow> bool" where
  "hook_inv answers h \<longleftrightarrow> requests_inv h \<and> timer_inv h \<and> fresh_inv answers h \<and> live_inv h"

lemma hook_inv_mount:
  fixes answers :: "'k \<Rightarrow> 'd \<Rightarrow> bool"
  shows "hook_inv answers (mount k iv hid)"
proof -
  define h0 :: "('d, 'k) hook" where
    "h0 = \<lparr>hook_data = None, hook_error = None, hook_loading = True, requestId = 0, hook_key = k,
      hook_interval = iv, hook_timer = None, hook_listening = False, hook_mounted = True,
      tab_hidden = hid, live_timers = [], next_timer = 0, in_flight = []\<rparr>"
  have m: "mount k iv hid = poll_setup (load h0)" by (simp add: mount_def h0_def)
  have "idle (load h0)" by (simp add: idle_def h0_def)
  then have "timer_inv (poll_setup (load h0))" by (rule timer_inv_setup) (simp add: h0_def)
  then show ?thesis unfolding m by (simp add: hook_inv_def requests_inv_def fresh_inv_def live_inv_def h0_def)
qed

interpretation hook: transition_system "hook_step answers" "hook_inv answers" hook_init
  for answers :: "'k \<Rightarrow> 'd \<Rightarrow> bool"
proof unfold_locales
  fix s e t
  assume "hook_step answers s e t" "hook_inv answers s"
  then show "hook_inv answers t"
    unfolding hook_inv_def
    using requests_inv_step timer_inv_step fresh_inv_step live_inv_step by blast
next
  fix s :: "('d, 'k) hook"
  assume "hook_init s"
  then show "hook_inv answers s" by (auto simp: hook_init_def hook_inv_mount)
qed

text \<open>The counter is the guard: the accepted request is the last one issued.\<close>

lemma requestId_step: "hook_step answers h e h' \<Longrightarrow> requestId h \<le> requestId h'"
  by (induction rule: hook_step.induct)
    (auto simp: rerender_def refresh_def visibility_def onVisibility_def unmount_def Let_def)

interpretation request_guard: latest_guard "hook_step answers" "\<lambda>h. {..requestId h}"
    "\<lambda>h i. i = requestId h"
  for answers :: "'k \<Rightarrow> 'd \<Rightarrow> bool"
proof unfold_locales
  fix s :: "('d, 'k) hook" and e t
  assume "hook_step answers s e t"
  then have le: "requestId s \<le> requestId t" by (rule requestId_step)
  then show "{..requestId s} \<subseteq> {..requestId t}" by auto
  fix r assume "r \<in> {..requestId s}" "r \<noteq> requestId s"
  with le show "r \<noteq> requestId t" by auto
qed simp

section \<open>When no load is left to finish\<close>

text \<open>
  Only the latest request may end \<open>loading\<close> or change \<open>error\<close>, and only if it is a load. Once
  no such load is in flight, both fields stay as they are until \<open>reload\<close> or a change of the
  dependencies.
\<close>

definition no_live_load :: "('d, 'k) hook \<Rightarrow> bool" where
  "no_live_load h \<longleftrightarrow> (\<forall>p\<in>set (in_flight h). fl_kind p = Load \<longrightarrow> fl_id p \<noteq> requestId h)"

definition quiet :: "'k \<Rightarrow> ('d, 'k) hook_event \<Rightarrow> bool" where
  "quiet k e = (case e of Rerender k' iv \<Rightarrow> k' = k | Reload \<Rightarrow> False | _ \<Rightarrow> True)"

definition settled :: "'k \<Rightarrow> bool \<Rightarrow> jsstr option \<Rightarrow> ('d, 'k) hook \<Rightarrow> bool" where
  "settled k l er h \<longleftrightarrow> requests_inv h \<and> no_live_load h \<and> hook_key h = k
     \<and> hook_loading h = l \<and> hook_error h = er"

lemma no_live_load_refresh: "requests_inv h \<Longrightarrow> no_live_load (refresh h)"
  by (auto simp: no_live_load_def refresh_def requests_inv_def)

lemma settle_no_live_load:
  assumes "no_live_load h" "p \<in> set (in_flight h)" "requestId h' = requestId h"
  shows "hook_loading (settle (fl_kind p) (fl_id p) out h') = hook_loading h'"
    and "hook_error (settle (fl_kind p) (fl_id p) out h') = hook_error h'"
  using assms
  by (cases "(fl_kind p, fl_id p, out, h')" rule: settle.cases; auto simp: no_live_load_def)+

lemma settled_step:
  "hook_step answers h e h' \<Longrightarrow> quiet k e \<Longrightarrow> settled k l er h \<Longrightarrow> settled k l er h'"
proof -
  assume step: "hook_step answers h e h'" and q: "quiet k e" and s: "settled k l er h"
  have "requests_inv h'" using step s by (auto simp: settled_def intro: requests_inv_step)
  moreover have "no_live_load h' \<and> hook_key h' = k \<and> hook_loading h' = l \<and> hook_error h' = er"
    using step q s
  proof (induction rule: hook_step.induct)
    case (step_rerender h k' iv)
    then show ?case by (auto simp: quiet_def settled_def rerender_def Let_def no_live_load_def)
  next
    case (step_tick h)
    then show ?case using no_live_load_refresh [of h]
      by (simp add: settled_def) (simp add: refresh_def)
  next
    case (step_visibility h hid)
    have "requests_inv (h\<lparr>tab_hidden := hid\<rparr>)" using step_visibility
      by (simp add: settled_def requests_inv_def)
    from no_live_load_refresh [OF this] step_visibility show ?case
      by (auto simp: settled_def visibility_def onVisibility_def Let_def no_live_load_def refresh_def)
  next
    case (step_answer n h out)
    then have "in_flight h ! n \<in> set (in_flight h)" by simp
    with step_answer settle_no_live_load [of h "in_flight h ! n" "drop_request n h" out]
    show ?case
      by (auto simp: settled_def answer_alt no_live_load_def dest: in_set_takeD in_set_dropD)
  next
    case (step_reload h)
    then show ?case by (simp add: quiet_def)
  next
    case (step_unmount h)
    then show ?case by (simp add: settled_def unmount_def no_live_load_def)
  qed
  ultimately show "settled k l er h'" by (simp add: settled_def)
qed

interpretation settled: kept_assertion "hook_step answers" "quiet k" "settled k l er"
  for answers :: "'k \<Rightarrow> 'd \<Rightarrow> bool" and k l er
  by unfold_locales (rule settled_step)

lemma reach_requests_inv: "reach hook_init (hook_step answers) h \<Longrightarrow> requests_inv h"
  using hook.reach_inv by (auto simp: hook_inv_def)

lemma reach_mount: "reach hook_init (hook_step answers) (mount k iv hid)"
  by (rule reach_init) (auto simp: hook_init_def)

section \<open>Without polling a load always finishes\<close>

definition no_poll :: "('d, 'k) hook_event \<Rightarrow> bool" where
  "no_poll e = (case e of Rerender k iv \<Rightarrow> iv = None \<or> iv = Some 0 | _ \<Rightarrow> True)"

definition load_pending :: "('d, 'k) hook \<Rightarrow> bool" where
  "load_pending h \<longleftrightarrow> timer_inv h \<and> requests_inv h \<and> \<not> polls h
     \<and> (hook_mounted h \<and> hook_loading h \<longrightarrow>
          (\<exists>p\<in>set (in_flight h). fl_kind p = Load \<and> fl_id p = requestId h))"

lemma polls_after:
  "polls (poll_setup h) = polls h" "polls (poll_cleanup h) = polls h"
  "polls (h\<lparr>hook_key := k, hook_interval := iv\<rparr>) \<longleftrightarrow> iv \<noteq> None \<and> iv \<noteq> Some 0"
  by (simp_all add: polls_def)

lemma settle_live_load:
  "settle Load (requestId h) out h =
     (case out of Inr r \<Rightarrow> h\<lparr>hook_data := r, hook_loading := False\<rparr>
      | Inl e \<Rightarrow> h\<lparr>hook_error := Some (error_text e), hook_loading := False\<rparr>)"
  by (cases out) auto

lemma load_pending_answer:
  assumes "load_pending h" "n < length (in_flight h)"
  shows "load_pending (answer n out h)"
proof -
  let ?p = "in_flight h ! n"
  let ?rest = "take n (in_flight h) @ drop (Suc n) (in_flight h)"
  have req: "requests_inv h" using assms(1) by (simp add: load_pending_def)
  have "\<exists>p\<in>set ?rest. fl_kind p = Load \<and> fl_id p = requestId h"
    if m: "hook_mounted h" and l: "hook_loading (answer n out h)"
  proof (cases "fl_kind ?p = Load \<and> fl_id ?p = requestId h")
    case True
    with l m have False
      using settle_live_load [of "drop_request n h" out] by (auto simp: answer_alt split: sum.splits)
    then show ?thesis ..
  next
    case False
    then have "hook_loading h"
      using l m by (cases "(fl_kind ?p, fl_id ?p, out, drop_request n h)" rule: settle.cases)
        (auto simp: answer_alt split: if_splits)
    then obtain p where p: "p \<in> set (in_flight h)" "fl_kind p = Load" "fl_id p = requestId h"
      using assms(1) m by (auto simp: load_pending_def)
    have "set (in_flight h) \<subseteq> insert ?p (set ?rest)"
      using id_take_nth_drop [OF assms(2)]
      by (metis insert_commute list.set(2) set_append sup.orderI Un_insert_right sup_idem)
    with p False show ?thesis by auto
  qed
  then show ?thesis using assms(1) requests_inv_drop [OF req]
    by (auto simp: load_pending_def timer_inv_cong)
qed

lemma load_pending_step:
  "hook_step answers h e h' \<Longrightarrow> no_poll e \<Longrightarrow> load_pending h \<Longrightarrow> load_pending h'"
proof -
  assume step: "hook_step answers h e h'" and ok: "no_poll e" and inv: "load_pending h"
  have both: "requests_inv h'" "timer_inv h'"
    using step inv by (auto simp: load_pending_def intro: requests_inv_step timer_inv_step)
  have quietly: "live_timers h = []" "\<not> hook_listening h"
    using inv by (auto simp: load_pending_def timer_inv_def)
  have "\<not> polls h' \<and> (hook_mounted h' \<and> hook_loading h' \<longrightarrow>
      (\<exists>p\<in>set (in_flight h'). fl_kind p = Load \<and> fl_id p = requestId h'))"
    using step ok inv quietly
  proof (induction rule: hook_step.induct)
    case (step_rerender h k iv)
    then show ?case
      by (auto simp: no_poll_def load_pending_def rerender_def Let_def polls_after)
  next
    case (step_visibility h hid)
    then show ?case by (simp add: visibility_def load_pending_def)
  next
    case (step_answer n h out)
    then show ?case using load_pending_answer [of h n out] by (simp add: load_pending_def)
  next
    case (step_unmount h)
    then show ?case by (simp add: unmount_def load_pending_def polls_def)
  qed (auto simp: load_pending_def)
  with both show "load_pending h'" by (simp add: load_pending_def)
qed

interpretation load_pending: kept_assertion "hook_step answers" no_poll load_pending
  for answers :: "'k \<Rightarrow> 'd \<Rightarrow> bool"
  by unfold_locales (rule load_pending_step)

lemma load_pending_mount: "iv = None \<or> iv = Some 0 \<Longrightarrow> load_pending (mount k iv hid)"
  using hook_inv_mount [of "\<lambda>_ _. True" k iv hid]
  by (auto simp: hook_inv_def load_pending_def mount_def polls_after(1)) (auto simp: polls_def)

section \<open>What the user sees\<close>

text \<open>
  The contract of the hook: for the current dependencies it shows that it is loading, or an
  error, or an answer. Asking again starts over; an answer may be replaced by a newer answer to
  the same question; nothing else changes.
\<close>

datatype 'd view = Loading | Failed_with jsstr | Ready "'d option"

definition hook_view :: "('d, 'k) hook \<Rightarrow> 'd view" where
  "hook_view h = (if hook_loading h then Loading else
     (case hook_error h of Some m \<Rightarrow> Failed_with m | None \<Rightarrow> Ready (hook_data h)))"

inductive view_step :: "('k \<Rightarrow> 'd \<Rightarrow> bool) \<Rightarrow> 'k \<times> 'd view \<Rightarrow> 'k \<times> 'd view \<Rightarrow> bool"
  for answers :: "'k \<Rightarrow> 'd \<Rightarrow> bool" where
  view_stay: "view_step answers kv kv"
| view_ask: "view_step answers (k, v) (k', Loading)"
| view_fail: "view_step answers (k, Loading) (k, Failed_with m)"
| view_ready: "v = Loading \<or> (\<exists>d'. v = Ready d') \<Longrightarrow>
    (case d of None \<Rightarrow> True | Some x \<Rightarrow> answers k x) \<Longrightarrow>
    view_step answers (k, v) (k, Ready d)"

lemma view_same: "hook_loading h' = hook_loading h \<Longrightarrow> hook_error h' = hook_error h \<Longrightarrow>
    hook_data h' = hook_data h \<Longrightarrow> hook_view h' = hook_view h"
  by (simp add: hook_view_def split: option.splits)

lemma view_step_answer:
  assumes inv: "hook_inv answers h" and n: "n < length (in_flight h)"
    and out: "case out of Inr (Some d) \<Rightarrow> answers (fl_key (in_flight h ! n)) d | _ \<Rightarrow> True"
  shows "view_step answers (hook_key h, hook_view h) (hook_key h, hook_view (answer n out h))"
proof (cases "hook_mounted h \<and> fl_id (in_flight h ! n) = requestId h")
  case False
  then have "answer n out h = drop_request n h"
    by (auto simp: answer_alt settle_superseded)
  then show ?thesis using view_stay by (simp add: view_same [of "drop_request n h" h])
next
  case True
  let ?p = "in_flight h ! n"
  have p: "?p \<in> set (in_flight h)" using n by simp
  have key: "fl_key ?p = hook_key h"
    using True p inv by (auto simp: hook_inv_def requests_inv_def)
  have live: "fl_kind ?p = Load \<longrightarrow> hook_loading h \<and> hook_error h = None"
    using True p inv by (auto simp: hook_inv_def live_inv_def)
  have eq: "answer n out h = settle (fl_kind ?p) (requestId h) out (drop_request n h)"
    using True by (simp add: answer_alt)
  show ?thesis
  proof (cases "fl_kind ?p")
    case Load
    then show ?thesis unfolding eq using live out key
      by (cases out) (auto simp: hook_view_def intro!: view_fail view_ready split: option.splits)
  next
    case Refresh
    then show ?thesis unfolding eq using out key
      by (cases out) (auto simp: hook_view_def intro!: view_stay view_ready split: option.splits)
  qed
qed

lemma view_step_hook:
  "hook_step answers h e h' \<Longrightarrow> hook_inv answers h \<Longrightarrow>
     view_step answers (hook_key h, hook_view h) (hook_key h', hook_view h')"
proof (induction rule: hook_step.induct)
  case (step_rerender h k iv)
  show ?case
  proof (cases "k = hook_key h")
    case True
    then have "hook_view (rerender k iv h) = hook_view h"
      by (intro view_same) (simp_all add: rerender_def Let_def)
    with True show ?thesis by (simp add: rerender_def Let_def view_stay)
  next
    case False
    then have "hook_view (rerender k iv h) = Loading"
      by (simp add: rerender_def Let_def hook_view_def)
    then show ?thesis by (simp add: view_ask)
  qed
next
  case (step_tick h)
  have "hook_view (refresh h) = hook_view h" by (rule view_same) (simp_all add: refresh_def)
  then show ?case using view_stay by (simp add: refresh_def)
next
  case (step_visibility h hid)
  have "hook_view (visibility hid h) = hook_view h" "hook_key (visibility hid h) = hook_key h"
    by (auto simp: visibility_def onVisibility_def refresh_def Let_def intro!: view_same)
  then show ?case using view_stay by simp
next
  case (step_answer n h out)
  then show ?case using view_step_answer [of answers h n out] by simp
next
  case (step_reload h)
  then show ?case by (simp add: hook_view_def view_ask)
next
  case (step_unmount h)
  have "hook_view (unmount h) = hook_view h" "hook_key (unmount h) = hook_key h"
    by (auto simp: unmount_def intro!: view_same)
  then show ?case using view_stay by simp
qed

section \<open>Properties\<close>

lemma mount_simps [simp]:
  "requestId (mount k iv hid) = 1" "hook_key (mount k iv hid) = k" "hook_mounted (mount k iv hid)"
  "hook_loading (mount k iv hid)" "hook_error (mount k iv hid) = None"
  "hook_data (mount k iv hid) = None" "hook_interval (mount k iv hid) = iv"
  "tab_hidden (mount k iv hid) = hid"
  "in_flight (mount k iv hid) = [\<lparr>fl_id = 1, fl_kind = Load, fl_key = k\<rparr>]"
  by (simp_all add: mount_def)

lemma mount_timers: "live_timers (mount k iv hid) = (if \<not> hid \<and> iv \<noteq> None \<and> iv \<noteq> Some 0 then [0] else [])"
  by (auto simp: mount_def poll_setup_def polls_def start_timer_def Let_def)

text \<open>The first answer of a freshly mounted hook.\<close>

lemma step_first_answer:
  "(case out of Inr (Some d) \<Rightarrow> answers k d | _ \<Rightarrow> True) \<Longrightarrow>
     hook_step answers (mount k iv hid) (Answer 0 out) (answer 0 out (mount k iv hid))"
  by (rule step_answer) (simp_all split: sum.splits option.splits)

text \<open>
  C1. Whenever the hook shows data without a spinner and without an error, the data is an answer
  to a request made for the dependencies it has now: no interleaving of renders, polls, tab
  switches and late answers leaves the rows of an old filter on display as if they were current.
\<close>

theorem displayed_data_current:
  assumes "reach hook_init (hook_step answers) h"
    and "\<not> hook_loading h" "hook_error h = None" "hook_data h = Some d"
  shows "answers (hook_key h) d"
  using hook.reach_inv [OF assms(1)] assms(2-4) by (auto simp: hook_inv_def fresh_inv_def)

theorem displayed_data_current_witness:
  "\<exists>h :: (nat, nat) hook. reach hook_init (hook_step (=)) h \<and> hook_data h = Some 7 \<and> hook_key h = 7"
proof -
  let ?h = "answer 0 (Inr (Some 7)) (mount (7 :: nat) None False) :: (nat, nat) hook"
  have r: "reach hook_init (hook_step (=)) ?h"
    by (rule reach_step [OF reach_mount step_first_answer]) simp
  have v: "\<not> hook_loading ?h" "hook_error ?h = None" "hook_data ?h = Some 7"
    by (simp_all add: answer_alt)
  from displayed_data_current [OF r v] have "hook_key ?h = 7" by simp
  with r v show ?thesis by blast
qed

text \<open>
  C5. Once the dependencies change, no request that was in flight at that moment can write to the
  hook ever again, whatever happens afterwards and whatever it answers.
\<close>

theorem stale_answer_ignored:
  assumes "reach hook_init (hook_step answers) h" "p \<in> set (in_flight h)" "k \<noteq> hook_key h"
    and "run (hook_step answers) (rerender k iv h) es t"
  shows "settle (fl_kind p) (fl_id p) out t = t"
proof -
  have "fl_id p \<le> requestId h" using reach_requests_inv [OF assms(1)] assms(2)
    by (auto simp: requests_inv_def)
  moreover have "requestId (rerender k iv h) = Suc (requestId h)"
    using assms(3) by (simp add: rerender_def Let_def)
  ultimately have "fl_id p \<noteq> requestId t"
    using request_guard.refused_forever [OF assms(4), of "fl_id p"] by auto
  then show ?thesis by (rule settle_superseded)
qed

theorem stale_answer_ignored_witness:
  "settle Load 1 (Inr (Some 5)) (rerender 2 None (mount 1 None False :: (nat, nat) hook))
     = rerender 2 None (mount 1 None False)"
  using stale_answer_ignored [of "\<lambda>_ _. True" "mount 1 None False :: (nat, nat) hook"
      "\<lparr>fl_id = 1, fl_kind = Load, fl_key = 1\<rparr>" 2 None "[]" _ "Inr (Some 5)"]
  by (simp add: reach_mount)

text \<open>
  C3. Every step of the hook is a step of its contract (\<open>view_step\<close>): for the current dependencies
  the view is loading, an error or an answer, and it only moves by asking again, by the outcome of
  the question being asked, or by a newer answer to the same question.
\<close>

theorem hook_refines_view:
  assumes "reach hook_init (hook_step answers) h" "hook_step answers h e h'"
  shows "view_step answers (hook_key h, hook_view h) (hook_key h', hook_view h')"
  using assms hook.reach_inv view_step_hook by blast

theorem hook_refines_view_witness:
  "view_step (=) (7 :: nat, Loading :: nat view) (7, Ready (Some 7))"
  using hook_refines_view [OF reach_mount step_first_answer, of "(=)" "7 :: nat" "Inr (Some 7)" None False]
  by (simp add: answer_alt hook_view_def)

text \<open>
  C10. Polling never leaks: in every reachable state there is at most one interval running, it runs
  exactly while the component is mounted, polls and its tab is visible, and the visibility
  listener is registered exactly while it is mounted and polls.
\<close>

theorem one_timer_while_visible:
  assumes "reach hook_init (hook_step answers) h"
  shows "length (live_timers h) \<le> 1
    \<and> (live_timers h \<noteq> [] \<longleftrightarrow> hook_mounted h \<and> polls h \<and> \<not> tab_hidden h)
    \<and> (hook_listening h \<longleftrightarrow> hook_mounted h \<and> polls h)"
  using hook.reach_inv [OF assms] by (auto simp: hook_inv_def timer_inv_def split: option.splits)

theorem one_timer_while_visible_witness:
  "live_timers (mount (1 :: nat) (Some 5000) False :: (nat, nat) hook) \<noteq> []
     \<and> live_timers (unmount (mount (1 :: nat) (Some 5000) False) :: (nat, nat) hook) = []"
proof -
  have r: "reach hook_init (hook_step (\<lambda>_ _. True)) (mount (1 :: nat) (Some 5000) False :: (nat, nat) hook)"
    by (rule reach_mount)
  then have u: "reach hook_init (hook_step (\<lambda>_ _. True))
      (unmount (mount (1 :: nat) (Some 5000) False) :: (nat, nat) hook)"
    by (rule reach_step) (rule step_unmount, simp)
  from one_timer_while_visible [OF r] one_timer_while_visible [OF u] show ?thesis
    by (simp add: polls_def unmount_def)
qed

text \<open>
  Background polling is quiet: a tick of the interval changes nothing on screen, and the answer
  to a background request never touches \<open>loading\<close> or \<open>error\<close>; if it failed, it changes nothing
  at all.
\<close>

theorem background_refresh_quiet:
  assumes "hook_step answers h e h'"
    and "e = Tick \<or> e = Answer n out \<and> fl_kind (in_flight h ! n) = Refresh"
  shows "hook_loading h' = hook_loading h \<and> hook_error h' = hook_error h
    \<and> (e = Tick \<or> (\<exists>err. out = Inl err) \<longrightarrow> hook_data h' = hook_data h)"
proof (cases "e = Tick")
  case True
  with assms(1) show ?thesis by (auto elim!: tick_cases simp: refresh_def)
next
  case False
  with assms have e: "e = Answer n out" "fl_kind (in_flight h ! n) = Refresh" by auto
  with assms(1) have "h' = answer n out h" by (auto elim: answer_cases)
  with e show ?thesis by (cases out) (auto simp: answer_alt)
qed

theorem background_refresh_quiet_witness:
  "hook_data (refresh (answer 0 (Inr (Some 7)) (mount (7 :: nat) (Some 5000) False)) :: (nat, nat) hook)
     = Some 7"
proof -
  let ?h = "answer 0 (Inr (Some 7)) (mount (7 :: nat) (Some 5000) False) :: (nat, nat) hook"
  have "hook_step (\<lambda>_ _. True) ?h Tick (refresh ?h)"
    by (rule step_tick) (simp add: mount_timers)
  from background_refresh_quiet [OF this, of 0 "Inr None"] show ?thesis by (simp add: answer_alt)
qed

text \<open>
  Without polling the spinner always has something to wait for: while the hook is loading, its
  latest load is in flight, and whatever that load answers ends the loading.
\<close>

theorem load_ends_without_polling:
  assumes "iv = None \<or> iv = Some 0" "run (hook_step answers) (mount k iv hid) es h"
    and "\<forall>e\<in>set es. no_poll e" "hook_mounted h" "hook_loading h"
  shows "\<exists>n < length (in_flight h). \<forall>out. \<not> hook_loading (answer n out h)"
proof -
  have "load_pending h"
    by (rule load_pending.run_kept [OF assms(2,3)]) (rule load_pending_mount [OF assms(1)])
  then obtain n where n: "n < length (in_flight h)" "fl_kind (in_flight h ! n) = Load"
    "fl_id (in_flight h ! n) = requestId h"
    using assms(4,5) by (auto simp: load_pending_def in_set_conv_nth)
  have "\<not> hook_loading (answer n out h)" for out
    using n assms(4) by (cases out) (simp_all add: answer_alt)
  with n(1) show ?thesis by blast
qed

theorem load_ends_without_polling_witness:
  "\<exists>n < length (in_flight (mount (1 :: nat) None False :: (nat, nat) hook)).
     \<forall>out. \<not> hook_loading (answer n out (mount (1 :: nat) None False :: (nat, nat) hook))"
  by (rule load_ends_without_polling [where iv = None and es = "[]" and answers = "\<lambda>_ _. True"
        and k = 1 and hid = False]) simp_all

text \<open>
  With polling it need not end. If the interval ticks before the first load has answered, the
  tick's request supersedes the load and answers without ending \<open>loading\<close>: from then on the
  spinner stays for every sequence of polls, tab switches and answers, until the user asks for a
  reload or the dependencies change.
\<close>

theorem early_poll_spins_forever:
  assumes "hook_step answers (mount k iv hid) Tick h" "run (hook_step answers) h es t"
    and "\<forall>e\<in>set es. quiet k e"
  shows "hook_loading t"
proof -
  have h: "h = refresh (mount k iv hid)" using assms(1) by (auto elim: tick_cases)
  have "requests_inv (mount k iv hid)" by (simp add: requests_inv_def)
  then have "settled k True None h"
    using no_live_load_refresh [of "mount k iv hid"]
    by (auto simp: settled_def h refresh_def intro!: requests_inv_issue)
  then have "settled k True None t" by (rule settled.run_kept [OF assms(2,3)])
  then show ?thesis by (simp add: settled_def)
qed

theorem early_poll_spins_forever_witness:
  "\<exists>t :: (nat, nat) hook. hook_loading t \<and> hook_data t = Some 7 \<and> in_flight t = []"
proof -
  let ?a = "\<lambda>_ _. True :: bool"
  let ?h0 = "mount (1 :: nat) (Some 5000) False :: (nat, nat) hook"
  let ?h1 = "answer 0 (Inr (Some 7)) (refresh ?h0)"
  let ?h2 = "answer 0 (Inr (Some 7)) ?h1"
  have tick: "hook_step ?a ?h0 Tick (refresh ?h0)" by (rule step_tick) (simp add: mount_timers)
  have "hook_step ?a (refresh ?h0) (Answer 0 (Inr (Some 7))) ?h1"
    "hook_step ?a ?h1 (Answer 0 (Inr (Some 7))) ?h2"
    by (rule step_answer; simp add: refresh_def)+
  then have run: "run (hook_step ?a) (refresh ?h0) [Answer 0 (Inr (Some 7)), Answer 0 (Inr (Some 7))] ?h2"
    by (auto simp: run_Cons_iff)
  have "hook_loading ?h2"
    by (rule early_poll_spins_forever [OF tick run]) (simp add: quiet_def)
  moreover have "hook_data ?h2 = Some 7" "in_flight ?h2 = []"
    by (simp_all add: answer_alt refresh_def)
  ultimately show ?thesis by blast
qed

text \<open>
  An error of a load outlives every successful poll: after the latest load has failed, the error
  text stays for every sequence of polls, tab switches and answers, until a reload or a change of
  the dependencies.
\<close>

theorem error_outlives_polls:
  assumes "reach hook_init (hook_step answers) h" "hook_mounted h" "n < length (in_flight h)"
    and "fl_kind (in_flight h ! n) = Load" "fl_id (in_flight h ! n) = requestId h"
    and "run (hook_step answers) (answer n (Inl err) h) es t" "\<forall>e\<in>set es. quiet (hook_key h) e"
  shows "hook_error t = Some (error_text err) \<and> \<not> hook_loading t"
proof -
  have req: "requests_inv h" using assms(1) by (rule reach_requests_inv)
  have eq: "answer n (Inl err) h = settle Load (requestId h) (Inl err) (drop_request n h)"
    using assms(2,4,5) by (simp add: answer_alt)
  have "no_live_load (answer n (Inl err) h)"
    using sorted_ids_distinct [OF _ assms(3)] req assms(5)
    unfolding no_live_load_def by (auto simp: requests_inv_def)
  moreover have "hook_error (answer n (Inl err) h) = Some (error_text err)"
    "\<not> hook_loading (answer n (Inl err) h)" unfolding eq by simp_all
  ultimately have "settled (hook_key h) False (Some (error_text err)) (answer n (Inl err) h)"
    using requests_inv_drop [OF req] by (simp add: settled_def)
  then have "settled (hook_key h) False (Some (error_text err)) t"
    by (rule settled.run_kept [OF assms(6,7)])
  then show ?thesis by (simp add: settled_def)
qed

theorem error_outlives_polls_witness:
  "\<exists>t :: (nat, nat) hook. hook_error t = Some UNREACHABLE \<and> hook_data t = Some 7"
proof -
  let ?a = "\<lambda>_ _. True :: bool"
  let ?h0 = "mount (1 :: nat) (Some 5000) False :: (nat, nat) hook"
  let ?h1 = "answer 0 (Inl OtherError) ?h0"
  let ?h2 = "answer 0 (Inr (Some 7)) (refresh ?h1)"
  have r: "reach hook_init (hook_step ?a) ?h0" by (rule reach_mount)
  have "hook_step ?a ?h1 Tick (refresh ?h1)" by (rule step_tick) (simp add: mount_timers)
  moreover have "hook_step ?a (refresh ?h1) (Answer 0 (Inr (Some 7))) ?h2"
    by (rule step_answer) (simp_all add: refresh_def)
  ultimately have run: "run (hook_step ?a) ?h1 [Tick, Answer 0 (Inr (Some 7))] ?h2"
    by (auto simp: run_Cons_iff)
  have "hook_error ?h2 = Some (error_text OtherError) \<and> \<not> hook_loading ?h2"
    by (rule error_outlives_polls [OF r _ _ _ _ run]) (simp_all add: quiet_def)
  moreover have "hook_data ?h2 = Some 7" by (simp add: answer_alt refresh_def)
  ultimately show ?thesis by auto
qed

end
