(* ===== verification/Session.thy ===== *)
theory Session
  imports Client
begin

text \<open>
  The session of a browser tab: \<open>AuthProvider\<close> (\<open>web/src/state/auth.tsx\<close>), the form of
  \<open>ConnectPage\<close>, the guard of \<open>Router\<close> in \<open>App.tsx\<close> and the Disconnect button of
  \<open>AppShell\<close>, on top of the module state of the API client. Between the two halves of a
  request anything else may happen; the requests on their way are part of the state, each with
  the call it makes and the result of its first half. Their tokens are recorded to state
  properties; no handler reads them.
\<close>

section \<open>State\<close>

record sent_request =
  sent_probe :: bool
  sent_suppress :: bool
  sent_token :: "jsstr option"
  sent_wire :: "http_request result"

record session =
  ses_client :: client
  connected :: bool
  auth_error :: "jsstr option"
  form_token :: jsstr
  form_submitting :: bool
  form_reveal :: bool
  sent :: "sent_request list"

section \<open>AuthProvider\<close>

definition AUTH_LISTENER :: nat where
  "AUTH_LISTENER = 0"

definition NOT_ACCEPTED :: jsstr where
  "NOT_ACCEPTED = js ''That token was not accepted. Check it against api.tokens_file / api.write_tokens_file and try again.''"

definition NOT_REACHED :: jsstr where
  "NOT_REACHED = js ''Could not reach the controller. Confirm it is running and reachable, then try again.''"

text \<open>
  The tab is loaded: the client module reads the storage, then \<open>AuthProvider\<close> mounts, takes
  \<open>connected\<close> from the token and registers its listener.
\<close>

definition auth_mount :: "client \<Rightarrow> session" where
  "auth_mount c = \<lparr>ses_client = onUnauthorized AUTH_LISTENER c, connected = (getToken c \<noteq> None),
     auth_error = None, form_token = [], form_submitting = False, form_reveal = False, sent = []\<rparr>"

definition load_tab :: "(jsstr \<Rightarrow> jsstr option) \<Rightarrow> session" where
  "load_tab st = auth_mount (module_load st)"

text \<open>
  \<open>Router\<close> renders \<open>ConnectPage\<close> exactly while the session is not connected, so the form's
  state is fresh whenever \<open>connected\<close> changes, and its setters act only while it is shown.
\<close>

definition setConnected :: "bool \<Rightarrow> session \<Rightarrow> session" where
  "setConnected b s = (if connected s = b then s
     else s\<lparr>connected := b, form_token := [], form_submitting := False, form_reveal := False\<rparr>)"

definition setSubmitting :: "bool \<Rightarrow> session \<Rightarrow> session" where
  "setSubmitting b s = (if connected s then s else s\<lparr>form_submitting := b\<rparr>)"

text \<open>The first half of a request: what is sent, with the token of this moment.\<close>

definition dispatch :: "bool \<Rightarrow> api_call \<Rightarrow> session \<Rightarrow> session" where
  "dispatch probe a s = s\<lparr>sent := sent s @
     [\<lparr>sent_probe = probe, sent_suppress = call_suppress a, sent_token = token (ses_client s),
       sent_wire = send (ses_client s) a\<rparr>]\<rparr>"

definition connect_start :: "jsstr \<Rightarrow> session \<Rightarrow> session" where
  "connect_start t s =
     dispatch True listHosts (s\<lparr>auth_error := None, ses_client := setToken t (ses_client s)\<rparr>)"

definition connect_finish :: "'v option result \<Rightarrow> session \<Rightarrow> session" where
  "connect_finish r s = (case r of
       Inr _ \<Rightarrow> setConnected True s
     | Inl err \<Rightarrow>
         (setConnected False (s\<lparr>ses_client := clearToken (ses_client s)\<rparr>))
         \<lparr>auth_error := Some (case err of
            ApiError st _ \<Rightarrow> if st = 401 then NOT_ACCEPTED else NOT_REACHED
          | OtherError \<Rightarrow> NOT_REACHED)\<rparr>)"

definition disconnect :: "session \<Rightarrow> session" where
  "disconnect s = setConnected False (s\<lparr>ses_client := clearToken (ses_client s)\<rparr>)"

section \<open>ConnectPage\<close>

definition submit_enabled :: "session \<Rightarrow> bool" where
  "submit_enabled s = (\<not> (form_submitting s \<or> js_trim (form_token s) = []))"

definition handleSubmit :: "session \<Rightarrow> session" where
  "handleSubmit s = (if js_trim (form_token s) = [] then s
     else connect_start (js_trim (form_token s)) (setSubmitting True s))"

section \<open>Answers\<close>

text \<open>The listeners called on a 401; the only one the program registers drops the session.\<close>

definition notify :: "nat list \<Rightarrow> session \<Rightarrow> session" where
  "notify ls s = fold (\<lambda>l u. if l = AUTH_LISTENER then setConnected False u else u) ls s"

text \<open>
  The \<open>n\<close>-th request on its way is answered, or had failed to leave. Listeners run inside
  \<open>request\<close>, then the caller continues: \<open>connect\<close> and the \<open>finally\<close> of \<open>handleSubmit\<close> for
  the probe, a page's own state (\<open>UseApi\<close>, \<open>WriteAction\<close>) for everything else.
\<close>

definition answer_sent :: "nat \<Rightarrow> 'v fetch_outcome \<Rightarrow> session \<Rightarrow> session" where
  "answer_sent n out s =
     (let p = sent s ! n;
          s0 = s\<lparr>sent := take n (sent s) @ drop (Suc n) (sent s)\<rparr>;
          (r, ls) = (case sent_wire p of
                       Inl e \<Rightarrow> (Inl e, [])
                     | Inr _ \<Rightarrow> request_finish (ses_client s) (sent_suppress p) out);
          s1 = notify ls s0
      in if sent_probe p then setSubmitting False (connect_finish r s1) else s1)"

section \<open>Steps\<close>

datatype 'v session_event =
    TypeToken jsstr | ToggleReveal | Submit | Disconnect | SendCall api_call
  | AnswerCall nat "'v fetch_outcome" | ReloadTab

inductive session_step :: "session \<Rightarrow> 'v session_event \<Rightarrow> session \<Rightarrow> bool" where
  ses_type: "\<not> connected s \<Longrightarrow> session_step s (TypeToken t) (s\<lparr>form_token := t\<rparr>)"
| ses_reveal: "\<not> connected s \<Longrightarrow> session_step s ToggleReveal (s\<lparr>form_reveal := \<not> form_reveal s\<rparr>)"
| ses_submit: "\<not> connected s \<Longrightarrow> submit_enabled s \<Longrightarrow> session_step s Submit (handleSubmit s)"
| ses_disconnect: "connected s \<Longrightarrow> session_step s Disconnect (disconnect s)"
| ses_send: "connected s \<Longrightarrow> session_step s (SendCall a) (dispatch False a s)"
| ses_answer: "n < length (sent s) \<Longrightarrow> session_step s (AnswerCall n out) (answer_sent n out s)"
| ses_reload: "session_step s ReloadTab (load_tab (storage (ses_client s)))"

inductive_cases ses_answer_cases: "session_step s (AnswerCall n out) t"
inductive_cases ses_submit_cases: "session_step s Submit t"

text \<open>The calls of the client module, and the steps of an app that makes no others.\<close>

inductive console_call :: "api_call \<Rightarrow> bool" where
  "console_call listHosts"
| "listJobs status = Inr a \<Longrightarrow> console_call a"
| "getJob i = Inr a \<Longrightarrow> console_call a"
| "listSnapshots h = Inr a \<Longrightarrow> console_call a"
| "console_call (listEvents f)"
| "console_call (triggerBackup r)"
| "getPluginConfig h p = Inr a \<Longrightarrow> console_call a"
| "setPluginConfig h p cfg = Inr a \<Longrightarrow> console_call a"

definition console_step :: "session \<Rightarrow> 'v session_event \<Rightarrow> session \<Rightarrow> bool" where
  "console_step s e t \<longleftrightarrow> session_step s e t \<and> (\<forall>a. e = SendCall a \<longrightarrow> console_call a)"

definition session_init :: "session \<Rightarrow> bool" where
  "session_init s \<longleftrightarrow> (\<exists>st. s = load_tab st)"

section \<open>What each operation leaves alone\<close>

lemma setConnected_simps [simp]:
  "connected (setConnected b s) = b" "ses_client (setConnected b s) = ses_client s"
  "auth_error (setConnected b s) = auth_error s" "sent (setConnected b s) = sent s"
  "setConnected (connected s) s = s"
  by (simp_all add: setConnected_def)

lemma setSubmitting_simps [simp]:
  "connected (setSubmitting b s) = connected s" "ses_client (setSubmitting b s) = ses_client s"
  "auth_error (setSubmitting b s) = auth_error s" "sent (setSubmitting b s) = sent s"
  "form_token (setSubmitting b s) = form_token s"
  "form_submitting (setSubmitting b s) = (if connected s then form_submitting s else b)"
  by (simp_all add: setSubmitting_def)

lemma dispatch_simps [simp]:
  "connected (dispatch pr a s) = connected s" "ses_client (dispatch pr a s) = ses_client s"
  "auth_error (dispatch pr a s) = auth_error s" "form_token (dispatch pr a s) = form_token s"
  "form_submitting (dispatch pr a s) = form_submitting s"
  by (simp_all add: dispatch_def)

lemma form_submitting_setConnected:
  "form_submitting (setConnected b s) = (connected s = b \<and> form_submitting s)"
  by (simp add: setConnected_def)

lemma connect_finish_simps:
  "connected (connect_finish r s) = (case r of Inr _ \<Rightarrow> True | Inl _ \<Rightarrow> False)"
  "ses_client (connect_finish r s) = (case r of Inr _ \<Rightarrow> ses_client s | Inl _ \<Rightarrow> clearToken (ses_client s))"
  "sent (connect_finish r s) = sent s"
  by (simp_all add: connect_finish_def split: sum.splits)

lemma notify_alt:
  "notify ls s = (if AUTH_LISTENER \<in> set ls then setConnected False s else s)"
proof (induction ls arbitrary: s)
  case (Cons l ls)
  have "setConnected False (setConnected False s) = setConnected False s"
    by (simp add: setConnected_def)
  with Cons show ?case by (simp add: notify_def)
qed (simp add: notify_def)

lemma request_finish_notified: "snd (request_finish c q out) =
   (case out of Responded r \<Rightarrow> if res_status r = 401 \<and> \<not> q then listeners c else [] | NetworkError \<Rightarrow> [])"
  by (auto simp: request_finish_def Let_def split: fetch_outcome.splits option.splits)

section \<open>Invariant\<close>

text \<open>
  \<open>unproven s p\<close>: the connect form is waiting for the probe \<open>p\<close>, which carries the token held
  now. In every state either no probe is on its way and the form is idle, or exactly one is.
\<close>

definition probes :: "session \<Rightarrow> sent_request list" where
  "probes s = filter sent_probe (sent s)"

definition unproven :: "session \<Rightarrow> sent_request \<Rightarrow> bool" where
  "unproven s p \<longleftrightarrow> \<not> connected s \<and> form_submitting s \<and> probes s = [p]
     \<and> token (ses_client s) \<noteq> None \<and> sent_token p = token (ses_client s)
     \<and> \<not> sent_suppress p \<and> sent_wire p = send (ses_client s) listHosts"

definition session_inv :: "session \<Rightarrow> bool" where
  "session_inv s \<longleftrightarrow> synced (ses_client s) \<and> listeners (ses_client s) = [AUTH_LISTENER]
     \<and> (connected s \<longrightarrow> token (ses_client s) \<noteq> None)
     \<and> (\<forall>p\<in>set (sent s). sent_token p \<noteq> None)
     \<and> (\<not> form_submitting s \<and> probes s = [] \<or> (\<exists>p. unproven s p))"

lemma unproven_cong:
  "connected t = connected s \<Longrightarrow> form_submitting t = form_submitting s \<Longrightarrow> ses_client t = ses_client s
     \<Longrightarrow> probes t = probes s \<Longrightarrow> unproven t p = unproven s p"
  by (simp add: unproven_def)

lemma session_inv_cong:
  assumes "session_inv s" "connected t = connected s" "form_submitting t = form_submitting s"
    and "ses_client t = ses_client s" "probes t = probes s" "set (sent t) \<subseteq> set (sent s)"
  shows "session_inv t"
  using assms(1,6) unfolding session_inv_def unproven_cong [OF assms(2-5)] assms(2-5) by blast

lemma session_inv_idle:
  assumes "session_inv s" "\<not> form_submitting t" "probes t = []" "set (sent t) \<subseteq> set (sent s)"
    and "ses_client t = ses_client s \<and> (connected t \<longrightarrow> token (ses_client s) \<noteq> None)
       \<or> ses_client t = clearToken (ses_client s) \<and> \<not> connected t"
  shows "session_inv t"
  using assms unfolding session_inv_def by (elim disjE conjE) (simp_all add: subset_iff)

lemma session_inv_load: "session_inv (load_tab st)"
  by (simp add: session_inv_def load_tab_def auth_mount_def probes_def getToken_def
      module_load_def onUnauthorized_def synced_def)

lemma session_inv_form:
  "session_inv s \<Longrightarrow> session_inv (s\<lparr>form_token := t\<rparr>)"
  "session_inv s \<Longrightarrow> session_inv (s\<lparr>form_reveal := b\<rparr>)"
  by (auto simp: session_inv_def unproven_def probes_def)

lemma session_inv_drop: "session_inv s \<Longrightarrow> session_inv (setConnected False s)"
  by (auto simp: session_inv_def unproven_def probes_def form_submitting_setConnected)

lemma session_inv_disconnect: "session_inv s \<Longrightarrow> connected s \<Longrightarrow> session_inv (disconnect s)"
  by (auto simp: session_inv_def unproven_def probes_def disconnect_def form_submitting_setConnected)

lemma handleSubmit_alt: "submit_enabled s \<Longrightarrow>
  handleSubmit s = connect_start (js_trim (form_token s)) (setSubmitting True s)"
  by (simp add: handleSubmit_def submit_enabled_def)

lemma connect_start_simps [simp]:
  "connected (connect_start t s) = connected s" "form_submitting (connect_start t s) = form_submitting s"
  "ses_client (connect_start t s) = setToken t (ses_client s)" "auth_error (connect_start t s) = None"
  "sent (connect_start t s) = sent s @ [\<lparr>sent_probe = True, sent_suppress = False, sent_token = Some t,
     sent_wire = send (setToken t (ses_client s)) listHosts\<rparr>]"
  by (simp_all add: connect_start_def) (simp add: dispatch_def listHosts_def)

lemma session_inv_submit:
  assumes "session_inv s" "\<not> connected s" "submit_enabled s"
  shows "session_inv (handleSubmit s)"
proof -
  have idle: "probes s = []" "\<not> form_submitting s"
    using assms by (auto simp: session_inv_def unproven_def submit_enabled_def)
  let ?t = "setToken (js_trim (form_token s)) (ses_client s)"
  let ?p = "\<lparr>sent_probe = True, sent_suppress = False, sent_token = Some (js_trim (form_token s)),
     sent_wire = send ?t listHosts\<rparr>"
  have t: "connected (handleSubmit s) = False" "form_submitting (handleSubmit s)"
    "ses_client (handleSubmit s) = ?t" "sent (handleSubmit s) = sent s @ [?p]"
    using assms(2) by (simp_all add: handleSubmit_alt [OF assms(3)])
  then have "unproven (handleSubmit s) ?p" using idle(1) by (simp add: unproven_def probes_def)
  moreover have "synced ?t" "listeners ?t = [AUTH_LISTENER]" "\<forall>p\<in>set (sent s). sent_token p \<noteq> None"
    using assms(1) by (simp_all add: session_inv_def)
  ultimately show ?thesis unfolding session_inv_def t by (simp add: t) blast
qed

lemma session_inv_send:
  "session_inv s \<Longrightarrow> connected s \<Longrightarrow> session_inv (dispatch False a s)"
  by (auto simp: session_inv_def unproven_def probes_def) (auto simp: dispatch_def)

lemma filter_take_drop:
  assumes "n < length xs"
  shows "filter P xs = filter P (take n xs) @ (if P (xs ! n) then [xs ! n] else []) @ filter P (drop (Suc n) xs)"
proof -
  have "xs = take n xs @ xs ! n # drop (Suc n) xs" using assms by (rule id_take_nth_drop)
  from arg_cong [OF this, of "filter P"] show ?thesis by (cases "P (xs ! n)") simp_all
qed

lemma filter_removed:
  "n < length xs \<Longrightarrow> \<not> P (xs ! n) \<Longrightarrow> filter P (take n xs @ drop (Suc n) xs) = filter P xs"
  by (simp only: filter_take_drop [of n xs P] if_False append_Nil filter_append)

definition forget :: "nat \<Rightarrow> session \<Rightarrow> session" where
  "forget n s = s\<lparr>sent := take n (sent s) @ drop (Suc n) (sent s)\<rparr>"

lemma forget_simps [simp]:
  "connected (forget n s) = connected s" "ses_client (forget n s) = ses_client s"
  "form_submitting (forget n s) = form_submitting s" "auth_error (forget n s) = auth_error s"
  "form_token (forget n s) = form_token s"
  "sent (forget n s) = take n (sent s) @ drop (Suc n) (sent s)"
  by (simp_all add: forget_def)

text \<open>The result of the request, and whether the auth listener was called.\<close>

definition call_result :: "session \<Rightarrow> nat \<Rightarrow> 'v fetch_outcome \<Rightarrow> 'v option result" where
  "call_result s n out = (case sent_wire (sent s ! n) of
     Inl e \<Rightarrow> Inl e
   | Inr _ \<Rightarrow> fst (request_finish (ses_client s) (sent_suppress (sent s ! n)) out))"

definition drops :: "session \<Rightarrow> nat \<Rightarrow> 'v fetch_outcome \<Rightarrow> bool" where
  "drops s n out \<longleftrightarrow> (\<exists>w. sent_wire (sent s ! n) = Inr w) \<and> \<not> sent_suppress (sent s ! n)
     \<and> (\<exists>r. out = Responded r \<and> res_status r = 401)"

lemma answer_sent_alt:
  assumes "session_inv s"
  shows "answer_sent n out s =
     (let s1 = (if drops s n out then setConnected False (forget n s) else forget n s)
      in if sent_probe (sent s ! n) then setSubmitting False (connect_finish (call_result s n out) s1) else s1)"
proof -
  have "AUTH_LISTENER \<in> set (snd (request_finish (ses_client s) (sent_suppress (sent s ! n)) out))
      \<longleftrightarrow> \<not> sent_suppress (sent s ! n) \<and> (\<exists>r. out = Responded r \<and> res_status r = 401)"
    using assms by (auto simp: request_finish_notified session_inv_def split: fetch_outcome.splits)
  note ls = this
  show ?thesis
  proof (cases "sent_wire (sent s ! n)")
    case (Inl e)
    then show ?thesis
      by (simp add: answer_sent_def drops_def call_result_def forget_def notify_alt Let_def)
  next
    case (Inr w)
    obtain r ls' where rl: "request_finish (ses_client s) (sent_suppress (sent s ! n)) out = (r, ls')"
      by (cases "request_finish (ses_client s) (sent_suppress (sent s ! n)) out")
    with ls have "AUTH_LISTENER \<in> set ls' \<longleftrightarrow> drops s n out" by (simp add: drops_def Inr)
    then show ?thesis
      by (simp add: answer_sent_def call_result_def forget_def notify_alt Inr rl Let_def)
  qed
qed

lemma session_inv_forget:
  assumes "session_inv s" "n < length (sent s)" "\<not> sent_probe (sent s ! n)"
  shows "session_inv (forget n s)"
proof -
  have "probes (forget n s) = probes s"
    unfolding probes_def forget_simps by (rule filter_removed) (use assms in auto)
  moreover have "set (sent (forget n s)) \<subseteq> set (sent s)"
    by (auto dest: in_set_takeD in_set_dropD)
  ultimately show ?thesis by (intro session_inv_cong [OF assms(1)]) simp_all
qed

lemma probe_answered:
  assumes "session_inv s" "n < length (sent s)" "sent_probe (sent s ! n)"
  shows "unproven s (sent s ! n)" "probes (forget n s) = []"
proof -
  have mem: "sent s ! n \<in> set (probes s)" using assms(2,3) by (simp add: probes_def)
  then have "probes s \<noteq> []" by auto
  then obtain p where p: "unproven s p" using assms(1) unfolding session_inv_def by blast
  then have one: "probes s = [p]" by (simp add: unproven_def)
  with mem have "sent s ! n = p" by simp
  with p show "unproven s (sent s ! n)" by simp
  have "[p] = filter sent_probe (take n (sent s)) @ [sent s ! n] @ filter sent_probe (drop (Suc n) (sent s))"
    using filter_take_drop [OF assms(2), of sent_probe] assms(3) one by (simp only: probes_def if_True)
  then show "probes (forget n s) = []" by (auto simp: probes_def append_eq_Cons_conv Cons_eq_append_conv)
qed

lemma session_inv_answer:
  assumes "session_inv s" "n < length (sent s)"
  shows "session_inv (answer_sent n out s)"
proof (cases "sent_probe (sent s ! n)")
  case False
  then show ?thesis using session_inv_forget [OF assms] session_inv_drop
    by (simp add: answer_sent_alt [OF assms(1)] Let_def)
next
  case True
  note probe = probe_answered [OF assms True]
  let ?t = "answer_sent n out s" and ?r = "call_result s n out"
  have t: "ses_client ?t = (case ?r of Inr _ \<Rightarrow> ses_client s | Inl _ \<Rightarrow> clearToken (ses_client s))"
    "connected ?t = (case ?r of Inr _ \<Rightarrow> True | Inl _ \<Rightarrow> False)"
    "sent ?t = take n (sent s) @ drop (Suc n) (sent s)"
    using True by (cases ?r; simp add: answer_sent_alt [OF assms(1)] Let_def connect_finish_simps)+
  have "\<not> form_submitting ?t"
    using True probe(1) by (cases ?r) (simp_all add: answer_sent_alt [OF assms(1)]
        connect_finish_def unproven_def form_submitting_setConnected)
  moreover have "probes ?t = []" using probe(2) by (simp add: probes_def t)
  moreover have "token (ses_client s) \<noteq> None" using probe(1) by (simp add: unproven_def)
  ultimately show ?thesis
    by (intro session_inv_idle [OF assms(1)])
      (auto simp: t dest: in_set_takeD in_set_dropD split: sum.splits)
qed

lemma session_inv_step: "session_step s e t \<Longrightarrow> session_inv s \<Longrightarrow> session_inv t"
  by (induction rule: session_step.induct)
    (simp_all add: session_inv_form session_inv_submit session_inv_send session_inv_answer
      session_inv_load session_inv_disconnect)

interpretation tab: transition_system session_step session_inv session_init
  by unfold_locales (auto simp: session_init_def session_inv_load intro: session_inv_step)

lemma reach_load: "reach session_init session_step (load_tab st)"
  by (rule reach_init) (auto simp: session_init_def)

lemma load_tab_simps [simp]:
  "connected (load_tab st) = (st STORAGE_KEY \<noteq> None)" "token (ses_client (load_tab st)) = st STORAGE_KEY"
  "storage (ses_client (load_tab st)) = st" "sent (load_tab st) = []"
  "form_submitting (load_tab st) = False" "form_token (load_tab st) = []"
  by (simp_all add: load_tab_def auth_mount_def module_load_def getToken_def onUnauthorized_def)

text \<open>The calls that do not read, and no others, leave the auth listener alone.\<close>

definition writes_marked :: "session \<Rightarrow> bool" where
  "writes_marked s \<longleftrightarrow> (\<forall>p\<in>set (sent s). \<forall>w. sent_wire p = Inr w \<longrightarrow> sent_suppress p = (http_method w \<noteq> js ''GET''))"

lemma console_call_suppress:
  "console_call a \<Longrightarrow> call_suppress a = (init_method (call_init a) \<noteq> None) \<and> init_method (call_init a) \<noteq> Some (js ''GET'')"
  by (induction rule: console_call.induct)
    (auto simp: listHosts_def listJobs_def getJob_def listSnapshots_def listEvents_def triggerBackup_def
      getPluginConfig_def setPluginConfig_def bind_result_Inr_iff Let_def split: if_splits)

lemma console_call_marked:
  assumes "console_call a" "send c a = Inr w"
  shows "call_suppress a = (http_method w \<noteq> js ''GET'')"
  using console_call_suppress [OF assms(1)] send_fields(3) [OF assms(2)] by (auto split: option.splits)

lemma writes_marked_dispatch:
  assumes "console_call a" "writes_marked s"
  shows "writes_marked (dispatch pr a s)"
  using assms(2) console_call_marked [OF assms(1)] by (auto simp: writes_marked_def dispatch_def)

lemma writes_marked_cong: "set (sent t) \<subseteq> set (sent s) \<Longrightarrow> writes_marked s \<Longrightarrow> writes_marked t"
  by (auto simp: writes_marked_def)

lemma sent_answer:
  assumes "session_inv s"
  shows "set (sent (answer_sent n out s)) \<subseteq> set (sent s)"
  by (auto simp: answer_sent_alt [OF assms] Let_def connect_finish_simps dest: in_set_takeD in_set_dropD split: if_splits)

lemma console_inv_step:
  assumes "console_step s e t" "session_inv s \<and> writes_marked s"
  shows "session_inv t \<and> writes_marked t"
proof -
  have step: "session_step s e t" and calls: "\<And>a. e = SendCall a \<Longrightarrow> console_call a"
    using assms(1) by (auto simp: console_step_def)
  from step have "writes_marked t"
  proof cases
    case ses_submit
    then have "set (sent t) = set (sent (dispatch True listHosts
        (s\<lparr>ses_client := setToken (js_trim (form_token s)) (ses_client s)\<rparr>)))"
      by (simp add: handleSubmit_alt) (simp add: dispatch_def listHosts_def)
    moreover have "writes_marked (dispatch True listHosts (s\<lparr>ses_client := setToken (js_trim (form_token s)) (ses_client s)\<rparr>))"
      using assms(2) by (intro writes_marked_dispatch console_call.intros) (auto simp: writes_marked_def)
    ultimately show ?thesis by (simp add: writes_marked_def)
  next
    case (ses_send a)
    then show ?thesis using assms(2) calls writes_marked_dispatch by simp
  next
    case (ses_answer n out)
    then show ?thesis using assms(2) sent_answer writes_marked_cong by blast
  qed (use assms(2) in \<open>auto simp: writes_marked_def disconnect_def\<close>)
  with session_inv_step [OF step] assms(2) show ?thesis by simp
qed

interpretation console: transition_system console_step "\<lambda>s. session_inv s \<and> writes_marked s" session_init
proof
  show "session_inv s \<and> writes_marked s" if "session_init s" for s
    using that by (auto simp: session_init_def session_inv_load writes_marked_def simp del: load_tab_def)
  show "session_inv t \<and> writes_marked t" if "session_inv s \<and> writes_marked s" "console_step s e t" for s t and e :: "'a session_event"
    using console_inv_step [OF that(2,1)] .
qed

lemma inv_connected: "session_inv s \<Longrightarrow> connected s \<Longrightarrow> token (ses_client s) \<noteq> None"
  by (simp add: session_inv_def)

lemma busy_iff_probe: "session_inv s \<Longrightarrow> form_submitting s \<longleftrightarrow> (\<exists>p\<in>set (sent s). sent_probe p)"
  by (auto simp: session_inv_def unproven_def probes_def filter_empty_conv filter_eq_Cons_iff)

lemma inv_storage: "session_inv s \<Longrightarrow> storage (ses_client s) STORAGE_KEY = token (ses_client s)"
  by (simp add: session_inv_def synced_def)

lemma answer_other:
  assumes "session_inv s" "\<not> sent_probe (sent s ! n)"
  shows "answer_sent n out s = (if drops s n out then setConnected False (forget n s) else forget n s)"
  using assms(2) by (simp add: answer_sent_alt [OF assms(1)])

lemma answer_probe:
  assumes "session_inv s" "sent_probe (sent s ! n)"
  shows "connected (answer_sent n out s) = (case call_result s n out of Inr _ \<Rightarrow> True | Inl _ \<Rightarrow> False)"
    and "ses_client (answer_sent n out s)
      = (case call_result s n out of Inr _ \<Rightarrow> ses_client s | Inl _ \<Rightarrow> clearToken (ses_client s))"
    and "call_result s n out = Inl e \<Longrightarrow> auth_error (answer_sent n out s) = Some (case e of
      ApiError st _ \<Rightarrow> if st = 401 then NOT_ACCEPTED else NOT_REACHED | OtherError \<Rightarrow> NOT_REACHED)"
proof -
  note alt = answer_sent_alt [OF assms(1), of n out]
  show "connected (answer_sent n out s) = (case call_result s n out of Inr _ \<Rightarrow> True | Inl _ \<Rightarrow> False)"
    using assms(2) by (cases "call_result s n out"; simp add: alt Let_def connect_finish_simps)
  show "ses_client (answer_sent n out s)
      = (case call_result s n out of Inr _ \<Rightarrow> ses_client s | Inl _ \<Rightarrow> clearToken (ses_client s))"
    using assms(2) by (cases "call_result s n out"; simp add: alt Let_def connect_finish_simps)
  show "call_result s n out = Inl e \<Longrightarrow> auth_error (answer_sent n out s) = Some (case e of
      ApiError st _ \<Rightarrow> if st = 401 then NOT_ACCEPTED else NOT_REACHED | OtherError \<Rightarrow> NOT_REACHED)"
    using assms(2) by (simp add: alt Let_def connect_finish_def)
qed

text \<open>A probe on its way, seen from the answer.\<close>

lemma request_finish_Inr_iff: "(\<exists>v. fst (request_finish c q out) = Inr v) \<longleftrightarrow>
    (\<exists>r. out = Responded r \<and> res_ok r \<and> (res_status r = 204 \<or> res_value r \<noteq> None))"
  by (auto simp: request_finish_def Let_def split: fetch_outcome.splits option.splits)

lemma call_result_Inr_iff: "(\<exists>v. call_result s n out = Inr v) \<longleftrightarrow>
    (\<exists>w r. sent_wire (sent s ! n) = Inr w \<and> out = Responded r \<and> res_ok r \<and> (res_status r = 204 \<or> res_value r \<noteq> None))"
  using request_finish_Inr_iff [of "ses_client s" "sent_suppress (sent s ! n)" out]
  by (auto simp: call_result_def split: sum.splits)

lemma request_finish_401: "res_status r = 401 \<Longrightarrow>
    fst (request_finish c q (Responded r)) = Inl (ApiError 401 (error_message r))"
  by (simp add: request_finish_def Let_def res_ok_def)

lemma send_error: "send c a = Inl e \<Longrightarrow> e = OtherError"
  by (simp add: send_def request_start_def Let_def split: option.splits)

lemma request_finish_blames:
  "fst (request_finish c q out) = Inl e \<Longrightarrow>
     (\<exists>m. e = ApiError 401 m) \<longleftrightarrow> (\<exists>r. out = Responded r \<and> res_status r = 401)"
  by (auto simp: request_finish_def Let_def res_ok_def split: fetch_outcome.splits option.splits if_splits)

lemma call_result_blames:
  assumes "sent_wire (sent s ! n) = send c a" "call_result s n out = Inl e"
  shows "(\<exists>m. e = ApiError 401 m)
    \<longleftrightarrow> (\<exists>w r. sent_wire (sent s ! n) = Inr w \<and> out = Responded r \<and> res_status r = 401)"
proof (cases "sent_wire (sent s ! n)")
  case (Inl x)
  then have "e = OtherError" using assms send_error [of c a x] by (simp add: call_result_def)
  with Inl show ?thesis by simp
next
  case (Inr w)
  with assms(2) have "fst (request_finish (ses_client s) (sent_suppress (sent s ! n)) out) = Inl e"
    by (simp add: call_result_def)
  from request_finish_blames [OF this] Inr show ?thesis by simp
qed

text \<open>A tab opened without a token, in which \<open>t\<close> has been typed and submitted.\<close>

definition connecting :: "jsstr \<Rightarrow> session" where
  "connecting t = handleSubmit ((load_tab (\<lambda>_. None))\<lparr>form_token := t\<rparr>)"

lemma connecting:
  assumes "js_trim t = t" "header_token t"
  shows "reach session_init session_step (connecting t)"
    and "\<not> connected (connecting t)" "token (ses_client (connecting t)) = Some t"
    and "form_submitting (connecting t)"
    and "\<exists>w. sent (connecting t)
        = [\<lparr>sent_probe = True, sent_suppress = False, sent_token = Some t, sent_wire = Inr w\<rparr>]"
proof -
  let ?s = "(load_tab (\<lambda>_. None))\<lparr>form_token := t\<rparr>"
  have en: "submit_enabled ?s" using assms by (simp add: submit_enabled_def header_token_def)
  have "reach session_init session_step ?s"
    by (rule reach_step [OF reach_load]) (rule ses_type, simp)
  then show "reach session_init session_step (connecting t)"
    unfolding connecting_def by (rule reach_step) (rule ses_submit [OF _ en], simp)
  obtain w where "send (setToken t (ses_client (load_tab (\<lambda>_. None)))) listHosts = Inr w"
    using send_leaves [of "setToken t (ses_client (load_tab (\<lambda>_. None)))" t listHosts] assms(2)
    by (auto simp: listHosts_def)
  then show "\<not> connected (connecting t)" "token (ses_client (connecting t)) = Some t"
    "form_submitting (connecting t)" "\<exists>w. sent (connecting t)
        = [\<lparr>sent_probe = True, sent_suppress = False, sent_token = Some t, sent_wire = Inr w\<rparr>]"
    by (simp_all add: connecting_def handleSubmit_alt [OF en] assms(1))
qed

text \<open>The controller's answers to the probe in the witnesses.\<close>

definition status_answer :: "nat \<Rightarrow> 'v option option \<Rightarrow> 'v fetch_outcome" where
  "status_answer st v =
     Responded \<lparr>res_status = st, res_statusText = [], res_error = NotJson, res_value = v\<rparr>"

lemma sample_tokens [simp]:
  "js_trim (js ''abc'') = js ''abc''" "header_token (js ''abc'')"
  "js_trim (js ''xyz'') = js ''xyz''" "header_token (js ''xyz'')"
  by (simp_all add: js_trim_def js_Cons is_space_def unat_ch header_token_def http_space_def)

section \<open>Properties\<close>

text \<open>
  C2. In every reachable state the storage of the tab holds exactly the token of module state; the
  app is shown only while there is a token; every request on its way left with one; and the
  connect form is busy exactly while its one probe is on its way.
\<close>

theorem session_consistent:
  assumes "reach session_init session_step s"
  shows "storage (ses_client s) STORAGE_KEY = token (ses_client s)
    \<and> (connected s \<longrightarrow> token (ses_client s) \<noteq> None)
    \<and> (\<forall>p\<in>set (sent s). sent_token p \<noteq> None)
    \<and> length (filter sent_probe (sent s)) = (if form_submitting s then 1 else 0)
    \<and> (form_submitting s \<longrightarrow> \<not> connected s)"
  using tab.reach_inv [OF assms] inv_storage
  by (auto simp: session_inv_def unproven_def probes_def)

theorem session_consistent_witness:
  "length (filter sent_probe (sent (handleSubmit ((load_tab (\<lambda>_. None))\<lparr>form_token := js '' abc ''\<rparr>)))) = 1"
proof -
  let ?s = "(load_tab (\<lambda>_. None))\<lparr>form_token := js '' abc ''\<rparr>"
  have t: "js_trim (js '' abc '') = js ''abc''"
    by (simp add: js_trim_def js_Cons is_space_def unat_ch)
  have en: "submit_enabled ?s" by (simp add: submit_enabled_def t)
  have "reach session_init session_step ?s"
    by (rule reach_step [OF reach_load]) (rule ses_type, simp)
  then have "reach session_init session_step (handleSubmit ?s)"
    by (rule reach_step) (rule ses_submit [OF _ en], simp)
  from session_consistent [OF this] show ?thesis by (simp add: handleSubmit_alt [OF en])
qed

text \<open>
  C4. The app opens in two ways only: on the answer to a probe, a 2xx answer to a request that
  carried the very token now held, as its bearer token; or by loading a tab whose storage holds a
  token.
\<close>

theorem session_opened_by_probe:
  assumes "reach session_init session_step s" "session_step s e t" "\<not> connected s" "connected t"
  shows "e = ReloadTab \<and> storage (ses_client s) STORAGE_KEY \<noteq> None
    \<or> (\<exists>n out p req. e = AnswerCall n out \<and> p = sent s ! n \<and> sent_probe p \<and> sent_wire p = Inr req
         \<and> (\<exists>r. out = Responded r \<and> res_ok r) \<and> sent_token p = token (ses_client t)
         \<and> headers_get (js ''Authorization'') (http_headers req) = (if truthy (token (ses_client t))
             then header_value (js ''Bearer '' @ the (token (ses_client t))) else None))"
  using assms(2)
proof cases
  case (ses_answer n out)
  note inv = tab.reach_inv [OF assms(1)]
  have probe: "sent_probe (sent s ! n)"
  proof (rule ccontr)
    assume "\<not> sent_probe (sent s ! n)"
    from answer_other [OF inv this, of out] show False
      using ses_answer(2) assms(3,4) by (simp split: if_splits)
  qed
  note up = probe_answered(1) [OF inv ses_answer(3) probe]
  obtain v where v: "call_result s n out = Inr v" and c: "ses_client t = ses_client s"
    using ses_answer(2) assms(4) answer_probe(1,2) [OF inv probe, of out]
    by (cases "call_result s n out") auto
  then obtain req where req: "sent_wire (sent s ! n) = Inr req" "fst (request_finish (ses_client s)
      (sent_suppress (sent s ! n)) out) = Inr v"
    by (auto simp: call_result_def split: sum.splits)
  then have "\<exists>r. out = Responded r \<and> res_ok r" using request_finish_Inr_iff by blast
  moreover have "send (ses_client s) listHosts = Inr req" using up req(1) by (simp add: unproven_def)
  then have "headers_get (js ''Authorization'') (http_headers req) = (if truthy (token (ses_client s))
      then header_value (js ''Bearer '' @ the (token (ses_client s))) else None)"
    by (rule send_authorization) (simp add: listHosts_def)
  moreover have "sent_token (sent s ! n) = token (ses_client s)" using up by (simp add: unproven_def)
  ultimately show ?thesis using ses_answer(1) probe req(1) c by auto
qed (use assms(3,4) in \<open>auto simp: handleSubmit_alt disconnect_def\<close>)

theorem session_opened_by_probe_witness:
  "connected (answer_sent 0 (status_answer 200 (Some (Some ()))) (connecting (js ''abc'')))
     \<and> sent_token (sent (connecting (js ''abc'')) ! 0) = Some (js ''abc'')"
proof -
  let ?s = "connecting (js ''abc'')" and ?o = "status_answer 200 (Some (Some ()))"
  note c = connecting [of "js ''abc''", simplified]
  have step: "session_step ?s (AnswerCall 0 ?o) (answer_sent 0 ?o ?s)"
    by (rule ses_answer) (use c(5) in auto)
  have probe: "sent_probe (sent ?s ! 0)" using c(5) by auto
  have "call_result ?s 0 ?o = Inr (Some ())"
    using c(5) by (auto simp: call_result_def request_finish_def status_answer_def res_ok_def)
  then have con: "connected (answer_sent 0 ?o ?s)" "ses_client (answer_sent 0 ?o ?s) = ses_client ?s"
    using answer_probe(1,2) [OF tab.reach_inv [OF c(1)] probe, of ?o] by simp_all
  from session_opened_by_probe [OF c(1) step c(2) con(1)] con c(3) show ?thesis by auto
qed

text \<open>
  C6. The verdict on a pasted token, in both directions. The app opens exactly on a 2xx answer to the
  probe whose body is JSON (a 204 has none to read), and then the token that was probed is held and
  stored. Every other outcome keeps the connect screen, takes the token out of module state and of
  the storage, and blames the token exactly when the controller answered 401, the connection
  otherwise.
\<close>

theorem connect_verdict:
  assumes "reach session_init session_step s" "n < length (sent s)" "sent_probe (sent s ! n)"
    and "session_step s (AnswerCall n out) t"
  shows "(connected t \<longleftrightarrow> (\<exists>w r. sent_wire (sent s ! n) = Inr w \<and> out = Responded r \<and> res_ok r
          \<and> (res_status r = 204 \<or> res_value r \<noteq> None)))
     \<and> (connected t \<longrightarrow> token (ses_client t) = sent_token (sent s ! n)
         \<and> storage (ses_client t) STORAGE_KEY = sent_token (sent s ! n))
     \<and> (\<not> connected t \<longrightarrow> token (ses_client t) = None \<and> storage (ses_client t) STORAGE_KEY = None
         \<and> auth_error t = Some (if (\<exists>w r. sent_wire (sent s ! n) = Inr w \<and> out = Responded r \<and> res_status r = 401)
             then NOT_ACCEPTED else NOT_REACHED))"
proof -
  note inv = tab.reach_inv [OF assms(1)]
  have t: "t = answer_sent n out s" using assms(4) by (auto elim: ses_answer_cases)
  note up = probe_answered(1) [OF inv assms(2,3)]
  have opens: "connected t \<longleftrightarrow> (\<exists>v. call_result s n out = Inr v)"
    unfolding t using answer_probe(1) [OF inv assms(3), of out] by (cases "call_result s n out") simp_all
  have accepted: "token (ses_client t) = sent_token (sent s ! n) \<and> storage (ses_client t) STORAGE_KEY = sent_token (sent s ! n)"
    if "connected t"
    using that up inv_storage [OF inv] unfolding opens unfolding t
    by (auto simp: unproven_def answer_probe(2) [OF inv assms(3)])
  have refused: "token (ses_client t) = None \<and> storage (ses_client t) STORAGE_KEY = None
      \<and> auth_error t = Some (if (\<exists>w r. sent_wire (sent s ! n) = Inr w \<and> out = Responded r \<and> res_status r = 401)
          then NOT_ACCEPTED else NOT_REACHED)" if "\<not> connected t"
  proof -
    from that opens obtain e where e: "call_result s n out = Inl e" by (cases "call_result s n out") auto
    have "sent_wire (sent s ! n) = send (ses_client s) listHosts" using up by (simp add: unproven_def)
    note blame = call_result_blames [OF this e, symmetric]
    have "(case e of ApiError st _ \<Rightarrow> if st = 401 then NOT_ACCEPTED else NOT_REACHED | OtherError \<Rightarrow> NOT_REACHED)
        = (if \<exists>m. e = ApiError 401 m then NOT_ACCEPTED else NOT_REACHED)" by (cases e) auto
    then show ?thesis unfolding t blame using answer_probe(2,3) [OF inv assms(3), of out] e by simp
  qed
  from opens accepted refused show ?thesis unfolding call_result_Inr_iff by blast
qed

theorem connect_verdict_witness:
  "auth_error (answer_sent 0 (status_answer 401 None :: unit fetch_outcome) (connecting (js ''abc''))) = Some NOT_ACCEPTED
   \<and> \<not> connected (answer_sent 0 (status_answer 500 (Some (Some ()))) (connecting (js ''abc'')))
   \<and> connected (answer_sent 0 (status_answer 200 (Some (Some ()))) (connecting (js ''abc'')))"
proof -
  let ?s = "connecting (js ''abc'')"
  note c = connecting [of "js ''abc''", simplified]
  have len: "0 < length (sent ?s)" and probe: "sent_probe (sent ?s ! 0)" using c(5) by auto
  have "session_step ?s (AnswerCall 0 out) (answer_sent 0 out ?s)" for out :: "unit fetch_outcome"
    by (rule ses_answer) (rule len)
  note verdict = connect_verdict [OF c(1) len probe this]
  obtain w where w: "sent_wire (sent ?s ! 0) = Inr w" using c(5) by auto
  have "\<not> connected (answer_sent 0 (status_answer 500 (Some (Some ()))) ?s)"
    using verdict [of "status_answer 500 (Some (Some ()))"] by (simp add: status_answer_def res_ok_def)
  moreover have "connected (answer_sent 0 (status_answer 200 (Some (Some ()))) ?s)"
    using verdict [of "status_answer 200 (Some (Some ()))"] w by (simp add: status_answer_def res_ok_def)
  moreover have "auth_error (answer_sent 0 (status_answer 401 None :: unit fetch_outcome) ?s) = Some NOT_ACCEPTED"
    using verdict [of "status_answer 401 None"] w by (simp add: status_answer_def res_ok_def)
  ultimately show ?thesis by blast
qed

text \<open>
  C12. A token without write scope does not lose the session. In every history in which the app makes
  the calls of the client module, whatever answers a request of the app whose method is not \<open>GET\<close>
  (the \<open>POST\<close> of a backup, the \<open>PUT\<close> of a configuration), a 401 included, leaves the session as it
  was, connected or not, with its token, storage and message: only the request is no longer on its way.
\<close>

theorem write_answers_keep_session:
  assumes "reach session_init console_step s" "console_step s (AnswerCall n out) t"
    and "sent_wire (sent s ! n) = Inr w" "http_method w \<noteq> js ''GET''"
  shows "t = s\<lparr>sent := take n (sent s) @ drop (Suc n) (sent s)\<rparr>"
proof -
  have inv: "session_inv s" and marked: "writes_marked s" using console.reach_inv [OF assms(1)] by simp_all
  have n: "n < length (sent s)" and t: "t = answer_sent n out s"
    using assms(2) by (auto simp: console_step_def elim: ses_answer_cases)
  have hush: "sent_suppress (sent s ! n)" using marked n assms(3,4) by (simp add: writes_marked_def)
  then have "\<not> sent_probe (sent s ! n)"
    using probe_answered(1) [OF inv n] by (auto simp: unproven_def)
  with hush show ?thesis by (simp add: t answer_other [OF inv] drops_def forget_def)
qed

definition sample_write :: api_call where
  "sample_write = triggerBackup \<lparr>req_host = js ''h'', req_plugin = js ''p''\<rparr>"

theorem write_answers_keep_session_witness:
  "\<exists>a. setPluginConfig (js ''db1'') (js ''filesystem'') (Filesystem \<lparr>fs_paths = [js ''/etc''], fs_excludes = []\<rparr>) = Inr a
     \<and> connected (answer_sent 0 (status_answer 401 None :: unit fetch_outcome)
         (dispatch False a (load_tab (\<lambda>_. Some (js ''abc'')))))"
proof -
  let ?ini = "load_tab (\<lambda>_. Some (js ''abc''))" and ?cfg = "Filesystem \<lparr>fs_paths = [js ''/etc''], fs_excludes = []\<rparr>"
  obtain eh ep where "encoded (js ''db1'') = Inr eh" "encoded (js ''filesystem'') = Inr ep"
    using encoded_well_formed well_formed_js by blast
  then obtain a where a: "setPluginConfig (js ''db1'') (js ''filesystem'') ?cfg = Inr a"
    "init_headers (call_init a) = []" "init_method (call_init a) = Some (js ''PUT'')"
    by (auto simp: setPluginConfig_def config_path_def)
  let ?s = "dispatch False a ?ini" and ?o = "status_answer 401 None :: unit fetch_outcome"
  obtain w where w: "send (ses_client ?ini) a = Inr w"
    using send_leaves [of "ses_client ?ini" "js ''abc''" a] a by auto
  then have one: "sent ?s \<noteq> []" "sent_wire (sent ?s ! 0) = Inr w" "http_method w \<noteq> js ''GET''"
    using a(3) send_fields(3) [OF w] by (simp_all add: dispatch_def)
  have "console_step ?ini (SendCall a :: unit session_event) ?s"
    using a(1) unfolding console_step_def by (auto intro!: ses_send intro: console_call.intros)
  moreover have "reach session_init (console_step :: session \<Rightarrow> unit session_event \<Rightarrow> session \<Rightarrow> bool) ?ini"
    by (rule reach_init) (auto simp: session_init_def)
  ultimately have r: "reach session_init (console_step :: session \<Rightarrow> unit session_event \<Rightarrow> session \<Rightarrow> bool) ?s"
    by (blast intro: reach_step)
  have "console_step ?s (AnswerCall 0 ?o) (answer_sent 0 ?o ?s)"
    using one(1) unfolding console_step_def by (intro conjI ses_answer) simp_all
  from write_answers_keep_session [OF r this one(2,3)] a(1) show ?thesis by simp
qed

text \<open>
  A 401 on anything that reads ends the app and returns to the connect screen. But nothing
  takes the refused token out of module state or of the storage: reloading the tab opens the app
  with it again.
\<close>

theorem refused_token_survives:
  assumes "reach session_init session_step s" "session_step s (AnswerCall n out) t"
    and "sent_wire (sent s ! n) = Inr w" "\<not> sent_suppress (sent s ! n)"
    and "out = Responded r" "res_status r = 401" "\<not> sent_probe (sent s ! n)"
  shows "\<not> connected t \<and> ses_client t = ses_client s
     \<and> (token (ses_client s) \<noteq> None \<longrightarrow> (\<exists>u. session_step t ReloadTab u \<and> connected u
          \<and> token (ses_client u) = token (ses_client s)))"
proof -
  note inv = tab.reach_inv [OF assms(1)]
  have "t = answer_sent n out s" using assms(2) by (auto elim: ses_answer_cases)
  then have t: "t = setConnected False (forget n s)"
    using assms(3-7) by (simp add: answer_other [OF inv] drops_def)
  have "\<exists>u. session_step t ReloadTab u \<and> connected u \<and> token (ses_client u) = token (ses_client s)"
    if "token (ses_client s) \<noteq> None"
  proof -
  from that have "connected (load_tab (storage (ses_client t)))"
    "token (ses_client (load_tab (storage (ses_client t)))) = token (ses_client s)"
    using inv_storage [OF inv] by (simp_all add: t)
  then show ?thesis using ses_reload by blast
  qed
  moreover have "\<not> connected t" "ses_client t = ses_client s" by (simp_all add: t)
  ultimately show ?thesis by blast
qed

lemma sample_read:
  assumes "connected s" "token (ses_client s) = Some t" "header_token t"
  shows "\<exists>w. sent (dispatch False listHosts s)
     = sent s @ [\<lparr>sent_probe = False, sent_suppress = False, sent_token = Some t, sent_wire = Inr w\<rparr>]"
  using send_leaves [OF assms(2,3), of listHosts] assms(2) by (auto simp: dispatch_def listHosts_def)

theorem refused_token_survives_witness:
  "\<exists>t u. \<not> connected t \<and> session_step t (ReloadTab :: unit session_event) u \<and> connected u
     \<and> token (ses_client u) = Some (js ''abc'')"
proof -
  let ?ini = "load_tab (\<lambda>_. Some (js ''abc''))" and ?o = "status_answer 401 None :: unit fetch_outcome"
  let ?s = "dispatch False listHosts ?ini"
  have r: "reach session_init session_step ?s"
    by (rule reach_step [OF reach_load]) (rule ses_send, simp)
  obtain w where w: "sent ?s = [\<lparr>sent_probe = False, sent_suppress = False,
      sent_token = Some (js ''abc''), sent_wire = Inr w\<rparr>]"
    using sample_read [of ?ini "js ''abc''"] by auto
  then have "session_step ?s (AnswerCall 0 ?o) (answer_sent 0 ?o ?s)" by (intro ses_answer) simp
  note th = refused_token_survives [OF r this, of w "\<lparr>res_status = 401, res_statusText = [], res_error = NotJson, res_value = None\<rparr>"]
  have "\<not> connected (answer_sent 0 ?o ?s) \<and> (\<exists>u. session_step (answer_sent 0 ?o ?s) (ReloadTab :: unit session_event) u
       \<and> connected u \<and> token (ses_client u) = token (ses_client ?s))"
    using th by (auto simp: w status_answer_def)
  then show ?thesis by auto
qed

text \<open>
  A 401 is not matched with the token that earned it: the answer to a read sent with an older
  token ends a session that was opened since with another, accepted token.
\<close>

theorem late_401_ends_new_session:
  assumes "reach session_init session_step s" "connected s" "n < length (sent s)"
    and "\<not> sent_suppress (sent s ! n)" "sent_wire (sent s ! n) = Inr w"
    and "sent_token (sent s ! n) \<noteq> token (ses_client s)"
    and "session_step s (AnswerCall n (Responded r)) t" "res_status r = 401"
  shows "\<not> connected t \<and> token (ses_client t) = token (ses_client s)"
proof -
  note inv = tab.reach_inv [OF assms(1)]
  have t: "t = answer_sent n (Responded r) s" using assms(7) by (auto elim: ses_answer_cases)
  have "\<not> sent_probe (sent s ! n)"
    using probe_answered(1) [OF inv assms(3)] assms(6) by (auto simp: unproven_def)
  then show ?thesis using assms(4,5,8) by (simp add: t answer_other [OF inv] drops_def)
qed

theorem late_401_ends_new_session_witness:
  "\<exists>s t. connected s \<and> token (ses_client s) = Some (js ''xyz'')
     \<and> session_step s (AnswerCall 0 (status_answer 401 None :: unit fetch_outcome)) t \<and> \<not> connected t"
proof -
  let ?a = "load_tab (\<lambda>_. Some (js ''abc''))" and ?x = "js ''xyz''"
  let ?b = "dispatch False listHosts ?a"
  let ?c = "(disconnect ?b)\<lparr>form_token := ?x\<rparr>"
  let ?d = "handleSubmit ?c"
  let ?ok = "status_answer 200 (Some (Some ())) :: unit fetch_outcome" and ?no = "status_answer 401 None :: unit fetch_outcome"
  let ?e = "answer_sent (Suc 0) ?ok ?d"
  obtain w where b: "sent ?b = [\<lparr>sent_probe = False, sent_suppress = False,
      sent_token = Some (js ''abc''), sent_wire = Inr w\<rparr>]"
    using sample_read [of ?a "js ''abc''"] by auto
  have "form_submitting (disconnect ?b) = False"
    by (simp add: disconnect_def form_submitting_setConnected)
  then have en: "submit_enabled ?c" by (simp add: submit_enabled_def)
  obtain v where v: "send (setToken ?x (ses_client ?c)) listHosts = Inr v"
    using send_leaves [of "setToken ?x (ses_client ?c)" ?x listHosts] by (auto simp: listHosts_def)
  have "sent (disconnect ?b) = sent ?b" by (simp add: disconnect_def)
  then have d: "sent ?d = [\<lparr>sent_probe = False, sent_suppress = False,
      sent_token = Some (js ''abc''), sent_wire = Inr w\<rparr>,
      \<lparr>sent_probe = True, sent_suppress = False, sent_token = Some ?x, sent_wire = Inr v\<rparr>]"
    "\<not> connected ?d" "token (ses_client ?d) = Some ?x"
    unfolding handleSubmit_alt [OF en] using b v by (simp_all add: disconnect_def)
  have con: "\<not> connected (disconnect ?b)" by (simp add: disconnect_def)
  let ?stp = "session_step :: session \<Rightarrow> unit session_event \<Rightarrow> session \<Rightarrow> bool"
  have "reach session_init ?stp ?b" by (rule reach_step [OF reach_load]) (rule ses_send, simp)
  then have "reach session_init ?stp (disconnect ?b)" by (rule reach_step) (rule ses_disconnect, simp)
  then have "reach session_init ?stp ?c" by (rule reach_step) (rule ses_type, rule con)
  then have rd: "reach session_init ?stp ?d" by (rule reach_step) (rule ses_submit [OF _ en], simp add: con)
  have step: "session_step ?d (AnswerCall (Suc 0) ?ok) ?e" by (rule ses_answer) (simp add: d)
  from rd have re: "reach session_init ?stp ?e" by (rule reach_step) (rule step)
  have probe: "sent_probe (sent ?d ! Suc 0)" "call_result ?d (Suc 0) ?ok = Inr (Some ())"
    by (simp_all add: d call_result_def status_answer_def request_finish_def res_ok_def)
  note p = answer_probe(1,2) [OF tab.reach_inv [OF rd] probe(1), of ?ok, unfolded probe(2)]
  have se: "sent ?e = [\<lparr>sent_probe = False, sent_suppress = False,
      sent_token = Some (js ''abc''), sent_wire = Inr w\<rparr>]"
    using probe by (simp add: answer_sent_alt [OF tab.reach_inv [OF rd]] Let_def connect_finish_simps d)
  have ce: "connected ?e" "token (ses_client ?e) = Some ?x" using p d(3) by simp_all
  have last: "session_step ?e (AnswerCall 0 ?no) (answer_sent 0 ?no ?e)" by (rule ses_answer) (simp add: se)
  have "\<not> connected (answer_sent 0 ?no ?e) \<and> token (ses_client (answer_sent 0 ?no ?e)) = token (ses_client ?e)"
    by (rule late_401_ends_new_session [OF re ce(1) _ _ _ _ last [unfolded status_answer_def [of 401]], folded status_answer_def])
      (simp_all add: se ce)
  with ce last show ?thesis by blast
qed

text \<open>
  Reloading a tab opens the app exactly when a token is held, and holding one is no proof that
  it was ever accepted: while a pasted token is still being probed, a reload already opens the app
  with it.
\<close>

theorem reload_trusts_stored_token:
  assumes "reach session_init session_step s" "session_step s (ReloadTab :: 'v session_event) t"
  shows "(connected t \<longleftrightarrow> token (ses_client s) \<noteq> None) \<and> token (ses_client t) = token (ses_client s)
     \<and> (sent_probe p \<and> p \<in> set (sent s) \<longrightarrow> \<not> connected s \<and> connected t)"
proof -
  note inv = tab.reach_inv [OF assms(1)]
  have t: "t = load_tab (storage (ses_client s))" using assms(2) by cases auto
  have held: "connected t \<longleftrightarrow> token (ses_client s) \<noteq> None" "token (ses_client t) = token (ses_client s)"
    using inv_storage [OF inv] by (simp_all add: t)
  have "\<not> connected s \<and> connected t" if "sent_probe p" "p \<in> set (sent s)"
  proof -
    from that have "probes s \<noteq> []" by (auto simp: probes_def filter_empty_conv)
    then obtain q where "unproven s q" using inv by (auto simp: session_inv_def)
    then show ?thesis using inv_storage [OF inv] by (auto simp: t unproven_def)
  qed
  with held show ?thesis by blast
qed

theorem reload_trusts_stored_token_witness:
  "\<not> connected (connecting (js ''abc''))
     \<and> connected (load_tab (storage (ses_client (connecting (js ''abc'')))))"
proof -
  note c = connecting [of "js ''abc''", simplified]
  obtain w where w: "sent (connecting (js ''abc'')) = [\<lparr>sent_probe = True, sent_suppress = False,
      sent_token = Some (js ''abc''), sent_wire = Inr w\<rparr>]" using c(5) by blast
  let ?p = "sent (connecting (js ''abc'')) ! 0"
  have "sent_probe ?p" "?p \<in> set (sent (connecting (js ''abc'')))" by (simp_all add: w)
  then show ?thesis
    using reload_trusts_stored_token [where 'v = unit, OF c(1) ses_reload, of ?p] by blast
qed

end
