(* ===== verification/WriteAction.thy ===== *)
theory WriteAction
  imports Client
begin

text \<open>
  The contract of the two write forms, \<open>TriggerBackupModal\<close> and the configuration forms: while
  the request runs the form is busy and shows no error, and every way the request can end leaves
  it idle, with an error exactly when the request failed. A 401 is explained as a missing write
  scope, an \<open>ApiError\<close> by its message, anything else as an unreachable controller. The texts
  are each form's own; what they have in common is proved once, in the locale.
\<close>

definition explains :: "jsstr \<Rightarrow> jsstr \<Rightarrow> (exn \<Rightarrow> jsstr) \<Rightarrow> bool" where
  "explains denied unreachable f \<longleftrightarrow> f OtherError = unreachable
     \<and> (\<forall>st m. f (ApiError st m) = (if st = 401 then denied else m))"

locale write_action =
  fixes start :: "'s \<Rightarrow> 's" and finish :: "'r result \<Rightarrow> 's \<Rightarrow> 's"
    and busy :: "'s \<Rightarrow> bool" and failure :: "'s \<Rightarrow> jsstr option"
    and message :: "exn \<Rightarrow> jsstr" and denied :: jsstr and unreachable :: jsstr
  assumes start_busy: "busy (start s)" and start_clean: "failure (start s) = None"
    and finish_idle: "\<not> busy (finish r s)"
    and finish_failed: "failure (finish (Inl e) s) = Some (message e)"
    and finish_done: "failure (finish (Inr v) s) = failure s"
    and message_explains: "explains denied unreachable message"
begin

lemma outcome:
  "\<not> busy (finish r (start s))"
  "failure (finish r (start s)) = (case r of Inl e \<Rightarrow> Some (message e) | Inr v \<Rightarrow> None)"
  using finish_idle finish_failed finish_done start_clean by (auto split: sum.splits)

lemma explained:
  "failure (finish r (start s)) = (case r of Inr v \<Rightarrow> None
     | Inl (ApiError st m) \<Rightarrow> Some (if st = 401 then denied else m)
     | Inl OtherError \<Rightarrow> Some unreachable)"
  using message_explains by (auto simp: outcome explains_def split: sum.splits exn.splits)

text \<open>A form that shows no error after its request has had its request accepted.\<close>

lemma no_error_accepted: "failure (finish r (start s)) = None \<longleftrightarrow> (\<exists>v. r = Inr v)"
  by (auto simp: outcome split: sum.splits)

end

end
