(* ===== verification/TriggerModal.thy ===== *)
theory TriggerModal
  imports WriteAction
begin

text \<open>
  \<open>web/src/components/TriggerBackupModal.tsx\<close>: the dialog that queues a backup by hand. The
  component stays mounted while its page does; \<open>open\<close> and \<open>hosts\<close> are props. The state here is
  the component's, the two props and the requests on their way. Effects run after the render in
  which their dependency changed, so each handler is followed by the effects it triggers.
\<close>

section \<open>State\<close>

record modal =
  md_open :: bool
  md_hosts :: "host list"
  md_host :: jsstr
  md_plugin :: jsstr
  md_submitting :: bool
  md_error :: "jsstr option"
  md_queued :: "jsstr option"
  md_pending :: "api_call list"

text \<open>\<open>hosts[0]?.name ?? ''\<close> and \<open>hosts[0]?.plugins[0] ?? ''\<close>.\<close>

definition first_host :: "host list \<Rightarrow> jsstr" where
  "first_host hs = (case hs of [] \<Rightarrow> [] | h # _ \<Rightarrow> host_name h)"

definition first_plugin :: "host list \<Rightarrow> jsstr" where
  "first_plugin hs = (case hs of [] \<Rightarrow> [] | h # _ \<Rightarrow> (case host_plugins h of [] \<Rightarrow> [] | p # _ \<Rightarrow> p))"

definition selectedHost :: "modal \<Rightarrow> host option" where
  "selectedHost m = List.find (\<lambda>h. host_name h = md_host m) (md_hosts m)"

definition plugins :: "modal \<Rightarrow> jsstr list" where
  "plugins m = (case selectedHost m of None \<Rightarrow> [] | Some h \<Rightarrow> host_plugins h)"

section \<open>Effects\<close>

definition reset_effect :: "modal \<Rightarrow> modal" where
  "reset_effect m = (if md_open m
     then m\<lparr>md_host := first_host (md_hosts m), md_plugin := first_plugin (md_hosts m),
            md_submitting := False, md_error := None, md_queued := None\<rparr>
     else m)"

definition host_effect :: "modal \<Rightarrow> modal" where
  "host_effect m =
     (if plugins m \<noteq> [] \<and> md_plugin m \<notin> set (plugins m) then m\<lparr>md_plugin := hd (plugins m)\<rparr> else m)"

section \<open>Handlers\<close>

definition modal_mount :: "host list \<Rightarrow> modal" where
  "modal_mount hs = host_effect
     \<lparr>md_open = False, md_hosts = hs, md_host = first_host hs, md_plugin = first_plugin hs,
      md_submitting = False, md_error = None, md_queued = None, md_pending = []\<rparr>"

text \<open>The page sets \<open>open\<close>: the reset effect runs, then the host effect if the host changed.\<close>

definition set_open :: "bool \<Rightarrow> modal \<Rightarrow> modal" where
  "set_open b m =
     (if b = md_open m then m
      else (let m1 = reset_effect (m\<lparr>md_open := b\<rparr>)
            in if md_host m1 \<noteq> md_host m then host_effect m1 else m1))"

definition setHost :: "jsstr \<Rightarrow> modal \<Rightarrow> modal" where
  "setHost v m = (if v = md_host m then m else host_effect (m\<lparr>md_host := v\<rparr>))"

definition setPlugin :: "jsstr \<Rightarrow> modal \<Rightarrow> modal" where
  "setPlugin v m = m\<lparr>md_plugin := v\<rparr>"

definition TRIGGER_DENIED :: jsstr where
  "TRIGGER_DENIED = js ''This token can't trigger backups. Reconnect with a write token to do this.''"

definition TRIGGER_UNREACHED :: jsstr where
  "TRIGGER_UNREACHED = js ''Could not reach the controller.''"

fun trigger_error :: "exn \<Rightarrow> jsstr" where
  "trigger_error (ApiError st m) = (if st = 401 then TRIGGER_DENIED else m)"
| "trigger_error OtherError = TRIGGER_UNREACHED"

definition trigger_start :: "modal \<Rightarrow> modal" where
  "trigger_start m = m\<lparr>md_submitting := True, md_error := None\<rparr>"

definition trigger_submit :: "modal \<Rightarrow> modal" where
  "trigger_submit m =
     (if md_host m = [] \<or> md_plugin m = [] then m
      else (trigger_start m)\<lparr>md_pending := md_pending m @
             [triggerBackup \<lparr>req_host = md_host m, req_plugin = md_plugin m\<rparr>]\<rparr>)"

text \<open>After \<open>await api.triggerBackup\<close>; reading \<open>id\<close> of a body that is no object throws.\<close>

definition trigger_finish :: "job option result \<Rightarrow> modal \<Rightarrow> modal" where
  "trigger_finish r m =
     (let m1 = (case r of
          Inr (Some j) \<Rightarrow> m\<lparr>md_queued := Some (job_id j)\<rparr>
        | Inr None \<Rightarrow> m\<lparr>md_error := Some TRIGGER_UNREACHED\<rparr>
        | Inl e \<Rightarrow> m\<lparr>md_error := Some (trigger_error e)\<rparr>)
      in m1\<lparr>md_submitting := False\<rparr>)"

definition answer_trigger :: "nat \<Rightarrow> job option result \<Rightarrow> modal \<Rightarrow> modal" where
  "answer_trigger n r m =
     trigger_finish r (m\<lparr>md_pending := take n (md_pending m) @ drop (Suc n) (md_pending m)\<rparr>)"

text \<open>What the open dialog shows: the confirmation, or the form with its button.\<close>

datatype modal_screen = Closed | QueuedView jsstr | FormView "jsstr option" bool

definition modal_view :: "modal \<Rightarrow> modal_screen" where
  "modal_view m =
     (if \<not> md_open m then Closed
      else if truthy (md_queued m) then QueuedView (the (md_queued m))
      else FormView (if truthy (md_error m) then md_error m else None)
             (\<not> (md_submitting m \<or> md_host m = [] \<or> md_plugin m = [])))"

text \<open>
  The dialog in full: headings and texts, the two selects as options and value, the alert and the
  buttons. A select whose value is none of its options keeps it; the browser then shows another.
\<close>

record select_field =
  sel_label :: jsstr
  sel_value :: jsstr
  sel_options :: "jsstr list"

datatype dialog = QueuedDialog jsstr "jsstr list" "button list"
  | TriggerDialog jsstr jsstr "select_field list" "jsstr option" "button list"

definition trigger_button :: "modal \<Rightarrow> button" where
  "trigger_button m =
     \<lparr>btn_text = (if md_submitting m then js ''Queuing'' @ ELLIPSIS else js ''Trigger backup''),
      btn_enabled = (\<not> (md_submitting m \<or> md_host m = [] \<or> md_plugin m = []))\<rparr>"

definition dialog_view :: "modal \<Rightarrow> dialog option" where
  "dialog_view m = (case modal_view m of
       Closed \<Rightarrow> None
     | QueuedView i \<Rightarrow> Some (QueuedDialog (js ''Backup queued'')
         [js ''Job '', i, js '' is queued for the controller'' @ [cu 39] @ js ''s next open slot.'']
         [\<lparr>btn_text = js ''Close'', btn_enabled = True\<rparr>, \<lparr>btn_text = js ''View job'', btn_enabled = True\<rparr>])
     | FormView alert en \<Rightarrow> Some (TriggerDialog (js ''Trigger a backup'')
         (js ''Runs immediately, outside the regular schedule.'')
         [\<lparr>sel_label = js ''Host'', sel_value = md_host m, sel_options = map host_name (md_hosts m)\<rparr>,
          \<lparr>sel_label = js ''Plugin'', sel_value = md_plugin m, sel_options = plugins m\<rparr>]
         alert [\<lparr>btn_text = js ''Cancel'', btn_enabled = True\<rparr>, trigger_button m]))"

text \<open>\<open>navigate(`/jobs/${encodeURIComponent(queuedJobId)}`)\<close>.\<close>

definition view_job_path :: "jsstr \<Rightarrow> jsstr result" where
  "view_job_path i = bind_result (encoded i) (\<lambda>e. Inr (js ''/jobs/'' @ e))"

section \<open>Steps\<close>

datatype modal_event = OpenModal | CloseModal | HostsLoaded "host list" | PickHost jsstr | PickPlugin jsstr
  | SubmitTrigger | AnswerTrigger nat "job option result"

text \<open>
  Both pages disable the opening button until there are hosts, and fetch the hosts once, without
  polling: the hosts only change while the dialog is closed. The selects offer the hosts, and the
  plugins of the selected one.
\<close>

inductive modal_step :: "modal \<Rightarrow> modal_event \<Rightarrow> modal \<Rightarrow> bool" where
  modal_open: "md_hosts m \<noteq> [] \<Longrightarrow> modal_step m OpenModal (set_open True m)"
| modal_close: "md_open m \<Longrightarrow> modal_step m CloseModal (set_open False m)"
| modal_hosts: "\<not> md_open m \<Longrightarrow> modal_step m (HostsLoaded hs) (m\<lparr>md_hosts := hs\<rparr>)"
| modal_host: "modal_view m = FormView er en \<Longrightarrow> v \<in> host_name ` set (md_hosts m) \<Longrightarrow>
    modal_step m (PickHost v) (setHost v m)"
| modal_plugin: "modal_view m = FormView er en \<Longrightarrow> v \<in> set (plugins m) \<Longrightarrow>
    modal_step m (PickPlugin v) (setPlugin v m)"
| modal_submit: "modal_view m = FormView er True \<Longrightarrow> modal_step m SubmitTrigger (trigger_submit m)"
| modal_answer: "n < length (md_pending m) \<Longrightarrow> modal_step m (AnswerTrigger n r) (answer_trigger n r m)"

inductive_cases modal_answer_cases: "modal_step m (AnswerTrigger n r) t"

definition modal_init :: "modal \<Rightarrow> bool" where
  "modal_init m \<longleftrightarrow> (\<exists>hs. m = modal_mount hs)"

section \<open>The write contract\<close>

interpretation trigger: write_action trigger_start "\<lambda>r. trigger_finish (map_sum id Some r)"
    md_submitting md_error trigger_error TRIGGER_DENIED TRIGGER_UNREACHED
  by unfold_locales (simp_all add: explains_def trigger_start_def trigger_finish_def)

section \<open>The selection\<close>

lemma modal_simps [simp]:
  "md_open (host_effect m) = md_open m" "md_hosts (host_effect m) = md_hosts m"
  "md_host (host_effect m) = md_host m" "md_pending (host_effect m) = md_pending m"
  "md_open (setHost v m) = md_open m" "md_hosts (setHost v m) = md_hosts m" "md_host (setHost v m) = v"
  "md_pending (setHost v m) = md_pending m"
  "md_open (trigger_finish r m) = md_open m" "md_hosts (trigger_finish r m) = md_hosts m"
  "md_host (trigger_finish r m) = md_host m" "md_plugin (trigger_finish r m) = md_plugin m"
  "md_pending (trigger_finish r m) = md_pending m" "md_submitting (trigger_finish r m) = False"
  by (simp_all add: host_effect_def setHost_def trigger_finish_def Let_def split: sum.splits option.splits)

lemma trigger_submit_simps [simp]:
  "md_open (trigger_submit m) = md_open m" "md_hosts (trigger_submit m) = md_hosts m"
  "md_host (trigger_submit m) = md_host m" "md_plugin (trigger_submit m) = md_plugin m"
  by (simp_all add: trigger_submit_def trigger_start_def)

text \<open>Everything about the selection reads only the hosts and the two fields.\<close>

lemma selectedHost_cong:
  "md_hosts a = md_hosts b \<Longrightarrow> md_host a = md_host b \<Longrightarrow> selectedHost a = selectedHost b \<and> plugins a = plugins b"
  by (simp add: selectedHost_def plugins_def)

lemma plugins_update [simp]:
  "plugins (m\<lparr>md_plugin := v\<rparr>) = plugins m" "plugins (host_effect m) = plugins m"
  "plugins (trigger_submit m) = plugins m" "plugins (trigger_finish r m) = plugins m"
  "plugins (m\<lparr>md_pending := ps\<rparr>) = plugins m"
  by (simp_all add: selectedHost_cong plugins_def selectedHost_def)

lemma host_effect_selects: "plugins m \<noteq> [] \<Longrightarrow> md_plugin (host_effect m) \<in> set (plugins m)"
  by (simp add: host_effect_def)

lemma plugins_of_known_host:
  assumes "md_host m \<in> host_name ` set (md_hosts m)" "list_all (\<lambda>h. host_plugins h \<noteq> []) (md_hosts m)"
  shows "plugins m \<noteq> []"
proof -
  have "selectedHost m \<noteq> None" using assms(1) by (auto simp: selectedHost_def find_None_iff)
  then obtain h where h: "selectedHost m = Some h" by blast
  then have "h \<in> set (md_hosts m)" by (auto simp: selectedHost_def find_Some_iff)
  with assms(2) h show ?thesis by (simp add: plugins_def list_all_iff)
qed

definition modal_inv :: "modal \<Rightarrow> bool" where
  "modal_inv m \<longleftrightarrow> (md_open m \<longrightarrow> list_all (\<lambda>h. host_plugins h \<noteq> []) (md_hosts m) \<longrightarrow>
     md_host m \<in> host_name ` set (md_hosts m) \<and> md_plugin m \<in> set (plugins m))"

lemma open_selects:
  assumes "md_hosts m \<noteq> []" "list_all (\<lambda>h. host_plugins h \<noteq> []) (md_hosts m)" "\<not> md_open m"
  shows "md_host (set_open True m) \<in> host_name ` set (md_hosts m)
    \<and> md_plugin (set_open True m) \<in> set (plugins (set_open True m))"
proof -
  obtain h hs p ps where h: "md_hosts m = h # hs" "host_plugins h = p # ps"
    using assms(1,2) by (cases "md_hosts m"; cases "host_plugins (hd (md_hosts m))") auto
  let ?r = "reset_effect (m\<lparr>md_open := True\<rparr>)"
  have r: "md_host ?r = host_name h" "md_plugin ?r = p" "plugins ?r = p # ps"
    using h by (simp_all add: reset_effect_def first_host_def first_plugin_def plugins_def selectedHost_def)
  then have "host_effect ?r = ?r" by (simp add: host_effect_def)
  then have "set_open True m = ?r" using assms(3) by (simp add: set_open_def Let_def)
  then show ?thesis using r h by simp
qed

lemma modal_inv_step: "modal_step m e t \<Longrightarrow> modal_inv m \<Longrightarrow> modal_inv t"
proof (induction rule: modal_step.induct)
  case (modal_open m)
  show ?case
  proof (cases "md_open m")
    case True
    with modal_open show ?thesis by (simp add: set_open_def)
  next
    case False
    have "md_hosts (set_open True m) = md_hosts m" by (simp add: set_open_def Let_def reset_effect_def)
    with open_selects [OF modal_open(1) _ False] show ?thesis by (simp add: modal_inv_def)
  qed
next
  case (modal_close m)
  then show ?case by (simp add: modal_inv_def set_open_def Let_def reset_effect_def)
next
  case (modal_host m er en v)
  show ?case
  proof (cases "v = md_host m")
    case True
    with modal_host show ?thesis by (simp add: setHost_def)
  next
    case False
    have "list_all (\<lambda>h. host_plugins h \<noteq> []) (md_hosts m) \<Longrightarrow> plugins (m\<lparr>md_host := v\<rparr>) \<noteq> []"
      by (rule plugins_of_known_host) (use modal_host in auto)
    with False modal_host(2) show ?thesis
      using host_effect_selects [of "m\<lparr>md_host := v\<rparr>"] by (auto simp: modal_inv_def setHost_def)
  qed
qed (auto simp: modal_inv_def setPlugin_def answer_trigger_def)

lemma modal_inv_mount: "modal_inv (modal_mount hs)"
  by (simp add: modal_inv_def modal_mount_def)

interpretation modal: transition_system modal_step modal_inv modal_init
  by unfold_locales (auto simp: modal_init_def modal_inv_mount intro: modal_inv_step)

lemma reach_modal_mount: "reach modal_init modal_step (modal_mount hs)"
  by (rule reach_init) (auto simp: modal_init_def)

lemma set_open_fresh:
  assumes "\<not> md_open m"
  shows "md_open (set_open True m)" "md_hosts (set_open True m) = md_hosts m"
    "md_host (set_open True m) = first_host (md_hosts m)" "md_pending (set_open True m) = md_pending m"
    "\<not> md_submitting (set_open True m)" "md_error (set_open True m) = None" "md_queued (set_open True m) = None"
  using assms by (simp_all add: set_open_def reset_effect_def host_effect_def Let_def)

text \<open>A dialog opened over a given list of hosts.\<close>

definition opened :: "host list \<Rightarrow> modal" where
  "opened hs = set_open True (modal_mount hs)"

lemma modal_mount_simps [simp]:
  "\<not> md_open (modal_mount hs)" "md_hosts (modal_mount hs) = hs" "md_pending (modal_mount hs) = []"
  by (simp_all add: modal_mount_def)

lemma reach_opened: "hs \<noteq> [] \<Longrightarrow> reach modal_init modal_step (opened hs)"
  unfolding opened_def by (rule reach_step [OF reach_modal_mount]) (rule modal_open, simp)

definition sample_hosts :: "host list" where
  "sample_hosts =
     [\<lparr>host_name = js ''db1'', host_host = js ''10.0.0.1'', host_plugins = [js ''postgres''], host_schedule = []\<rparr>,
      \<lparr>host_name = js ''new'', host_host = js ''10.0.0.2'', host_plugins = [], host_schedule = []\<rparr>]"

lemma opened_sample:
  "md_host (opened sample_hosts) = js ''db1''" "md_plugin (opened sample_hosts) = js ''postgres''"
  "md_open (opened sample_hosts)" "md_hosts (opened sample_hosts) = sample_hosts"
  "md_pending (opened sample_hosts) = []" "plugins (opened sample_hosts) = [js ''postgres'']"
  "modal_view (opened sample_hosts) = FormView None True"
  by (simp_all add: opened_def modal_mount_def set_open_def reset_effect_def host_effect_def Let_def
      first_host_def first_plugin_def sample_hosts_def plugins_def selectedHost_def modal_view_def)

section \<open>The render loop\<close>

text \<open>
  What React does with the two effects, step by step: after a render the effects whose dependency
  differs from the render before run, on the values of that render, and what they set is rendered
  next, until nothing changes. The handlers above take this loop in one pass.
\<close>

definition commit_effects :: "modal \<Rightarrow> modal \<Rightarrow> modal" where
  "commit_effects before now =
     (let m1 = (if md_open now \<noteq> md_open before then reset_effect now else now)
      in if md_host now \<noteq> md_host before \<and> plugins now \<noteq> [] \<and> md_plugin now \<notin> set (plugins now)
         then m1\<lparr>md_plugin := hd (plugins now)\<rparr> else m1)"

partial_function (option) render_loop :: "modal \<Rightarrow> modal \<Rightarrow> modal option" where
  "render_loop before now =
     (let after = commit_effects before now
      in if after = now then Some now else render_loop now after)"

lemma commit_same: "md_open now = md_open before \<Longrightarrow> md_host now = md_host before \<Longrightarrow> commit_effects before now = now"
  by (simp add: commit_effects_def)

lemma commit_host: "md_open now = md_open before \<Longrightarrow> md_host now \<noteq> md_host before \<Longrightarrow> commit_effects before now = host_effect now"
  by (simp add: commit_effects_def host_effect_def)

lemma commit_open: "md_open now \<noteq> md_open before \<Longrightarrow> md_host now = md_host before \<Longrightarrow> commit_effects before now = reset_effect now"
  by (simp add: commit_effects_def)

lemma commit_keeps: "md_open (commit_effects before now) = md_open now"
  by (simp add: commit_effects_def reset_effect_def Let_def)

lemma render_idle: "md_open now = md_open before \<Longrightarrow> md_host now = md_host before \<Longrightarrow> render_loop before now = Some now"
  by (subst render_loop.simps) (simp add: commit_same)

lemma render_host:
  assumes "md_open now = md_open before" "md_host now \<noteq> md_host before"
  shows "render_loop before now = Some (host_effect now)"
proof -
  have "md_open (host_effect now) = md_open now" "md_host (host_effect now) = md_host now"
    by (simp_all add: host_effect_def)
  from render_idle [OF this] show ?thesis
    by (subst render_loop.simps) (simp add: commit_host [OF assms] Let_def)
qed

lemma render_settled: "md_open now = md_open before \<Longrightarrow>
    render_loop before now = Some (if md_host now = md_host before then now else host_effect now)"
  using render_idle render_host by simp

section \<open>Properties\<close>

text \<open>
  Triggering a backup asks for exactly the host and the plugin on screen, and every way the
  request can end is said: the button is free again; the new job's id is shown if there is one;
  otherwise the selection stays and the error explains a 401 as a missing write scope, an
  \<open>ApiError\<close> by its message and anything else as an unreachable controller.
\<close>

theorem trigger_outcome:
  assumes "modal_view m = FormView er True" "modal_step m SubmitTrigger u"
    and "modal_step u (AnswerTrigger (length (md_pending m)) r) t"
  shows "md_pending u = md_pending m @ [triggerBackup \<lparr>req_host = md_host m, req_plugin = md_plugin m\<rparr>]
    \<and> md_submitting u \<and> \<not> md_submitting t
    \<and> md_host t = md_host m \<and> md_plugin t = md_plugin m \<and> md_pending t = md_pending m
    \<and> md_queued t = (case r of Inr (Some j) \<Rightarrow> Some (job_id j) | _ \<Rightarrow> md_queued m)
    \<and> md_error t = (case r of Inr (Some j) \<Rightarrow> None
      | Inl (ApiError st msg) \<Rightarrow> Some (if st = 401 then TRIGGER_DENIED else msg) | _ \<Rightarrow> Some TRIGGER_UNREACHED)"
proof -
  have sel: "md_host m \<noteq> []" "md_plugin m \<noteq> []"
    using assms(1) by (auto simp: modal_view_def split: if_splits)
  have "u = trigger_submit m" using assms(2) by cases auto
  then have u: "u = (trigger_start m)\<lparr>md_pending := md_pending m @
      [triggerBackup \<lparr>req_host = md_host m, req_plugin = md_plugin m\<rparr>]\<rparr>"
    using sel by (simp add: trigger_submit_def)
  then have sent: "md_pending u = md_pending m @ [triggerBackup \<lparr>req_host = md_host m, req_plugin = md_plugin m\<rparr>]"
    "md_submitting u" by (simp_all add: trigger_start_def)
  have "t = answer_trigger (length (md_pending m)) r u" using assms(3) by (auto elim: modal_answer_cases)
  moreover have "md_pending m = md_pending (trigger_start m)" by (simp add: trigger_start_def)
  ultimately have t: "t = trigger_finish r (trigger_start m)" by (simp add: answer_trigger_def u)
  have settled: "\<not> md_submitting t" "md_host t = md_host m \<and> md_plugin t = md_plugin m \<and> md_pending t = md_pending m"
    "md_queued t = (case r of Inr (Some j) \<Rightarrow> Some (job_id j) | _ \<Rightarrow> md_queued m)"
    by (simp_all add: t) (simp_all add: trigger_start_def trigger_finish_def split: sum.splits option.splits)
  have "md_error t = (case r of Inr (Some j) \<Rightarrow> None
      | Inl (ApiError st msg) \<Rightarrow> Some (if st = 401 then TRIGGER_DENIED else msg) | _ \<Rightarrow> Some TRIGGER_UNREACHED)"
  proof (cases "r = Inr None")
    case True
    then show ?thesis by (simp add: t trigger_finish_def)
  next
    case False
    then obtain q where "r = map_sum id Some q" by (cases r) (auto intro: that [of "Inl _"] that [of "Inr _"])
    with trigger.explained [of q m] show ?thesis
      by (cases q) (simp_all add: t split: exn.splits)
  qed
  with sent settled show ?thesis by blast
qed

theorem trigger_outcome_witness:
  "md_error (answer_trigger 0 (Inl (ApiError 401 [])) (trigger_submit (opened sample_hosts))) = Some TRIGGER_DENIED"
proof -
  let ?m = "opened sample_hosts"
  note o = opened_sample
  have s: "modal_step ?m SubmitTrigger (trigger_submit ?m)" by (rule modal_submit) (rule o(7))
  have "md_pending (trigger_submit ?m) \<noteq> []" by (simp add: trigger_submit_def o js_Cons)
  then have "modal_step (trigger_submit ?m) (AnswerTrigger (length (md_pending ?m)) (Inl (ApiError 401 [])))
      (answer_trigger 0 (Inl (ApiError 401 [])) (trigger_submit ?m))"
    using modal_answer [of 0 "trigger_submit ?m"] by (simp add: o(5))
  from trigger_outcome [OF o(7) s this] show ?thesis by simp
qed

text \<open>
  If every host has a plugin, the open dialog always has a known host selected and a plugin of
  that very host, whatever is picked in whatever order, however often it is opened.
\<close>

theorem selection_matches_host:
  assumes "reach modal_init modal_step m" "md_open m" "list_all (\<lambda>h. host_plugins h \<noteq> []) (md_hosts m)"
  shows "\<exists>h\<in>set (md_hosts m). selectedHost m = Some h \<and> host_name h = md_host m
    \<and> md_plugin m \<in> set (host_plugins h)"
proof -
  have "md_plugin m \<in> set (plugins m)"
    using modal.reach_inv [OF assms(1)] assms(2,3) by (simp add: modal_inv_def)
  then obtain h where h: "selectedHost m = Some h" "md_plugin m \<in> set (host_plugins h)"
    by (cases "selectedHost m") (auto simp: plugins_def)
  then show ?thesis by (intro bexI [of _ h]) (auto simp: selectedHost_def find_Some_iff)
qed

theorem selection_matches_host_witness:
  "\<exists>h\<in>set (take 1 sample_hosts). md_plugin (opened (take 1 sample_hosts)) \<in> set (host_plugins h)"
proof -
  let ?hs = "take 1 sample_hosts"
  have "reach modal_init modal_step (opened ?hs)" by (rule reach_opened) (simp add: sample_hosts_def)
  moreover have "md_open (opened ?hs)" "md_hosts (opened ?hs) = ?hs"
    by (simp_all add: opened_def set_open_fresh)
  moreover have "list_all (\<lambda>h. host_plugins h \<noteq> []) ?hs" by (simp add: sample_hosts_def)
  ultimately show ?thesis using selection_matches_host [of "opened ?hs"] by auto
qed

text \<open>
  A host without plugins keeps the plugin of the host selected before it: the plugin select is
  empty, but the button is enabled, and pressing it asks for a backup of that host with a plugin it
  does not have.
\<close>

theorem pluginless_host_keeps_foreign_plugin:
  assumes "modal_view m = FormView er en" "g \<in> set (md_hosts m)" "host_plugins g = []" "host_name g \<noteq> []"
    and "List.find (\<lambda>h. host_name h = host_name g) (md_hosts m) = Some g"
    and "md_host m \<noteq> host_name g" "md_plugin m \<noteq> []" "\<not> md_submitting m"
    and "modal_step m (PickHost (host_name g)) u" "modal_step u SubmitTrigger t"
  shows "plugins u = [] \<and> (\<exists>e. modal_view u = FormView e True)
    \<and> last (md_pending t) = triggerBackup \<lparr>req_host = host_name g, req_plugin = md_plugin m\<rparr>"
proof -
  let ?m = "m\<lparr>md_host := host_name g\<rparr>"
  have none: "plugins ?m = []" using assms(3,5) by (simp add: plugins_def selectedHost_def)
  have "u = setHost (host_name g) m" using assms(9) by cases auto
  then have u: "u = ?m" using none assms(6) by (simp add: setHost_def host_effect_def)
  have "t = trigger_submit u" using assms(10) by cases auto
  then have "last (md_pending t) = triggerBackup \<lparr>req_host = host_name g, req_plugin = md_plugin m\<rparr>"
    using assms(4,7) by (simp add: u trigger_submit_def trigger_start_def)
  moreover have "\<exists>e. modal_view u = FormView e True"
    using assms(1,4,7,8) by (auto simp: u modal_view_def split: if_splits)
  ultimately show ?thesis using none u by blast
qed

theorem pluginless_host_keeps_foreign_plugin_witness:
  "\<exists>t :: modal. last (md_pending t) = triggerBackup \<lparr>req_host = js ''new'', req_plugin = js ''postgres''\<rparr>"
proof -
  let ?m = "opened sample_hosts" and ?g = "sample_hosts ! 1"
  note o = opened_sample
  have g: "host_name ?g = js ''new''" "host_plugins ?g = []" "?g \<in> set sample_hosts"
    "List.find (\<lambda>h. host_name h = host_name ?g) sample_hosts = Some ?g"
    by (simp_all add: sample_hosts_def)
  have st: "modal_step ?m (PickHost (host_name ?g)) (setHost (host_name ?g) ?m)"
    by (rule modal_host [OF o(7)]) (use g(3) o(4) in \<open>simp del: One_nat_def\<close>)
  let ?u = "setHost (host_name ?g) ?m"
  have "?u = ?m\<lparr>md_host := js ''new''\<rparr>"
    by (simp add: setHost_def host_effect_def g o plugins_def selectedHost_def) (simp add: sample_hosts_def)
  then have "modal_view ?u = FormView None True"
    using o(7) by (auto simp: modal_view_def split: if_splits)
  then have st2: "modal_step ?u SubmitTrigger (trigger_submit ?u)" by (rule modal_submit)
  have ns: "\<not> md_submitting ?m" using o(7) by (auto simp: modal_view_def split: if_splits)
  have "last (md_pending (trigger_submit ?u)) = triggerBackup \<lparr>req_host = host_name ?g, req_plugin = md_plugin ?m\<rparr>"
    using pluginless_host_keeps_foreign_plugin [OF o(7) _ _ _ _ _ _ ns st st2] g o by simp
  then show ?thesis unfolding g o by blast
qed

text \<open>
  A request belongs to no particular opening of the dialog. Closed and opened again while it
  runs, the dialog is reset and can send a second request; the answer to the first then turns the
  fresh form into the confirmation of the earlier job, with the button of the second request freed
  while that is still running.
\<close>

theorem late_answer_in_reopened_dialog:
  assumes "modal_view m = FormView er True" "md_pending m = []" "first_host (md_hosts m) \<noteq> []"
    and "first_plugin (md_hosts m) \<noteq> []" "job_id j \<noteq> []"
    and "run modal_step m [SubmitTrigger, CloseModal, OpenModal] u"
    and "run modal_step u [SubmitTrigger, AnswerTrigger 0 (Inr (Some j))] t"
  shows "modal_view u = FormView None True \<and> modal_view t = QueuedView (job_id j)
    \<and> \<not> md_submitting t
    \<and> md_pending t = [triggerBackup \<lparr>req_host = first_host (md_hosts m), req_plugin = md_plugin u\<rparr>]"
proof -
  have m: "md_open m" "md_host m \<noteq> []" "md_plugin m \<noteq> []"
    using assms(1) by (auto simp: modal_view_def split: if_splits)
  let ?a = "trigger_submit m"
  have "u = set_open True (set_open False ?a)"
    using assms(6) by (auto simp: run_Cons_iff elim: modal_step.cases)
  moreover have c: "\<not> md_open (set_open False ?a)" "md_hosts (set_open False ?a) = md_hosts m"
    "md_pending (set_open False ?a) = md_pending ?a"
    using m(1) by (simp_all add: set_open_def reset_effect_def Let_def)
  ultimately have u: "md_open u" "md_hosts u = md_hosts m" "md_host u = first_host (md_hosts m)"
    "md_pending u = md_pending ?a" "\<not> md_submitting u" "md_error u = None" "md_queued u = None"
    "md_plugin u \<noteq> []"
    using set_open_fresh [OF c(1)] assms(4)
    by (auto simp: set_open_def reset_effect_def host_effect_def Let_def first_plugin_def first_host_def
        plugins_def selectedHost_def split: list.splits if_splits)
  have vu: "modal_view u = FormView None True"
    using u assms(3) by (simp add: modal_view_def)
  have t: "t = answer_trigger 0 (Inr (Some j)) (trigger_submit u)"
    using assms(7) by (auto simp: run_Cons_iff elim: modal_step.cases)
  have one: "length (md_pending ?a) = 1" using assms(2) m by (simp add: trigger_submit_def)
  have vt: "modal_view t = QueuedView (job_id j)"
    using u assms(5) by (simp add: t answer_trigger_def trigger_finish_def modal_view_def)
  have idle: "\<not> md_submitting t" by (simp add: t answer_trigger_def)
  have "md_pending t = [triggerBackup \<lparr>req_host = first_host (md_hosts m), req_plugin = md_plugin u\<rparr>]"
    using u assms(3) one by (simp add: t answer_trigger_def trigger_submit_def [of u] trigger_start_def)
  with vu vt idle show ?thesis by blast
qed

definition sample_job :: job where
  "sample_job = \<lparr>job_id = js ''j1'', job_host = js ''db1'', job_plugin = js ''postgres'',
     job_policy = \<lparr>policy_daily = 7, policy_weekly = 4, policy_monthly = 6, policy_yearly = 0\<rparr>,
     job_state = Queued, job_queuedAt = js ''2026-01-01T00:00:00Z''\<rparr>"

theorem late_answer_in_reopened_dialog_witness:
  "\<exists>t. modal_view t = QueuedView (js ''j1'') \<and> length (md_pending t) = 1 \<and> \<not> md_submitting t"
proof -
  let ?m = "opened sample_hosts"
  note o = opened_sample
  let ?a = "trigger_submit ?m"
  let ?b = "set_open False ?a"
  let ?u = "set_open True ?b"
  let ?v = "trigger_submit ?u"
  let ?t = "answer_trigger 0 (Inr (Some sample_job)) ?v"
  have a: "md_open ?a" "md_hosts ?a = sample_hosts" using o by simp_all
  have b: "\<not> md_open ?b" "md_hosts ?b = sample_hosts" "md_pending ?b = md_pending ?a"
    using a by (simp_all add: set_open_def reset_effect_def Let_def)
  have f: "first_host sample_hosts = js ''db1''" "first_plugin sample_hosts = js ''postgres''"
    "sample_hosts \<noteq> []" by (simp_all add: first_host_def first_plugin_def sample_hosts_def)
  have "plugins ?u = [js ''postgres'']"
    using set_open_fresh [OF b(1)] b(2) f by (simp add: plugins_def selectedHost_def) (simp add: sample_hosts_def)
  have p: "md_plugin ?u = js ''postgres''"
    using b f by (simp add: set_open_def reset_effect_def host_effect_def Let_def plugins_def selectedHost_def)
      (simp add: sample_hosts_def)
  have u: "modal_view ?u = FormView None True"
    using set_open_fresh [OF b(1)] b(2) f p by (simp add: modal_view_def)
  have "modal_step ?m SubmitTrigger ?a" by (rule modal_submit) (rule o(7))
  moreover have "modal_step ?a CloseModal ?b" by (rule modal_close) (rule a(1))
  moreover have "modal_step ?b OpenModal ?u" by (rule modal_open) (simp add: b f)
  ultimately have r1: "run modal_step ?m [SubmitTrigger, CloseModal, OpenModal] ?u"
    by (auto simp: run_Cons_iff)
  have "modal_step ?u SubmitTrigger ?v" by (rule modal_submit) (rule u)
  moreover have "modal_step ?v (AnswerTrigger 0 (Inr (Some sample_job))) ?t"
    by (rule modal_answer) (simp add: trigger_submit_def [of ?u] set_open_fresh [OF b(1)] p b f)
  ultimately have r2: "run modal_step ?u [SubmitTrigger, AnswerTrigger 0 (Inr (Some sample_job))] ?t"
    by (auto simp: run_Cons_iff)
  have j: "job_id sample_job = js ''j1''" by (simp add: sample_job_def)
  note th = late_answer_in_reopened_dialog [OF o(7) o(5) _ _ _ r1 r2, unfolded o(4) f j]
  show ?thesis by (rule exI [of _ ?t]) (use th in simp)
qed

text \<open>
  C33. The effects never start each other for ever: whatever two renders the loop starts from it
  comes to rest, and opening or closing the dialog and picking a host end in exactly the state the
  handlers of this theory give.
\<close>

theorem effects_come_to_rest:
  "(\<exists>m. render_loop before now = Some m)
   \<and> render_loop m (m\<lparr>md_open := b\<rparr>) = Some (set_open b m)
   \<and> render_loop m (m\<lparr>md_host := v\<rparr>) = Some (setHost v m)"
proof (intro conjI)
  show "\<exists>m. render_loop before now = Some m"
    by (subst render_loop.simps) (auto simp: Let_def render_settled commit_keeps)
  show "render_loop m (m\<lparr>md_host := v\<rparr>) = Some (setHost v m)"
    by (simp add: render_settled setHost_def)
  show "render_loop m (m\<lparr>md_open := b\<rparr>) = Some (set_open b m)"
  proof (cases "b = md_open m")
    case True
    then show ?thesis by (simp add: render_idle set_open_def)
  next
    case False
    define n where "n = m\<lparr>md_open := b\<rparr>"
    define r where "r = reset_effect n"
    have n: "md_host n = md_host m" by (simp add: n_def)
    have "commit_effects m n = r" using False unfolding r_def by (intro commit_open) (simp_all add: n_def)
    then have "render_loop m n = (if r = n then Some n else render_loop n r)"
      by (subst render_loop.simps) (simp add: Let_def)
    also have "render_loop n r = Some (if md_host r = md_host n then r else host_effect r)"
      by (rule render_settled) (simp add: r_def reset_effect_def)
    finally have "render_loop m n = Some (if md_host r = md_host m then r else host_effect r)"
      using n by auto
    then show ?thesis using False by (simp add: set_open_def Let_def r_def n_def)
  qed
qed

end
