(* ===== verification/PluginConfig.thy ===== *)
theory PluginConfig
  imports WriteAction
begin

text \<open>
  \<open>web/src/pages/PluginConfigPage.tsx\<close>: the comma-separated list fields, the load/save state
  machine \<open>usePluginConfigForm\<close> with the three forms built on it, and the page's choice of a
  form by the plugin segment of the route. A form is a record of what it gives the hook
  (\<open>plugin_form\<close>): the plugin's name, the empty configuration, the callback that fills the text
  fields, the payload a submit builds and the \<open>required\<close> attributes the browser checks first.
\<close>

section \<open>Comma-separated lists\<close>

definition splitList :: "jsstr \<Rightarrow> jsstr list" where
  "splitList text = filter (\<lambda>t. t \<noteq> []) (map js_trim (js_split (ch CHR '','') text))"

definition joinList :: "jsstr list \<Rightarrow> jsstr" where
  "joinList xs = js_join (js '', '') xs"

section \<open>The forms\<close>

text \<open>What a form puts on screen: its inputs, each with the value it shows, and the hints.\<close>

record input_field =
  fld_id :: jsstr
  fld_label :: jsstr
  fld_number :: bool
  fld_value :: jsstr
  fld_required :: bool
  fld_placeholder :: jsstr

datatype form_item = Field input_field | Hint jsstr

definition field :: "string \<Rightarrow> string \<Rightarrow> bool \<Rightarrow> jsstr \<Rightarrow> bool \<Rightarrow> string \<Rightarrow> form_item" where
  "field i l num v req ph = Field \<lparr>fld_id = js i, fld_label = js l, fld_number = num, fld_value = v,
     fld_required = req, fld_placeholder = js ph\<rparr>"

text \<open>\<open>required\<close>: the browser submits a form only when every required input has a value.\<close>

fun filled_in :: "form_item \<Rightarrow> bool" where
  "filled_in (Field f) = (fld_required f \<longrightarrow> fld_value f \<noteq> [])"
| "filled_in (Hint h) = True"

record ('c, 't) plugin_form =
  pf_plugin :: jsstr
  pf_empty :: 'c
  pf_blank :: 't
  pf_texts :: "'c \<Rightarrow> 't"
  pf_payload :: "'c option \<Rightarrow> 't \<Rightarrow> 'c option"
  pf_items :: "'c option \<Rightarrow> 't \<Rightarrow> form_item list option"
  pf_config :: "'c \<Rightarrow> plugin_config"

definition pf_required :: "('c, 't) plugin_form \<Rightarrow> 'c option \<Rightarrow> 't \<Rightarrow> bool" where
  "pf_required pf form texts = (case pf_items pf form texts of
     None \<Rightarrow> False | Some items \<Rightarrow> list_all filled_in items)"

definition emptyInformixConfig :: informix_config where
  "emptyInformixConfig = \<lparr>ifx_host = [], ifx_port = 9088, ifx_username = [], ifx_passwordEnv = [],
     ifx_serverName = [], ifx_database = [], ifx_tables = [], ifx_agentPath = []\<rparr>"

definition emptyPostgresConfig :: postgres_config where
  "emptyPostgresConfig = \<lparr>pg_username = [], pg_passwordEnv = [], pg_databases = [], pg_container = []\<rparr>"

definition emptyFilesystemConfig :: filesystem_config where
  "emptyFilesystemConfig = \<lparr>fs_paths = [], fs_excludes = []\<rparr>"

text \<open>
  \<open>form\<close> is \<open>undefined\<close> (\<open>None\<close>) after a body that was no object; the Informix and Postgres
  forms then fail to render, the filesystem form never reads it.
\<close>

definition PASSWORD_HINT :: jsstr where
  "PASSWORD_HINT = js ''The password itself is never entered here - set this environment variable wherever '' @ [cu 34]
     @ js ''bop controller'' @ [cu 34] @ js '' runs.''"

definition informix_items :: "informix_config \<Rightarrow> jsstr \<Rightarrow> form_item list" where
  "informix_items f tablesText =
     [field ''ifx-host'' ''Informix host'' False (ifx_host f) True [],
      field ''ifx-port'' ''Port'' True (int_str (ifx_port f)) True [],
      field ''ifx-username'' ''Username'' False (ifx_username f) True [],
      field ''ifx-password-env'' ''Password environment variable'' False (ifx_passwordEnv f) True
        ''e.g. IFX_BACKUP_PASSWORD'',
      Hint PASSWORD_HINT,
      field ''ifx-server-name'' ''Informix server name'' False (ifx_serverName f) True ''INFORMIXSERVER'',
      field ''ifx-database'' ''Database'' False (ifx_database f) True [],
      field ''ifx-tables'' ''Tables to back up'' False tablesText True ''customers, orders'',
      Hint (js ''Comma-separated. One backup resource per table.''),
      field ''ifx-agent-path'' ''ifx-agent binary path'' False (ifx_agentPath f) True ''/usr/local/bin/ifx-agent'',
      Hint (js ''Path to the ifx-agent binary on whatever host runs '' @ [cu 34] @ js ''bop controller'' @ [cu 34] @ js ''.'')]"

definition InformixConfigForm :: "(informix_config, jsstr) plugin_form" where
  "InformixConfigForm = \<lparr>pf_plugin = js ''informix'', pf_empty = emptyInformixConfig, pf_blank = [],
     pf_texts = (\<lambda>cfg. joinList (ifx_tables cfg)),
     pf_payload = (\<lambda>form tablesText. map_option (\<lambda>f. f\<lparr>ifx_tables := splitList tablesText\<rparr>) form),
     pf_items = (\<lambda>form tablesText. map_option (\<lambda>f. informix_items f tablesText) form),
     pf_config = Informix\<rparr>"

definition postgres_items :: "postgres_config \<Rightarrow> jsstr \<Rightarrow> form_item list" where
  "postgres_items f databasesText =
     [field ''pg-username'' ''Username'' False (pg_username f) True [],
      field ''pg-password-env'' ''Password environment variable'' False (pg_passwordEnv f) True
        ''e.g. PG_BACKUP_PASSWORD'',
      Hint PASSWORD_HINT,
      field ''pg-databases'' ''Databases to back up'' False databasesText True ''appdb, reporting'',
      Hint (js ''Comma-separated. One backup resource per database.''),
      field ''pg-container'' ''Docker container name'' False (pg_container f) False
        ''optional - leave blank if Postgres runs directly on the host'',
      Hint (js ''When set, pg_dump/psql run inside this container via '' @ [cu 34] @ js ''docker exec'' @ [cu 34] @ js ''.'')]"

definition PostgresConfigForm :: "(postgres_config, jsstr) plugin_form" where
  "PostgresConfigForm = \<lparr>pf_plugin = js ''postgres'', pf_empty = emptyPostgresConfig, pf_blank = [],
     pf_texts = (\<lambda>cfg. joinList (pg_databases cfg)),
     pf_payload = (\<lambda>form databasesText. map_option (\<lambda>f. f\<lparr>pg_databases := splitList databasesText\<rparr>) form),
     pf_items = (\<lambda>form databasesText. map_option (\<lambda>f. postgres_items f databasesText) form),
     pf_config = Postgres\<rparr>"

definition filesystem_items :: "jsstr \<Rightarrow> jsstr \<Rightarrow> form_item list" where
  "filesystem_items pathsText excludesText =
     [field ''fs-paths'' ''Paths to back up'' False pathsText True ''/var/lib/app, /etc/app'',
      Hint (js ''Comma-separated absolute paths on the target host. One backup resource per path.''),
      field ''fs-excludes'' ''Excludes'' False excludesText False ''*.tmp, *.log'',
      Hint (js ''Comma-separated glob patterns. Optional.'')]"

definition FilesystemConfigForm :: "(filesystem_config, jsstr \<times> jsstr) plugin_form" where
  "FilesystemConfigForm = \<lparr>pf_plugin = js ''filesystem'', pf_empty = emptyFilesystemConfig, pf_blank = ([], []),
     pf_texts = (\<lambda>cfg. (joinList (fs_paths cfg), joinList (fs_excludes cfg))),
     pf_payload = (\<lambda>form texts. Some \<lparr>fs_paths = splitList (fst texts), fs_excludes = splitList (snd texts)\<rparr>),
     pf_items = (\<lambda>form texts. Some (filesystem_items (fst texts) (snd texts))),
     pf_config = Filesystem\<rparr>"

text \<open>
  The fields of a form, one per input that calls \<open>update\<close>. The port is \<open>Number\<close> of the text of
  a number input, whose step the browser checks to be 1: an integer in every form that submits.
\<close>

datatype informix_field = IfxHost jsstr | IfxPort int | IfxUsername jsstr | IfxPasswordEnv jsstr
  | IfxServerName jsstr | IfxDatabase jsstr | IfxAgentPath jsstr

fun informix_update :: "informix_field \<Rightarrow> informix_config \<Rightarrow> informix_config" where
  "informix_update (IfxHost v) f = f\<lparr>ifx_host := v\<rparr>"
| "informix_update (IfxPort v) f = f\<lparr>ifx_port := v\<rparr>"
| "informix_update (IfxUsername v) f = f\<lparr>ifx_username := v\<rparr>"
| "informix_update (IfxPasswordEnv v) f = f\<lparr>ifx_passwordEnv := v\<rparr>"
| "informix_update (IfxServerName v) f = f\<lparr>ifx_serverName := v\<rparr>"
| "informix_update (IfxDatabase v) f = f\<lparr>ifx_database := v\<rparr>"
| "informix_update (IfxAgentPath v) f = f\<lparr>ifx_agentPath := v\<rparr>"

datatype postgres_field = PgUsername jsstr | PgPasswordEnv jsstr | PgContainer jsstr

fun postgres_update :: "postgres_field \<Rightarrow> postgres_config \<Rightarrow> postgres_config" where
  "postgres_update (PgUsername v) f = f\<lparr>pg_username := v\<rparr>"
| "postgres_update (PgPasswordEnv v) f = f\<lparr>pg_passwordEnv := v\<rparr>"
| "postgres_update (PgContainer v) f = f\<lparr>pg_container := v\<rparr>"

section \<open>usePluginConfigForm\<close>

text \<open>
  The requests in flight: a load belongs to the run of the effect that made it, whose \<open>active\<close>
  flag is true exactly while it is the latest run of a mounted form; a save has no such owner.
\<close>

datatype pending = LoadOf nat api_call | SaveOf api_call

record ('c, 't) config_form =
  cf_host :: jsstr
  cf_form :: "'c option"
  cf_texts :: 't
  cf_loading :: bool
  cf_loadError :: "jsstr option"
  cf_saving :: bool
  cf_saveError :: "jsstr option"
  cf_saved :: bool
  cf_effect :: nat
  cf_mounted :: bool
  cf_pending :: "pending list"

definition UNREACHED :: jsstr where
  "UNREACHED = js ''Could not reach the controller.''"

definition SAVE_DENIED :: jsstr where
  "SAVE_DENIED = js ''This token can't save plugin config. Reconnect with a write token to do this.''"

text \<open>The effect. An exception inside an effect (a \<open>URIError\<close>) takes the page down.\<close>

definition run_effect :: "('c, 't) plugin_form \<Rightarrow> ('c, 't) config_form \<Rightarrow> ('c, 't) config_form" where
  "run_effect pf s =
     (let g = Suc (cf_effect s);
          s1 = s\<lparr>cf_effect := g, cf_loading := True, cf_loadError := None\<rparr>
      in case getPluginConfig (cf_host s) (pf_plugin pf) of
           Inl e \<Rightarrow> s1\<lparr>cf_mounted := False\<rparr>
         | Inr a \<Rightarrow> s1\<lparr>cf_pending := cf_pending s @ [LoadOf g a]\<rparr>)"

definition form_mount :: "('c, 't) plugin_form \<Rightarrow> jsstr \<Rightarrow> ('c, 't) config_form" where
  "form_mount pf h = run_effect pf
     \<lparr>cf_host = h, cf_form = Some (pf_empty pf), cf_texts = pf_blank pf, cf_loading = True,
      cf_loadError = None, cf_saving = False, cf_saveError = None, cf_saved = False,
      cf_effect = 0, cf_mounted = True, cf_pending = []\<rparr>"

text \<open>The route's host changes under a mounted form: the effect runs again for the new host.\<close>

definition set_host :: "('c, 't) plugin_form \<Rightarrow> jsstr \<Rightarrow> ('c, 't) config_form \<Rightarrow> ('c, 't) config_form" where
  "set_host pf h s = (if h = cf_host s then s else run_effect pf (s\<lparr>cf_host := h\<rparr>))"

text \<open>
  \<open>then\<close>, \<open>catch\<close> and \<open>finally\<close> of the load, run while \<open>active\<close>. A body that is no object makes
  the callback throw inside \<open>then\<close>, after \<open>setForm\<close>, and lands in \<open>catch\<close>.
\<close>

definition load_answer ::
  "('c, 't) plugin_form \<Rightarrow> 'c option result \<Rightarrow> ('c, 't) config_form \<Rightarrow> ('c, 't) config_form" where
  "load_answer pf r s =
     (let s1 = (case r of
          Inr (Some cfg) \<Rightarrow> s\<lparr>cf_form := Some cfg, cf_texts := pf_texts pf cfg\<rparr>
        | Inr None \<Rightarrow> s\<lparr>cf_form := None, cf_loadError := Some UNREACHED\<rparr>
        | Inl (ApiError st m) \<Rightarrow>
            if st = 404 then s\<lparr>cf_form := Some (pf_empty pf), cf_texts := pf_texts pf (pf_empty pf)\<rparr>
            else s\<lparr>cf_loadError := Some m\<rparr>
        | Inl OtherError \<Rightarrow> s\<lparr>cf_loadError := Some UNREACHED\<rparr>)
      in s1\<lparr>cf_loading := False\<rparr>)"

fun save_error :: "exn \<Rightarrow> jsstr" where
  "save_error (ApiError st m) = (if st = 401 then SAVE_DENIED else m)"
| "save_error OtherError = UNREACHED"

definition save_start :: "('c, 't) config_form \<Rightarrow> ('c, 't) config_form" where
  "save_start s = s\<lparr>cf_saving := True, cf_saveError := None, cf_saved := False\<rparr>"

text \<open>After \<open>await api.setPluginConfig\<close>: the rest of the \<open>try\<close>, the \<open>catch\<close> and the \<open>finally\<close>.\<close>

definition save_answer ::
  "('c, 't) plugin_form \<Rightarrow> 'c option result \<Rightarrow> ('c, 't) config_form \<Rightarrow> ('c, 't) config_form" where
  "save_answer pf r s =
     (let s1 = (case r of
          Inr (Some cfg) \<Rightarrow> s\<lparr>cf_form := Some cfg, cf_texts := pf_texts pf cfg, cf_saved := True\<rparr>
        | Inr None \<Rightarrow> s\<lparr>cf_form := None, cf_saveError := Some UNREACHED\<rparr>
        | Inl e \<Rightarrow> s\<lparr>cf_saveError := Some (save_error e)\<rparr>)
      in s1\<lparr>cf_saving := False\<rparr>)"

definition save_config :: "('c, 't) plugin_form \<Rightarrow> 'c \<Rightarrow> ('c, 't) config_form \<Rightarrow> ('c, 't) config_form" where
  "save_config pf payload s =
     (case setPluginConfig (cf_host s) (pf_plugin pf) (pf_config pf payload) of
        Inl e \<Rightarrow> save_answer pf (Inl e) (save_start s)
      | Inr a \<Rightarrow> (save_start s)\<lparr>cf_pending := cf_pending s @ [SaveOf a]\<rparr>)"

definition payload_of :: "('c, 't) plugin_form \<Rightarrow> ('c, 't) config_form \<Rightarrow> 'c option" where
  "payload_of pf s = pf_payload pf (cf_form s) (cf_texts s)"

definition submit_config :: "('c, 't) plugin_form \<Rightarrow> ('c, 't) config_form \<Rightarrow> ('c, 't) config_form" where
  "submit_config pf s = (case payload_of pf s of
       None \<Rightarrow> s | Some payload \<Rightarrow> save_config pf payload s)"

text \<open>The form is on screen, and its Save button can be pressed.\<close>

definition form_shown :: "('c, 't) config_form \<Rightarrow> bool" where
  "form_shown s \<longleftrightarrow> cf_mounted s \<and> \<not> cf_loading s \<and> \<not> truthy (cf_loadError s)"

definition can_submit :: "('c, 't) plugin_form \<Rightarrow> ('c, 't) config_form \<Rightarrow> bool" where
  "can_submit pf s \<longleftrightarrow> form_shown s \<and> \<not> cf_saving s \<and> pf_required pf (cf_form s) (cf_texts s)"

text \<open>What the form shows: the notices, or its items, the feedback of the last save and the button.\<close>

definition SaveFeedback :: "jsstr option \<Rightarrow> bool \<Rightarrow> jsstr option \<times> jsstr option" where
  "SaveFeedback saveError saved = (if truthy saveError then saveError else None,
     if saved then Some (js ''Saved. The next backup job for this host will use it.'') else None)"

datatype form_screen = FormLoading jsstr | FormNotice jsstr | FormThrows
  | FormShown "form_item list" "jsstr option \<times> jsstr option" button

definition save_button :: "bool \<Rightarrow> button" where
  "save_button saving = \<lparr>btn_text = (if saving then js ''Saving'' @ ELLIPSIS else js ''Save configuration''),
     btn_enabled = (\<not> saving)\<rparr>"

definition form_view :: "('c, 't) plugin_form \<Rightarrow> ('c, 't) config_form \<Rightarrow> form_screen" where
  "form_view pf s =
     (if cf_loading s then FormLoading (js ''Loading configuration'')
      else if truthy (cf_loadError s) then FormNotice (the (cf_loadError s))
      else (case pf_items pf (cf_form s) (cf_texts s) of
              None \<Rightarrow> FormThrows
            | Some items \<Rightarrow> FormShown items (SaveFeedback (cf_saveError s) (cf_saved s)) (save_button (cf_saving s))))"

definition answer_pending ::
  "('c, 't) plugin_form \<Rightarrow> nat \<Rightarrow> 'c option result \<Rightarrow> ('c, 't) config_form \<Rightarrow> ('c, 't) config_form" where
  "answer_pending pf n r s =
     (let s1 = s\<lparr>cf_pending := take n (cf_pending s) @ drop (Suc n) (cf_pending s)\<rparr>
      in if \<not> cf_mounted s then s1
         else (case cf_pending s ! n of
                 LoadOf g a \<Rightarrow> if g = cf_effect s then load_answer pf r s1 else s1
               | SaveOf a \<Rightarrow> save_answer pf r s1))"

datatype ('c, 't) form_event =
    EditForm "'c \<Rightarrow> 'c" | EditText 't | SubmitForm | AnswerPending nat "'c option result"
  | GoHost jsstr | Leave

inductive form_step ::
  "('c, 't) plugin_form \<Rightarrow> ('c, 't) config_form \<Rightarrow> ('c, 't) form_event \<Rightarrow> ('c, 't) config_form \<Rightarrow> bool"
  for pf :: "('c, 't) plugin_form" where
  form_edit: "form_shown s \<Longrightarrow> form_step pf s (EditForm f) (s\<lparr>cf_form := map_option f (cf_form s)\<rparr>)"
| form_text: "form_shown s \<Longrightarrow> form_step pf s (EditText t) (s\<lparr>cf_texts := t\<rparr>)"
| form_submit: "can_submit pf s \<Longrightarrow> form_step pf s SubmitForm (submit_config pf s)"
| form_answer: "n < length (cf_pending s) \<Longrightarrow> form_step pf s (AnswerPending n r) (answer_pending pf n r s)"
| form_host: "cf_mounted s \<Longrightarrow> form_step pf s (GoHost h) (set_host pf h s)"
| form_leave: "form_step pf s Leave (s\<lparr>cf_mounted := False\<rparr>)"

inductive_cases form_submit_cases: "form_step pf s SubmitForm t"
inductive_cases form_answer_cases: "form_step pf s (AnswerPending n r) t"
inductive_cases form_host_cases: "form_step pf s (GoHost h) t"

definition form_init :: "('c, 't) plugin_form \<Rightarrow> ('c, 't) config_form \<Rightarrow> bool" where
  "form_init pf s \<longleftrightarrow> (\<exists>h. s = form_mount pf h)"

section \<open>PluginConfigPage\<close>

text \<open>
  \<open>pluginForms[plugin]\<close>: an own property, or else one every object inherits, which is truthy too.
\<close>

datatype form_choice = ShowInformix | ShowPostgres | ShowFilesystem | ShowInherited

definition object_prototype :: "jsstr list" where
  "object_prototype = map js [''constructor'', ''__defineGetter__'', ''__defineSetter__'',
     ''hasOwnProperty'', ''__lookupGetter__'', ''__lookupSetter__'', ''isPrototypeOf'',
     ''propertyIsEnumerable'', ''toString'', ''valueOf'', ''__proto__'', ''toLocaleString'']"

definition pluginForms :: "jsstr \<Rightarrow> form_choice option" where
  "pluginForms plugin =
     (if plugin = js ''informix'' then Some ShowInformix
      else if plugin = js ''postgres'' then Some ShowPostgres
      else if plugin = js ''filesystem'' then Some ShowFilesystem
      else if plugin \<in> set object_prototype then Some ShowInherited
      else None)"

text \<open>A component that is an inherited function or object cannot be rendered: React throws.\<close>

datatype config_page = NotAvailable jsstr | ConfigForm jsstr jsstr form_choice | PageCrash

definition PluginConfigPage :: "jsstr option \<Rightarrow> jsstr option \<Rightarrow> config_page" where
  "PluginConfigPage h p =
     (let host = (case h of None \<Rightarrow> [] | Some x \<Rightarrow> x);
          plugin = (case p of None \<Rightarrow> [] | Some x \<Rightarrow> x)
      in case pluginForms plugin of
           None \<Rightarrow> NotAvailable (js ''Web configuration isn't available for '' @ [cu 34] @ plugin @ [cu 34]
             @ js '' yet - edit inventory.yaml directly.'')
         | Some ShowInherited \<Rightarrow> PageCrash
         | Some f \<Rightarrow> ConfigForm (js ''Configure '' @ plugin) host f)"

section \<open>Lists as text\<close>

definition listable :: "jsstr \<Rightarrow> bool" where
  "listable x \<longleftrightarrow> x \<noteq> [] \<and> trimmed x \<and> ch CHR '','' \<notin> set x"

lemma joinList_alt: "joinList xs = js_join (ch CHR '','' # [ch CHR '' '']) xs"
  by (simp add: joinList_def js_Cons)

lemma blank_not_comma [simp]: "ch CHR '','' \<noteq> ch CHR '' ''"
  by simp

lemma splitList_joinList:
  assumes "list_all listable xs"
  shows "splitList (joinList xs) = xs"
proof (cases xs)
  case Nil
  then show ?thesis by (simp add: joinList_def splitList_def js_trim_def)
next
  case (Cons x ys)
  have split: "js_split (ch CHR '','') (joinList xs) = x # map (\<lambda>y. [ch CHR '' ''] @ y) ys"
    unfolding joinList_alt
    by (subst js_split_join_sep) (use assms Cons in \<open>auto simp: list_all_iff listable_def\<close>)
  have trim: "map js_trim (map (\<lambda>y. [ch CHR '' ''] @ y) ys) = ys"
    using assms Cons by (auto simp: list_all_iff listable_def js_trim_Cons_space js_trim_trimmed
        intro!: map_idI)
  have "map js_trim (js_split (ch CHR '','') (joinList xs)) = xs"
    unfolding split list.map trim using assms Cons
    by (simp add: listable_def js_trim_trimmed)
  then show ?thesis using assms by (simp add: splitList_def list_all_iff listable_def filter_id_conv)
qed

lemma js_split_pieces: "x \<in> set (js_split c s) \<Longrightarrow> c \<notin> set x"
  by (induction s arbitrary: x) (auto split: list.splits if_splits)

lemma splitList_listable: "list_all listable (splitList t)"
  using set_js_trim js_split_pieces
  by (fastforce simp: list_all_iff splitList_def listable_def trimmed_js_trim)

lemma splitList_joinList_iff: "splitList (joinList xs) = xs \<longleftrightarrow> list_all listable xs"
  using splitList_joinList [of xs] splitList_listable [of "joinList xs"] by auto

interpretation list_field: codec joinList "\<lambda>t. Some (splitList t)" "list_all listable"
  by unfold_locales (simp add: splitList_joinList)

lemma js_trim_Nil_iff: "js_trim s = [] \<longleftrightarrow> (\<forall>u\<in>set s. is_space u)"
proof
  assume "js_trim s = []"
  then have "\<forall>u\<in>set (dropWhile is_space s). is_space u" by (auto simp: js_trim_def)
  moreover have "dropWhile is_space s \<noteq> [] \<Longrightarrow> \<not> is_space (hd (dropWhile is_space s))"
    by (rule hd_dropWhile)
  ultimately have "dropWhile is_space s = []" by (cases "dropWhile is_space s") auto
  then show "\<forall>u\<in>set s. is_space u" by simp
qed (auto simp: js_trim_def dest!: set_dropWhileD)

lemma js_split_all: "(\<forall>x\<in>set (js_split c s). \<forall>u\<in>set x. P u) \<longleftrightarrow> (\<forall>u\<in>set s. u = c \<or> P u)"
proof (induction s)
  case (Cons a s)
  obtain x xs where "js_split c s = x # xs" by (cases "js_split c s") auto
  with Cons show ?case by auto
qed simp

lemma splitList_Nil_iff: "splitList t = [] \<longleftrightarrow> list_all (\<lambda>u. u = ch CHR '','' \<or> is_space u) t"
  by (simp add: splitList_def filter_empty_conv js_trim_Nil_iff js_split_all list_all_iff)

section \<open>Invariant\<close>

fun load_runs :: "pending list \<Rightarrow> nat list" where
  "load_runs [] = []"
| "load_runs (LoadOf g a # ps) = g # load_runs ps"
| "load_runs (SaveOf a # ps) = load_runs ps"

fun saves :: "pending list \<Rightarrow> nat" where
  "saves [] = 0"
| "saves (LoadOf g a # ps) = saves ps"
| "saves (SaveOf a # ps) = Suc (saves ps)"

lemma load_runs_append [simp]: "load_runs (ps @ qs) = load_runs ps @ load_runs qs"
  by (induction ps rule: load_runs.induct) auto

lemma saves_append [simp]: "saves (ps @ qs) = saves ps + saves qs"
  by (induction ps rule: saves.induct) auto

lemma in_load_runs: "LoadOf g a \<in> set ps \<Longrightarrow> g \<in> set (load_runs ps)"
  by (induction ps rule: load_runs.induct) auto

lemma load_runs_obtain: "g \<in> set (load_runs ps) \<Longrightarrow> \<exists>a. LoadOf g a \<in> set ps"
  by (induction ps rule: load_runs.induct) auto

lemma pending_split:
  assumes "n < length ps"
  shows "load_runs ps = load_runs (take n ps) @ load_runs [ps ! n] @ load_runs (drop (Suc n) ps)"
    and "saves ps = saves (take n ps) + saves [ps ! n] + saves (drop (Suc n) ps)"
proof -
  have "ps = take n ps @ ps ! n # drop (Suc n) ps" by (rule id_take_nth_drop [OF assms])
  note split = arg_cong [OF this, of load_runs] arg_cong [OF this, of saves]
  show "load_runs ps = load_runs (take n ps) @ load_runs [ps ! n] @ load_runs (drop (Suc n) ps)"
    and "saves ps = saves (take n ps) + saves [ps ! n] + saves (drop (Suc n) ps)"
    using split by (cases "ps ! n"; simp)+
qed

lemma saves_filter: "saves ps = length (filter (\<lambda>p. \<exists>b. p = SaveOf b) ps)"
  by (induction ps rule: saves.induct) auto

lemma load_run_once:
  assumes "distinct (load_runs ps)" "m < length ps" "n < length ps" "ps ! m = LoadOf g a" "ps ! n = LoadOf g b"
  shows "m = n"
proof (rule ccontr)
  have "g \<notin> set (load_runs (take i ps))" if "i < length ps" "ps ! i = LoadOf g c" for i c
    using assms(1) that pending_split(1) [OF that(1)] by auto
  then have no: "LoadOf g d \<notin> set (take i ps)" if "i < length ps" "ps ! i = LoadOf g c" for i c d
    using that in_load_runs by blast
  assume "m \<noteq> n"
  then consider "m < n" | "n < m" by linarith
  then show False
  proof cases
    case 1
    then have "ps ! m \<in> set (take n ps)" using assms(3) by (auto simp: in_set_conv_nth)
    with no [OF assms(3,5)] assms(4) show False by simp
  next
    case 2
    then have "ps ! n \<in> set (take m ps)" using assms(2) by (auto simp: in_set_conv_nth)
    with no [OF assms(2,4)] assms(5) show False by simp
  qed
qed

definition form_inv :: "('c, 't) plugin_form \<Rightarrow> ('c, 't) config_form \<Rightarrow> bool" where
  "form_inv pf s \<longleftrightarrow> distinct (load_runs (cf_pending s)) \<and> (\<forall>g\<in>set (load_runs (cf_pending s)). g \<le> cf_effect s)
     \<and> (cf_mounted s \<longrightarrow>
          (cf_loading s \<longleftrightarrow> cf_effect s \<in> set (load_runs (cf_pending s)))
        \<and> (\<forall>a. LoadOf (cf_effect s) a \<in> set (cf_pending s) \<longrightarrow> getPluginConfig (cf_host s) (pf_plugin pf) = Inr a)
        \<and> (cf_loading s \<longrightarrow> cf_loadError s = None)
        \<and> saves (cf_pending s) = (if cf_saving s then 1 else 0)
        \<and> (cf_saving s \<longrightarrow> \<not> cf_saved s \<and> cf_saveError s = None))"

lemma form_inv_effect:
  assumes "form_inv pf s"
  shows "form_inv pf (run_effect pf (s\<lparr>cf_host := h\<rparr>))"
  using assms in_load_runs [of "Suc (cf_effect s)" _ "cf_pending s"]
  by (fastforce simp: form_inv_def run_effect_def Let_def split: sum.splits)

lemma form_inv_mount: "form_inv pf (form_mount pf h)"
proof -
  let ?s = "\<lparr>cf_host = h, cf_form = Some (pf_empty pf), cf_texts = pf_blank pf, cf_loading = False,
      cf_loadError = None, cf_saving = False, cf_saveError = None, cf_saved = False,
      cf_effect = 0, cf_mounted = True, cf_pending = []\<rparr>"
  have "form_mount pf h = run_effect pf (?s\<lparr>cf_host := h\<rparr>)"
    by (simp add: form_mount_def run_effect_def Let_def split: sum.splits)
  moreover have "form_inv pf ?s" by (simp add: form_inv_def)
  ultimately show ?thesis using form_inv_effect by metis
qed

lemma load_answer_simps [simp]:
  "cf_host (load_answer pf r s) = cf_host s" "cf_loading (load_answer pf r s) = False"
  "cf_saving (load_answer pf r s) = cf_saving s" "cf_saveError (load_answer pf r s) = cf_saveError s"
  "cf_saved (load_answer pf r s) = cf_saved s" "cf_effect (load_answer pf r s) = cf_effect s"
  "cf_mounted (load_answer pf r s) = cf_mounted s" "cf_pending (load_answer pf r s) = cf_pending s"
  by (simp_all add: load_answer_def Let_def split: sum.splits option.splits exn.splits)

lemma save_answer_simps [simp]:
  "cf_host (save_answer pf r s) = cf_host s" "cf_loading (save_answer pf r s) = cf_loading s"
  "cf_loadError (save_answer pf r s) = cf_loadError s"
  "cf_saving (save_answer pf r s) = False" "cf_effect (save_answer pf r s) = cf_effect s"
  "cf_mounted (save_answer pf r s) = cf_mounted s" "cf_pending (save_answer pf r s) = cf_pending s"
  by (simp_all add: save_answer_def Let_def split: sum.splits option.splits)

lemma save_start_simps [simp]:
  "cf_host (save_start s) = cf_host s" "cf_loading (save_start s) = cf_loading s"
  "cf_loadError (save_start s) = cf_loadError s" "cf_saving (save_start s)"
  "cf_saveError (save_start s) = None" "cf_saved (save_start s) = False"
  "cf_effect (save_start s) = cf_effect s" "cf_mounted (save_start s) = cf_mounted s"
  "cf_pending (save_start s) = cf_pending s" "cf_form (save_start s) = cf_form s"
  "cf_texts (save_start s) = cf_texts s"
  by (simp_all add: save_start_def)

definition dequeue :: "nat \<Rightarrow> ('c, 't) config_form \<Rightarrow> ('c, 't) config_form" where
  "dequeue n s = s\<lparr>cf_pending := take n (cf_pending s) @ drop (Suc n) (cf_pending s)\<rparr>"

lemma dequeue_simps [simp]:
  "cf_host (dequeue n s) = cf_host s" "cf_form (dequeue n s) = cf_form s"
  "cf_texts (dequeue n s) = cf_texts s" "cf_loading (dequeue n s) = cf_loading s"
  "cf_loadError (dequeue n s) = cf_loadError s" "cf_saving (dequeue n s) = cf_saving s"
  "cf_saveError (dequeue n s) = cf_saveError s" "cf_saved (dequeue n s) = cf_saved s"
  "cf_effect (dequeue n s) = cf_effect s" "cf_mounted (dequeue n s) = cf_mounted s"
  "cf_pending (dequeue n s) = take n (cf_pending s) @ drop (Suc n) (cf_pending s)"
  by (simp_all add: dequeue_def)

lemma answer_pending_alt: "answer_pending pf n r s =
   (if \<not> cf_mounted s then dequeue n s
    else (case cf_pending s ! n of
            LoadOf g a \<Rightarrow> if g = cf_effect s then load_answer pf r (dequeue n s) else dequeue n s
          | SaveOf a \<Rightarrow> save_answer pf r (dequeue n s)))"
  by (simp add: answer_pending_def dequeue_def Let_def split: pending.splits)

lemma set_dequeue: "p \<in> set (cf_pending (dequeue n s)) \<Longrightarrow> p \<in> set (cf_pending s)"
  by (auto dest: in_set_takeD in_set_dropD)

lemma form_inv_save_answer:
  assumes "form_inv pf s" "n < length (cf_pending s)" "cf_pending s ! n = SaveOf a" "cf_mounted s"
  shows "form_inv pf (save_answer pf r (dequeue n s))"
  using assms(1,4) pending_split [OF assms(2)] set_dequeue [of _ n s]
  by (auto simp: form_inv_def assms(3) split: if_splits)

lemma form_inv_load_answer:
  assumes "form_inv pf s" "n < length (cf_pending s)" "cf_pending s ! n = LoadOf (cf_effect s) a"
  shows "form_inv pf (load_answer pf r (dequeue n s))"
  using assms(1) pending_split [OF assms(2)] set_dequeue [of _ n s]
  by (auto simp: form_inv_def assms(3) split: if_splits)

lemma form_inv_dequeue:
  assumes "form_inv pf s" "n < length (cf_pending s)"
    and "\<not> cf_mounted s \<or> cf_pending s ! n = LoadOf g a \<and> g \<noteq> cf_effect s"
  shows "form_inv pf (dequeue n s)"
  using assms(1,3) pending_split [OF assms(2)] set_dequeue [of _ n s]
  by (auto simp: form_inv_def split: if_splits)

lemma form_inv_answer:
  assumes "form_inv pf s" "n < length (cf_pending s)"
  shows "form_inv pf (answer_pending pf n r s)"
proof (cases "cf_pending s ! n")
  case (LoadOf g a)
  then show ?thesis
    using form_inv_load_answer [OF assms] form_inv_dequeue [OF assms]
    by (auto simp: answer_pending_alt)
next
  case (SaveOf a)
  then show ?thesis
    using form_inv_save_answer [OF assms SaveOf] form_inv_dequeue [OF assms]
    by (auto simp: answer_pending_alt)
qed

lemma form_inv_submit:
  assumes "form_inv pf s" "can_submit pf s"
  shows "form_inv pf (submit_config pf s)"
  using assms
  by (auto simp: submit_config_def save_config_def form_inv_def can_submit_def form_shown_def
      split: option.splits sum.splits)

lemma form_inv_other:
  assumes "form_inv pf s"
  shows "form_inv pf (s\<lparr>cf_form := f\<rparr>)" "form_inv pf (s\<lparr>cf_texts := t\<rparr>)"
    "form_inv pf (s\<lparr>cf_mounted := False\<rparr>)" "form_inv pf (set_host pf h s)"
  using assms form_inv_effect [OF assms] by (auto simp: form_inv_def set_host_def)

lemma form_inv_step: "form_step pf s e t \<Longrightarrow> form_inv pf s \<Longrightarrow> form_inv pf t"
  by (induction rule: form_step.induct)
    (simp_all add: form_inv_other form_inv_submit form_inv_answer)

interpretation config: transition_system "form_step pf" "form_inv pf" "form_init pf" for pf
  by unfold_locales (auto simp: form_init_def form_inv_mount intro: form_inv_step)

text \<open>Which run of the effect may still write: the latest, while the form is mounted.\<close>

lemma form_step_runs:
  "form_step pf s e t \<Longrightarrow> cf_effect s \<le> cf_effect t \<and> (cf_mounted t \<longrightarrow> cf_mounted s)"
  by (induction rule: form_step.induct)
    (auto simp: submit_config_def save_config_def answer_pending_alt set_host_def run_effect_def Let_def
      split: option.splits sum.splits pending.splits)

interpretation load_guard: latest_guard "form_step pf" "\<lambda>s. {g. g \<le> cf_effect s}"
    "\<lambda>s g. cf_mounted s \<and> g = cf_effect s" for pf :: "('c, 't) plugin_form"
proof unfold_locales
  fix s t :: "('c, 't) config_form" and e r
  assume step: "form_step pf s e t"
  then show "{g. g \<le> cf_effect s} \<subseteq> {g. g \<le> cf_effect t}" using form_step_runs by fastforce
  assume "r \<in> {g. g \<le> cf_effect s}" "\<not> (cf_mounted s \<and> r = cf_effect s)"
  with form_step_runs [OF step] show "\<not> (cf_mounted t \<and> r = cf_effect t)" by auto
qed auto

lemma explains_save_error: "explains SAVE_DENIED UNREACHED save_error"
  by (simp add: explains_def)

interpretation saving: write_action save_start "\<lambda>r. save_answer pf (map_sum id Some r)"
    cf_saving cf_saveError save_error SAVE_DENIED UNREACHED for pf
  by unfold_locales (simp_all add: explains_save_error save_answer_def)

lemma set_host_run:
  "h \<noteq> cf_host s \<Longrightarrow> cf_effect (set_host pf h s) = Suc (cf_effect s)"
  by (simp add: set_host_def run_effect_def Let_def split: sum.splits)

section \<open>Properties\<close>

text \<open>
  C34. A list field holds a list exactly when its entries are listable, that is not empty, without
  white space at their ends and without a comma: such lists, and no others, are read back from the
  text they are shown as. What is typed is always read as listable entries, typing them again
  changes nothing, and the list is empty exactly when the text has only commas and white space, so
  a \<open>required\<close> field can still save an empty list.
\<close>

theorem list_field_roundtrip:
  "(splitList (joinList xs) = xs \<longleftrightarrow> list_all listable xs)
   \<and> list_all listable (splitList t)
   \<and> splitList (joinList (splitList t)) = splitList t
   \<and> (splitList t = [] \<longleftrightarrow> list_all (\<lambda>u. u = ch CHR '','' \<or> is_space u) t)"
  using splitList_joinList_iff splitList_listable splitList_joinList splitList_Nil_iff by blast

text \<open>
  C35. Opening a stored configuration and pressing Save without touching it sends the same
  configuration to the same host exactly when its list entries are listable; an entry with a
  comma, as a glob or a path may have, is silently split in two.
\<close>

theorem untouched_form_saves_back:
  "(payload_of InformixConfigForm (load_answer InformixConfigForm (Inr (Some c)) s) = Some c
      \<longleftrightarrow> list_all listable (ifx_tables c))
   \<and> (payload_of PostgresConfigForm (load_answer PostgresConfigForm (Inr (Some d)) u) = Some d
      \<longleftrightarrow> list_all listable (pg_databases d))
   \<and> (payload_of FilesystemConfigForm (load_answer FilesystemConfigForm (Inr (Some e)) v) = Some e
      \<longleftrightarrow> list_all listable (fs_paths e) \<and> list_all listable (fs_excludes e))"
proof -
  have "(c\<lparr>ifx_tables := splitList (joinList (ifx_tables c))\<rparr> = c)
      \<longleftrightarrow> splitList (joinList (ifx_tables c)) = ifx_tables c"
    by (cases c) auto
  then have "payload_of InformixConfigForm (load_answer InformixConfigForm (Inr (Some c)) s) = Some c
      \<longleftrightarrow> list_all listable (ifx_tables c)"
    by (simp add: payload_of_def load_answer_def InformixConfigForm_def splitList_joinList_iff)
  moreover
  have "(d\<lparr>pg_databases := splitList (joinList (pg_databases d))\<rparr> = d)
      \<longleftrightarrow> splitList (joinList (pg_databases d)) = pg_databases d"
    by (cases d) auto
  then have "payload_of PostgresConfigForm (load_answer PostgresConfigForm (Inr (Some d)) u) = Some d
      \<longleftrightarrow> list_all listable (pg_databases d)"
    by (simp add: payload_of_def load_answer_def PostgresConfigForm_def splitList_joinList_iff)
  moreover have "payload_of FilesystemConfigForm (load_answer FilesystemConfigForm (Inr (Some e)) v) = Some e
      \<longleftrightarrow> list_all listable (fs_paths e) \<and> list_all listable (fs_excludes e)"
    by (cases e) (auto simp: payload_of_def load_answer_def FilesystemConfigForm_def splitList_joinList_iff)
  ultimately show ?thesis by blast
qed

lemma run_effects: "run (form_step pf) s es t \<Longrightarrow> cf_effect s \<le> cf_effect t"
  by (induction rule: run.induct) (auto dest: form_step_runs)

lemma reach_form_mount: "reach (form_init pf) (form_step pf) (form_mount pf h)"
  by (rule reach_init) (auto simp: form_init_def)

lemma form_mount_simps:
  assumes "well_formed h" "well_formed (pf_plugin pf)"
  shows "\<exists>a. getPluginConfig h (pf_plugin pf) = Inr a \<and> cf_pending (form_mount pf h) = [LoadOf 1 a]"
    and "cf_mounted (form_mount pf h)" "cf_effect (form_mount pf h) = 1" "cf_host (form_mount pf h) = h"
    and "cf_saving (form_mount pf h) = False"
proof -
  obtain eh ep where "encoded h = Inr eh" "encoded (pf_plugin pf) = Inr ep"
    using encoded_well_formed assms by blast
  then obtain a where a: "getPluginConfig h (pf_plugin pf) = Inr a"
    by (simp add: getPluginConfig_def config_path_def)
  then show "\<exists>a. getPluginConfig h (pf_plugin pf) = Inr a \<and> cf_pending (form_mount pf h) = [LoadOf 1 a]"
    by (simp add: form_mount_def run_effect_def Let_def)
  show "cf_mounted (form_mount pf h)" "cf_effect (form_mount pf h) = 1" "cf_host (form_mount pf h) = h"
    "cf_saving (form_mount pf h) = False"
    using a by (simp_all add: form_mount_def run_effect_def Let_def)
qed

lemma pf_plugin_simps [simp]:
  "well_formed (pf_plugin InformixConfigForm)" "well_formed (pf_plugin PostgresConfigForm)"
  "well_formed (pf_plugin FilesystemConfigForm)"
  by (simp_all add: InformixConfigForm_def PostgresConfigForm_def FilesystemConfigForm_def)

lemma fs_form_simps:
  "pf_plugin FilesystemConfigForm = js ''filesystem''" "pf_empty FilesystemConfigForm = emptyFilesystemConfig"
  by (simp_all add: FilesystemConfigForm_def)

text \<open>
  When the page moves to another host, the load that was in flight for the old one can never
  write again: whatever happens afterwards, answering it only removes it from the requests in
  flight.
\<close>

theorem stale_load_ignored:
  assumes "reach (form_init pf) (form_step pf) s" "LoadOf g a \<in> set (cf_pending s)" "h \<noteq> cf_host s"
    and "run (form_step pf) (set_host pf h s) es t" "n < length (cf_pending t)" "cf_pending t ! n = LoadOf g a"
  shows "answer_pending pf n r t
    = t\<lparr>cf_pending := take n (cf_pending t) @ drop (Suc n) (cf_pending t)\<rparr>"
proof -
  have "g \<le> cf_effect s" using config.reach_inv [OF assms(1)] in_load_runs [OF assms(2)]
    by (auto simp: form_inv_def)
  then have "\<not> (cf_mounted t \<and> g = cf_effect t)"
    using load_guard.refused_forever [OF assms(4), of g] set_host_run [OF assms(3), of pf] by auto
  then show ?thesis using assms(6) by (auto simp: answer_pending_def Let_def)
qed

theorem stale_load_ignored_witness:
  "\<exists>t. cf_host t = js ''b'' \<and> cf_form (answer_pending FilesystemConfigForm 0
      (Inr (Some \<lparr>fs_paths = [js ''/a''], fs_excludes = []\<rparr>)) t) = cf_form t"
proof -
  let ?P = FilesystemConfigForm and ?c = "\<lparr>fs_paths = [js ''/a''], fs_excludes = []\<rparr>"
  let ?s = "form_mount ?P (js ''a'')"
  obtain a where a: "cf_pending ?s = [LoadOf 1 a]" using form_mount_simps(1) [of "js ''a''" ?P] by auto
  have h: "js ''b'' \<noteq> cf_host ?s" by (simp add: form_mount_simps(4))
  let ?t = "set_host ?P (js ''b'') ?s"
  have p: "0 < length (cf_pending ?t)" "cf_pending ?t ! 0 = LoadOf 1 a" "cf_host ?t = js ''b''"
    using h a by (auto simp: set_host_def run_effect_def Let_def split: sum.splits)
  have "answer_pending ?P 0 (Inr (Some ?c)) ?t
      = ?t\<lparr>cf_pending := take 0 (cf_pending ?t) @ drop (Suc 0) (cf_pending ?t)\<rparr>"
    by (rule stale_load_ignored [OF reach_form_mount _ h, where es = "[]" and g = 1 and a = a])
      (use a p in auto)
  then have "cf_form (answer_pending ?P 0 (Inr (Some ?c)) ?t) = cf_form ?t" by simp
  with p(3) show ?thesis by blast
qed

text \<open>How the answer \<open>r\<close> to a load turns the form \<open>s\<close> into \<open>t\<close>.\<close>

definition loaded_as ::
  "('c, 't) plugin_form \<Rightarrow> 'c option result \<Rightarrow> ('c, 't) config_form \<Rightarrow> ('c, 't) config_form \<Rightarrow> bool" where
  "loaded_as pf r s t \<longleftrightarrow> \<not> cf_loading t \<and> cf_host t = cf_host s \<and> (case r of
       Inr (Some c) \<Rightarrow> form_shown t \<and> cf_form t = Some c \<and> cf_texts t = pf_texts pf c
     | Inr None \<Rightarrow> cf_loadError t = Some UNREACHED
     | Inl (ApiError st m) \<Rightarrow>
         if st = 404 then form_shown t \<and> cf_form t = Some (pf_empty pf) \<and> cf_texts t = pf_texts pf (pf_empty pf)
         else cf_loadError t = Some m \<and> cf_form t = cf_form s
     | Inl OtherError \<Rightarrow> cf_loadError t = Some UNREACHED \<and> cf_form t = cf_form s)"

lemma loaded_as_load_answer:
  "cf_mounted s \<Longrightarrow> cf_loadError s = None \<Longrightarrow> loaded_as pf r s (load_answer pf r (dequeue n s))"
  by (auto simp: loaded_as_def load_answer_def form_shown_def split: sum.splits option.splits exn.splits)

lemma loaded_as_404: "loaded_as pf (Inl (ApiError 404 m)) s t \<Longrightarrow> cf_form t = Some (pf_empty pf)"
  by (simp add: loaded_as_def)

text \<open>
  C7. Loading ends, and one answer ends it. While the page shows \<open>Loading\<close>, the load for the host of
  the route is in flight; its answer ends the loading with the stored configuration, with the
  empty form if the controller says 404, or with an error text (\<open>loaded_as\<close>). No other answer
  does: any other load was made before the host last changed and is dropped without a trace, and a
  save that
  is still on its way, of which there is one at most, may fill in the fields and its own feedback,
  but leaves the page loading and the load in flight.
\<close>

theorem form_load_settles:
  assumes "reach (form_init pf) (form_step pf) s" "cf_mounted s" "cf_loading s"
  shows "\<exists>n a. n < length (cf_pending s) \<and> cf_pending s ! n = LoadOf (cf_effect s) a
    \<and> getPluginConfig (cf_host s) (pf_plugin pf) = Inr a
    \<and> (\<forall>r t. form_step pf s (AnswerPending n r) t \<longrightarrow> loaded_as pf r s t)
    \<and> (\<forall>m g b r t. m \<noteq> n \<and> cf_pending s ! m = LoadOf g b \<and> form_step pf s (AnswerPending m r) t
        \<longrightarrow> t = s\<lparr>cf_pending := take m (cf_pending s) @ drop (Suc m) (cf_pending s)\<rparr>)
    \<and> (\<forall>m b r t. cf_pending s ! m = SaveOf b \<and> form_step pf s (AnswerPending m r) t
        \<longrightarrow> cf_loading t \<and> cf_loadError t = None \<and> cf_host t = cf_host s \<and> cf_mounted t
          \<and> LoadOf (cf_effect t) a \<in> set (cf_pending t) \<and> cf_saving s \<and> \<not> cf_saving t)
    \<and> length (filter (\<lambda>p. \<exists>b. p = SaveOf b) (cf_pending s)) = (if cf_saving s then 1 else 0)"
proof -
  note inv = config.reach_inv [OF assms(1)]
  have mem: "cf_effect s \<in> set (load_runs (cf_pending s))" using inv assms(2,3) by (simp add: form_inv_def)
  then obtain a where a: "LoadOf (cf_effect s) a \<in> set (cf_pending s)" using load_runs_obtain by blast
  then obtain n where n: "n < length (cf_pending s)" "cf_pending s ! n = LoadOf (cf_effect s) a"
    by (auto simp: in_set_conv_nth)
  have call: "getPluginConfig (cf_host s) (pf_plugin pf) = Inr a" using a inv assms(2) by (simp add: form_inv_def)
  have ends: "loaded_as pf r s t" if "form_step pf s (AnswerPending n r) t" for r t
  proof -
    have "t = load_answer pf r (dequeue n s)"
      using that n(2) assms(2) by (auto elim!: form_answer_cases simp: answer_pending_alt)
    then show ?thesis using inv assms(2,3) by (simp add: loaded_as_load_answer form_inv_def)
  qed
  have stale: "t = dequeue m s" if m: "m \<noteq> n" "cf_pending s ! m = LoadOf g b" "form_step pf s (AnswerPending m r) t" for m g b r t
  proof -
    have len: "m < length (cf_pending s)" and t: "t = answer_pending pf m r s"
      using m(3) by (auto elim: form_answer_cases)
    have "g \<noteq> cf_effect s" using load_run_once [OF _ len n(1)] inv m(1,2) n(2) by (auto simp: form_inv_def)
    then show ?thesis by (simp add: t answer_pending_alt m(2))
  qed
  have save: "cf_loading t \<and> cf_loadError t = None \<and> cf_host t = cf_host s \<and> cf_mounted t
      \<and> LoadOf (cf_effect t) a \<in> set (cf_pending t) \<and> cf_saving s \<and> \<not> cf_saving t"
    if m: "cf_pending s ! m = SaveOf b" "form_step pf s (AnswerPending m r) t" for m b r t
  proof -
    have len: "m < length (cf_pending s)" and t: "t = save_answer pf r (dequeue m s)"
      using m assms(2) by (auto elim!: form_answer_cases simp: answer_pending_alt)
    have "LoadOf (cf_effect s) a \<in> set (take m (cf_pending s) @ drop (Suc m) (cf_pending s))"
      using a id_take_nth_drop [OF len] m(1) by (metis Un_iff list.set_intros(2) pending.distinct(1) set_ConsD set_append)
    then show ?thesis
      using inv assms(2,3) pending_split(2) [OF len] m(1) by (auto simp: t form_inv_def split: if_splits)
  qed
  have "length (filter (\<lambda>p. \<exists>b. p = SaveOf b) (cf_pending s)) = (if cf_saving s then 1 else 0)"
    using inv assms(2) by (simp add: saves_filter [symmetric] form_inv_def)
  then show ?thesis using n call ends stale [unfolded dequeue_def] save by blast
qed

theorem form_load_settles_witness:
  "\<exists>a. cf_pending (form_mount FilesystemConfigForm (js ''a'')) ! 0 = LoadOf 1 a
     \<and> getPluginConfig (js ''a'') (js ''filesystem'') = Inr a
     \<and> (\<forall>t. form_step FilesystemConfigForm (form_mount FilesystemConfigForm (js ''a''))
           (AnswerPending 0 (Inl (ApiError 404 []))) t \<longrightarrow> cf_form t = Some emptyFilesystemConfig)"
proof -
  let ?P = FilesystemConfigForm
  let ?s = "form_mount ?P (js ''a'')"
  note m = form_mount_simps [of "js ''a''" ?P, simplified]
  obtain a where a: "cf_pending ?s = [LoadOf 1 a]" using m(1) by auto
  have "cf_loading ?s" using m by (auto simp: form_mount_def run_effect_def Let_def split: sum.splits)
  from form_load_settles [OF reach_form_mount m(2) this] obtain n b where
    "n < length (cf_pending ?s)" "cf_pending ?s ! n = LoadOf (cf_effect ?s) b"
    "getPluginConfig (cf_host ?s) (pf_plugin ?P) = Inr b"
    and as: "\<forall>r t. form_step ?P ?s (AnswerPending n r) t \<longrightarrow> loaded_as ?P r ?s t" by blast
  with a m have "n = 0" "cf_pending ?s ! 0 = LoadOf 1 b"
    "getPluginConfig (js ''a'') (js ''filesystem'') = Inr b" by (auto simp: fs_form_simps)
  moreover have "\<forall>t. form_step ?P ?s (AnswerPending n (Inl (ApiError 404 []))) t
      \<longrightarrow> cf_form t = Some emptyFilesystemConfig"
    using as loaded_as_404 fs_form_simps(2) by metis
  ultimately show ?thesis by blast
qed

text \<open>
  C11. Every save ends, and says how: the button is free again; an accepted save shows the
  configuration the controller answered with and announces it; a refused one keeps everything that
  was typed, announces nothing, and explains a 401 as a missing write scope, an \<open>ApiError\<close> by its
  message and anything else as an unreachable controller.
\<close>

theorem save_outcomes:
  assumes "reach (form_init pf) (form_step pf) s" "cf_mounted s" "n < length (cf_pending s)"
    and "cf_pending s ! n = SaveOf a" "form_step pf s (AnswerPending n r) t"
  shows "\<not> cf_saving t \<and> (case r of
      Inr (Some c) \<Rightarrow> cf_form t = Some c \<and> cf_texts t = pf_texts pf c \<and> cf_saved t \<and> cf_saveError t = None
    | Inr None \<Rightarrow> \<not> cf_saved t \<and> cf_saveError t = Some UNREACHED
    | Inl e \<Rightarrow> cf_form t = cf_form s \<and> cf_texts t = cf_texts s \<and> \<not> cf_saved t
        \<and> cf_saveError t = Some (case e of ApiError st m \<Rightarrow> if st = 401 then SAVE_DENIED else m
            | OtherError \<Rightarrow> UNREACHED))"
proof -
  note inv = config.reach_inv [OF assms(1)]
  have "0 < saves (cf_pending s)" using pending_split(2) [OF assms(3)] assms(4) by simp
  then have busy: "\<not> cf_saved s" "cf_saveError s = None"
    using inv assms(2) by (auto simp: form_inv_def split: if_splits)
  have t: "t = save_answer pf r (dequeue n s)"
    using assms(2,4,5) by (auto elim!: form_answer_cases simp: answer_pending_alt)
  show ?thesis
  proof (cases r)
    case (Inl e)
    have "cf_saveError t = Some (save_error e)" unfolding t Inl
      using saving.finish_failed [of pf e "dequeue n s"] by simp
    with Inl busy show ?thesis by (cases e) (simp_all add: t save_answer_def)
  next
    case (Inr v)
    with busy show ?thesis by (cases v) (simp_all add: t save_answer_def)
  qed
qed

lemma save_call_path:
  "getPluginConfig h p = Inr a \<Longrightarrow> \<exists>b. setPluginConfig h p cfg = Inr b \<and> call_suppress b"
  by (auto simp: getPluginConfig_def setPluginConfig_def bind_result_Inr_iff)

text \<open>A form whose stored configuration has been loaded, and whose Save button has been pressed.\<close>

definition loaded_form :: "('c, 't) plugin_form \<Rightarrow> jsstr \<Rightarrow> 'c \<Rightarrow> ('c, 't) config_form" where
  "loaded_form pf h c = answer_pending pf 0 (Inr (Some c)) (form_mount pf h)"

lemma loaded_form:
  assumes "well_formed h" "well_formed (pf_plugin pf)"
  shows "reach (form_init pf) (form_step pf) (loaded_form pf h c)"
    and "cf_form (loaded_form pf h c) = Some c" "cf_texts (loaded_form pf h c) = pf_texts pf c"
    and "cf_host (loaded_form pf h c) = h" "form_shown (loaded_form pf h c)"
    and "cf_pending (loaded_form pf h c) = []" "\<not> cf_saving (loaded_form pf h c)"
    and "cf_effect (loaded_form pf h c) = 1"
proof -
  obtain a where a: "getPluginConfig h (pf_plugin pf) = Inr a" "cf_pending (form_mount pf h) = [LoadOf 1 a]"
    using form_mount_simps(1) [OF assms] by blast
  have "form_step pf (form_mount pf h) (AnswerPending 0 (Inr (Some c))) (loaded_form pf h c)"
    unfolding loaded_form_def by (rule form_answer) (simp add: a)
  then show "reach (form_init pf) (form_step pf) (loaded_form pf h c)"
    by (rule reach_step [OF reach_form_mount])
  have "cf_loadError (form_mount pf h) = None" using a by (simp add: form_mount_def run_effect_def Let_def)
  then show "cf_form (loaded_form pf h c) = Some c" "cf_texts (loaded_form pf h c) = pf_texts pf c"
    "cf_host (loaded_form pf h c) = h" "form_shown (loaded_form pf h c)"
    "cf_pending (loaded_form pf h c) = []" "\<not> cf_saving (loaded_form pf h c)"
    "cf_effect (loaded_form pf h c) = 1"
    using form_mount_simps(2-5) [OF assms]
    by (simp_all add: loaded_form_def answer_pending_alt a load_answer_def form_shown_def)
qed

definition fs_ok :: "filesystem_config \<Rightarrow> bool" where
  "fs_ok c \<longleftrightarrow> list_all listable (fs_paths c) \<and> list_all listable (fs_excludes c) \<and> fs_paths c \<noteq> []"

lemma fs_texts:
  assumes "fs_ok c"
  shows "pf_payload FilesystemConfigForm f (pf_texts FilesystemConfigForm c) = Some c"
    and "pf_required FilesystemConfigForm f (pf_texts FilesystemConfigForm c)"
proof -
  show "pf_payload FilesystemConfigForm f (pf_texts FilesystemConfigForm c) = Some c"
    using assms by (cases c) (simp add: FilesystemConfigForm_def fs_ok_def splitList_joinList)
  have "joinList (fs_paths c) \<noteq> []"
    using assms js_join_eq_Nil [of "js '', ''" "fs_paths c"]
    by (auto simp: joinList_def fs_ok_def list_all_iff listable_def)
  then show "pf_required FilesystemConfigForm f (pf_texts FilesystemConfigForm c)"
    by (simp add: FilesystemConfigForm_def pf_required_def filesystem_items_def field_def)
qed

lemma fs_save:
  assumes "well_formed h" "fs_ok c"
  shows "\<exists>b. submit_config FilesystemConfigForm (loaded_form FilesystemConfigForm h c)
      = (save_start (loaded_form FilesystemConfigForm h c))\<lparr>cf_pending := [SaveOf b]\<rparr>
    \<and> form_step FilesystemConfigForm (loaded_form FilesystemConfigForm h c) SubmitForm
        (submit_config FilesystemConfigForm (loaded_form FilesystemConfigForm h c))"
proof -
  let ?P = FilesystemConfigForm
  let ?s = "loaded_form ?P h c"
  note l = loaded_form [of h ?P c, OF assms(1) pf_plugin_simps(3)]
  obtain a where "getPluginConfig h (pf_plugin ?P) = Inr a" using form_mount_simps(1) [of h ?P] assms by auto
  then obtain b where b: "setPluginConfig h (pf_plugin ?P) (pf_config ?P c) = Inr b"
    using save_call_path by blast
  then have "submit_config ?P ?s = (save_start ?s)\<lparr>cf_pending := [SaveOf b]\<rparr>"
    using l fs_texts(1) [OF assms(2)] by (simp add: submit_config_def payload_of_def save_config_def)
  moreover have "can_submit ?P ?s" using l fs_texts(2) [OF assms(2)] by (simp add: can_submit_def)
  ultimately show ?thesis using form_submit by blast
qed

definition sample_fs :: filesystem_config where
  "sample_fs = \<lparr>fs_paths = [js ''/a''], fs_excludes = []\<rparr>"

lemma sample_fs_ok: "fs_ok sample_fs"
  by (simp add: fs_ok_def sample_fs_def listable_def trimmed_def set_js) (simp add: js_Cons is_space_def unat_ch)

theorem save_outcomes_witness:
  "\<exists>t :: (filesystem_config, jsstr \<times> jsstr) config_form. cf_saveError t = Some SAVE_DENIED \<and> cf_form t = Some sample_fs \<and> \<not> cf_saving t"
proof -
  let ?P = FilesystemConfigForm
  let ?s = "loaded_form ?P (js ''a'') sample_fs"
  let ?u = "submit_config ?P ?s"
  let ?t = "answer_pending ?P 0 (Inl (ApiError 401 [])) ?u"
  note l = loaded_form [of "js ''a''" ?P sample_fs, simplified]
  obtain b where u: "?u = (save_start ?s)\<lparr>cf_pending := [SaveOf b]\<rparr>" and st: "form_step ?P ?s SubmitForm ?u"
    using fs_save [OF well_formed_js sample_fs_ok] by blast
  have r: "reach (form_init ?P) (form_step ?P) ?u" using l(1) by (rule reach_step) (rule st)
  have p: "cf_mounted ?u" "0 < length (cf_pending ?u)" "cf_pending ?u ! 0 = SaveOf b"
    using l by (simp_all add: u form_shown_def)
  have st2: "form_step ?P ?u (AnswerPending 0 (Inl (ApiError 401 []))) ?t"
    by (rule form_answer) (rule p(2))
  have "cf_form ?u = Some sample_fs" using l(2) by (simp add: u)
  with save_outcomes [OF r p st2] have "cf_saveError ?t = Some SAVE_DENIED \<and> cf_form ?t = Some sample_fs \<and> \<not> cf_saving ?t" by simp
  then show ?thesis by blast
qed

text \<open>
  A save is not bound to the host it was made for. If the page moves to another host while a save
  runs, and the new host's configuration has loaded, the late answer replaces that configuration on
  screen by the one of the old host and announces it as saved; the next Save would write it to the
  new host.
\<close>

theorem late_save_crosses_hosts:
  assumes "well_formed h" "well_formed k" "h \<noteq> k" "fs_ok c"
  shows "\<exists>t. run (form_step FilesystemConfigForm) (form_mount FilesystemConfigForm h)
      [AnswerPending 0 (Inr (Some c)), SubmitForm, GoHost k, AnswerPending 1 (Inr (Some d)),
       AnswerPending 0 (Inr (Some c))] t
    \<and> cf_host t = k \<and> form_shown t \<and> cf_saved t \<and> cf_form t = Some c
    \<and> can_submit FilesystemConfigForm t \<and> payload_of FilesystemConfigForm t = Some c"
proof -
  let ?P = FilesystemConfigForm
  let ?r = "loaded_form ?P h c"
  note l = loaded_form [of h ?P c, OF assms(1) pf_plugin_simps(3)]
  note tx = fs_texts [OF assms(4)]
  obtain b where u: "submit_config ?P ?r = (save_start ?r)\<lparr>cf_pending := [SaveOf b]\<rparr>"
    and su: "form_step ?P ?r SubmitForm (submit_config ?P ?r)"
    using fs_save [OF assms(1,4)] by blast
  obtain a where a: "cf_pending (form_mount ?P h) = [LoadOf 1 a]"
    using form_mount_simps(1) [OF assms(1) pf_plugin_simps(3)] by blast
  obtain g where g: "getPluginConfig k (pf_plugin ?P) = Inr g"
    using form_mount_simps(1) [OF assms(2) pf_plugin_simps(3)] by blast
  define u where "u = submit_config ?P ?r"
  define v where "v = set_host ?P k u"
  define w where "w = answer_pending ?P 1 (Inr (Some d)) v"
  define t where "t = answer_pending ?P 0 (Inr (Some c)) w"
  have hu: "cf_host u = h" "cf_mounted u" "cf_pending u = [SaveOf b]" "cf_effect u = 1" "cf_saveError u = None"
    using l by (simp_all add: u_def u form_shown_def)
  have hv: "cf_host v = k" "cf_mounted v" "cf_pending v = [SaveOf b, LoadOf 2 g]" "cf_effect v = 2"
    "cf_loadError v = None"
    using hu assms(3) g by (simp_all add: v_def set_host_def run_effect_def Let_def)
  have hw: "cf_host w = k" "cf_mounted w" "cf_pending w = [SaveOf b]" "cf_loading w = False" "cf_loadError w = None"
    using hv by (simp_all add: w_def answer_pending_def load_answer_def)
  have ht: "cf_host t = k" "form_shown t" "cf_saved t" "cf_form t = Some c" "cf_saving t = False"
    "cf_texts t = pf_texts ?P c"
    using hw by (simp_all add: t_def answer_pending_def save_answer_def form_shown_def)
  have "form_step ?P (form_mount ?P h) (AnswerPending 0 (Inr (Some c))) ?r"
    unfolding loaded_form_def by (rule form_answer) (simp add: a)
  moreover have "form_step ?P ?r SubmitForm u" using su by (simp add: u_def)
  moreover have "form_step ?P u (GoHost k) v" unfolding v_def by (rule form_host) (rule hu(2))
  moreover have "form_step ?P v (AnswerPending 1 (Inr (Some d))) w"
    unfolding w_def by (rule form_answer) (simp add: hv)
  moreover have "form_step ?P w (AnswerPending 0 (Inr (Some c))) t"
    unfolding t_def by (rule form_answer) (simp add: hw)
  ultimately have "run (form_step ?P) (form_mount ?P h) [AnswerPending 0 (Inr (Some c)), SubmitForm, GoHost k,
      AnswerPending 1 (Inr (Some d)), AnswerPending 0 (Inr (Some c))] t"
    by (intro run_Cons) simp_all
  moreover have "can_submit ?P t" "payload_of ?P t = Some c"
    using ht tx by (simp_all add: can_submit_def payload_of_def)
  ultimately show ?thesis using ht by blast
qed

theorem late_save_crosses_hosts_witness:
  "\<exists>t. cf_host t = js ''b'' \<and> cf_saved t \<and> payload_of FilesystemConfigForm t = Some sample_fs"
  using late_save_crosses_hosts [of "js ''a''" "js ''b''" sample_fs emptyFilesystemConfig] sample_fs_ok by auto

text \<open>
  The page offers a form for exactly the three plugins that have one. Any other plugin is told
  that web configuration is not available, except for the names every JavaScript object inherits:
  for those (\<open>/hosts/h/plugins/constructor/config\<close>) the lookup finds something that is no
  component, and rendering it throws.
\<close>

theorem config_page_choice:
  "((\<exists>t h f. PluginConfigPage hp (Some p) = ConfigForm t h f) \<longleftrightarrow> p \<in> {js ''informix'', js ''postgres'', js ''filesystem''})
   \<and> (PluginConfigPage hp (Some p) = PageCrash \<longleftrightarrow> p \<in> set object_prototype)
   \<and> ((\<exists>m. PluginConfigPage hp (Some p) = NotAvailable m)
        \<longleftrightarrow> p \<notin> {js ''informix'', js ''postgres'', js ''filesystem''} \<union> set object_prototype)
   \<and> PluginConfigPage hp (Some (pf_plugin InformixConfigForm))
        = ConfigForm (js ''Configure informix'') (case hp of None \<Rightarrow> [] | Some h \<Rightarrow> h) ShowInformix"
proof -
  have dis: "js ''informix'' \<notin> set object_prototype" "js ''postgres'' \<notin> set object_prototype"
    "js ''filesystem'' \<notin> set object_prototype" by (simp_all add: object_prototype_def)
  have title: "js ''Configure '' @ js ''informix'' = js ''Configure informix''" by (simp add: js_append [symmetric])
  show ?thesis using dis title
    by (auto simp: PluginConfigPage_def pluginForms_def InformixConfigForm_def split: option.splits form_choice.splits)
qed

end
