(* ===== verification/Seal.thy ===== *)
theory Seal
  imports Types
begin

text \<open>
  \<open>web/src/components/Seal.tsx\<close> and \<open>StatusPill.tsx\<close>: the verification tier of a job, derived
  from the types of its events, what the seal draws for it, and the label of a job status. The
  tiers are ordered by what outranks what, an instance of \<open>linorder\<close>, so that the chain of tests
  in the code can be compared with a maximum.
\<close>

section \<open>Tiers\<close>

datatype seal_tier = NoTier | Structural | StorageTier | Restored | FailedTier

text \<open>Ring fractions in hundredths.\<close>

definition TIER_FRACTION :: "seal_tier \<Rightarrow> nat" where
  "TIER_FRACTION t = (case t of NoTier \<Rightarrow> 0 | Structural \<Rightarrow> 34 | StorageTier \<Rightarrow> 67 | Restored \<Rightarrow> 100
     | FailedTier \<Rightarrow> 100)"

definition TIER_LABEL :: "seal_tier \<Rightarrow> jsstr" where
  "TIER_LABEL t = js (case t of NoTier \<Rightarrow> ''Not yet verified'' | Structural \<Rightarrow> ''Artifact produced''
     | StorageTier \<Rightarrow> ''Storage integrity confirmed'' | Restored \<Rightarrow> ''Restore-tested''
     | FailedTier \<Rightarrow> ''Backup failed'')"

definition sealTierForEvents :: "bop_event list \<Rightarrow> seal_tier" where
  "sealTierForEvents events =
     (let types = set (map event_kind events) in
      if BackupFailed \<in> types then FailedTier
      else if RestoreVerificationCompleted \<in> types then Restored
      else if RepositoryVerificationCompleted \<in> types then StorageTier
      else if ArtifactCreated \<in> types then Structural
      else NoTier)"

section \<open>What is drawn\<close>

datatype ring_class = RingFailed | RingComplete | RingProgress
datatype seal_mark = NoMark | CheckMark | CrossMark

record seal_view =
  seal_label :: jsstr
  seal_ring :: "(nat \<times> ring_class) option"
  seal_mark :: seal_mark

definition Seal :: "seal_tier \<Rightarrow> seal_view" where
  "Seal tier =
     (let fraction = TIER_FRACTION tier;
          cls = (if tier = FailedTier then RingFailed else if tier = Restored then RingComplete
                 else RingProgress)
      in \<lparr>seal_label = TIER_LABEL tier,
          seal_ring = (if fraction > 0 then Some (fraction, cls) else None),
          seal_mark = (if tier = Restored then CheckMark else if tier = FailedTier then CrossMark
            else NoMark)\<rparr>)"

definition StatusPill :: "job_status \<Rightarrow> jsstr" where
  "StatusPill s = js (case s of Queued \<Rightarrow> ''Queued'' | In_progress \<Rightarrow> ''Running''
     | Completed \<Rightarrow> ''Succeeded'' | Failed \<Rightarrow> ''Failed'')"

section \<open>The order of the tiers\<close>

fun tier_rank :: "seal_tier \<Rightarrow> nat" where
  "tier_rank NoTier = 0"
| "tier_rank Structural = 1"
| "tier_rank StorageTier = 2"
| "tier_rank Restored = 3"
| "tier_rank FailedTier = 4"

lemma tier_rank_inj: "tier_rank a = tier_rank b \<Longrightarrow> a = b"
  by (cases a; cases b; simp)

instantiation seal_tier :: linorder
begin

definition less_eq_seal_tier :: "seal_tier \<Rightarrow> seal_tier \<Rightarrow> bool" where
  "less_eq_seal_tier a b \<longleftrightarrow> tier_rank a \<le> tier_rank b"

definition less_seal_tier :: "seal_tier \<Rightarrow> seal_tier \<Rightarrow> bool" where
  "less_seal_tier a b \<longleftrightarrow> tier_rank a < tier_rank b"

instance
  by standard (auto simp: less_eq_seal_tier_def less_seal_tier_def intro: tier_rank_inj)

end

lemmas tier_order = less_eq_seal_tier_def less_seal_tier_def

text \<open>The specification: every event testifies to a tier, and the seal shows the highest.\<close>

definition event_tier :: "event_type \<Rightarrow> seal_tier" where
  "event_tier t = (case t of BackupFailed \<Rightarrow> FailedTier | RestoreVerificationCompleted \<Rightarrow> Restored
     | RepositoryVerificationCompleted \<Rightarrow> StorageTier | ArtifactCreated \<Rightarrow> Structural | _ \<Rightarrow> NoTier)"

definition highest_tier :: "bop_event list \<Rightarrow> seal_tier" where
  "highest_tier es = foldr (\<lambda>e m. max (event_tier (event_kind e)) m) es NoTier"

lemma highest_tier_simps [simp]:
  "highest_tier [] = NoTier"
  "highest_tier (e # es) = max (event_tier (event_kind e)) (highest_tier es)"
  by (simp_all add: highest_tier_def)

lemma seal_Cons: "sealTierForEvents (e # es) = max (event_tier (event_kind e)) (sealTierForEvents es)"
  by (cases "event_kind e")
    (auto simp: sealTierForEvents_def event_tier_def max_def tier_order Let_def)

lemma seal_highest: "sealTierForEvents es = highest_tier es"
  by (induction es) (simp add: sealTierForEvents_def, simp add: seal_Cons)

lemma seal_cong: "set (map event_kind es) = set (map event_kind fs) \<Longrightarrow> sealTierForEvents es = sealTierForEvents fs"
  by (simp only: sealTierForEvents_def)

lemma NoTier_least [simp]: "NoTier \<le> t" "max NoTier t = t" "max t NoTier = t"
  by (simp_all add: tier_order max_def) (cases t; simp)+

lemma seal_append: "sealTierForEvents (es @ fs) = max (sealTierForEvents es) (sealTierForEvents fs)"
  by (induction es) (simp_all add: seal_highest max.assoc)

text \<open>
  The drawing says exactly what the events say: the cross means a failure was reported, the
  check mark that a restore was verified and none failed, a ring that at least an artifact exists;
  and no two tiers have the same label.
\<close>

lemma seal_drawing_honest:
  "(seal_mark (Seal (sealTierForEvents es)) = CrossMark \<longleftrightarrow> BackupFailed \<in> event_kind ` set es)
   \<and> (seal_mark (Seal (sealTierForEvents es)) = CheckMark \<longleftrightarrow>
        RestoreVerificationCompleted \<in> event_kind ` set es \<and> BackupFailed \<notin> event_kind ` set es)
   \<and> (seal_ring (Seal (sealTierForEvents es)) = None \<longleftrightarrow>
        event_kind ` set es \<inter> {BackupFailed, RestoreVerificationCompleted,
          RepositoryVerificationCompleted, ArtifactCreated} = {})
   \<and> (seal_label (Seal t) = seal_label (Seal u) \<longleftrightarrow> t = u)"
proof -
  have "seal_label (Seal t) = seal_label (Seal u) \<longleftrightarrow> t = u"
    by (cases t; cases u; simp add: Seal_def TIER_LABEL_def Let_def)
  then show ?thesis
    by (auto simp: Seal_def sealTierForEvents_def TIER_FRACTION_def Let_def)
qed

section \<open>Properties\<close>

text \<open>
  C36. The seal shows the highest tier any of the job's events testifies to, a failure outranking
  everything: nothing is inferred that no event says. So it does not depend on the order or the
  repetition of events, and more events never lower it.
\<close>

theorem seal_is_highest_testimony:
  "sealTierForEvents es = highest_tier es
   \<and> sealTierForEvents (rev es) = sealTierForEvents es
   \<and> sealTierForEvents (es @ fs) = max (sealTierForEvents es) (sealTierForEvents fs)
   \<and> sealTierForEvents es \<le> sealTierForEvents (es @ fs)
   \<and> (sealTierForEvents es = NoTier \<or> sealTierForEvents es \<in> event_tier ` event_kind ` set es)"
proof -
  have "sealTierForEvents (rev es) = sealTierForEvents es" by (rule seal_cong) simp
  moreover have "highest_tier es = NoTier \<or> highest_tier es \<in> event_tier ` event_kind ` set es"
    by (induction es) (auto simp: max_def)
  ultimately show ?thesis using seal_highest [of es] seal_append [of es fs] by simp
qed

end
