(* ===== verification/Activity.thy ===== *)
theory Activity
  imports Types
begin

text \<open>
  \<open>web/src/lib/activity.ts\<close> and the data side of \<open>ActivityChart.tsx\<close>. A \<open>Date\<close> is its time
  value, the milliseconds since 1970 in UTC. What depends on the browser is an argument: the time
  zone, as the two maps of the language between UTC and local time, and the locale's label of a
  day. The calendar is written out: a day number is split into cycles of 400, 100, 4 and 1 years
  that begin in March, and \<open>toISOString().slice(0, 10)\<close> is the text of the result.
\<close>

section \<open>Dates\<close>

definition MS_PER_DAY :: int where
  "MS_PER_DAY = 86400000"

text \<open>
  The day of a 400-year cycle (from a 1 March) as a year of the cycle and a day of that year, and
  the month and day of a day of the year; then year, month and day of a day number.
\<close>

definition year_in_cycle :: "int \<Rightarrow> int \<times> int" where
  "year_in_cycle r0 =
     (let c = min 3 (r0 div 36524); r1 = r0 - 36524 * c;
          q = r1 div 1461; r2 = r1 - 1461 * q;
          y = min 3 (r2 div 365)
      in (100 * c + 4 * q + y, r2 - 365 * y))"

definition month_day :: "int \<Rightarrow> int \<times> int" where
  "month_day doy = (let mp = (5 * doy + 2) div 153 in (mp, doy - (153 * mp + 2) div 5 + 1))"

definition civil :: "int \<Rightarrow> int \<times> int \<times> int" where
  "civil d =
     (let z = d + 719468;
          (yc, doy) = year_in_cycle (z mod 146097);
          (mp, dd) = month_day doy;
          m = (if mp < 10 then mp + 3 else mp - 9)
      in (400 * (z div 146097) + yc + (if m \<le> 2 then 1 else 0), m, dd))"

fun digits :: "nat \<Rightarrow> nat \<Rightarrow> jsstr" where
  "digits 0 n = []"
| "digits (Suc k) n = digits k (n div 10) @ [digit_unit (n mod 10)]"

definition iso_year :: "int \<Rightarrow> jsstr" where
  "iso_year y = (if 0 \<le> y \<and> y \<le> 9999 then digits 4 (nat y)
     else (if y < 0 then js ''-'' else js ''+'') @ digits 6 (nat (abs y)))"

text \<open>\<open>toISOString().slice(0, 10)\<close> of a time value.\<close>

definition iso_date :: "int \<Rightarrow> jsstr" where
  "iso_date t = (case civil (t div MS_PER_DAY) of (y, m, dd) \<Rightarrow>
     take 10 (iso_year y @ js ''-'' @ digits 2 (nat m) @ js ''-'' @ digits 2 (nat dd)))"

text \<open>The time zone: \<open>LocalTime\<close> and \<open>UTC\<close> of the language.\<close>

record time_zone =
  local_of_utc :: "int \<Rightarrow> int"
  utc_of_local :: "int \<Rightarrow> int"

text \<open>\<open>d.setDate(d.getDate() - i)\<close>: the local time of day is kept, the local day moves.\<close>

definition days_back :: "time_zone \<Rightarrow> int \<Rightarrow> nat \<Rightarrow> int" where
  "days_back z now i = utc_of_local z (local_of_utc z now - int i * MS_PER_DAY)"

section \<open>bucketJobsByDay\<close>

record day_bucket =
  bucket_date :: jsstr
  bucket_label :: jsstr
  bucket_succeeded :: nat
  bucket_active :: nat
  bucket_failed :: nat

text \<open>\<open>Map.set\<close> keeps the place of a key it already has.\<close>

fun bucket_set :: "day_bucket \<Rightarrow> day_bucket list \<Rightarrow> day_bucket list" where
  "bucket_set b [] = [b]"
| "bucket_set b (c # cs) = (if bucket_date c = bucket_date b then b # cs else c # bucket_set b cs)"

definition new_bucket :: "(int \<Rightarrow> jsstr) \<Rightarrow> int \<Rightarrow> day_bucket" where
  "new_bucket label d = \<lparr>bucket_date = iso_date d, bucket_label = label d,
     bucket_succeeded = 0, bucket_active = 0, bucket_failed = 0\<rparr>"

definition empty_buckets :: "time_zone \<Rightarrow> (int \<Rightarrow> jsstr) \<Rightarrow> int \<Rightarrow> nat \<Rightarrow> day_bucket list" where
  "empty_buckets z label now days =
     fold (\<lambda>i. bucket_set (new_bucket label (days_back z now i))) (rev [0..<days]) []"

definition count_status :: "job_status \<Rightarrow> day_bucket \<Rightarrow> day_bucket" where
  "count_status s b = (case s of
       Completed \<Rightarrow> b\<lparr>bucket_succeeded := bucket_succeeded b + 1\<rparr>
     | Failed \<Rightarrow> b\<lparr>bucket_failed := bucket_failed b + 1\<rparr>
     | _ \<Rightarrow> b\<lparr>bucket_active := bucket_active b + 1\<rparr>)"

definition count_job :: "job \<Rightarrow> day_bucket list \<Rightarrow> day_bucket list" where
  "count_job j bs =
     map (\<lambda>b. if bucket_date b = js_prefix 10 (job_queuedAt j) then count_status (job_state j) b else b) bs"

definition bucketJobsByDay ::
  "time_zone \<Rightarrow> (int \<Rightarrow> jsstr) \<Rightarrow> int \<Rightarrow> job list \<Rightarrow> nat \<Rightarrow> day_bucket list" where
  "bucketJobsByDay z label now jobs days = fold count_job jobs (empty_buckets z label now days)"

section \<open>ActivityChart\<close>

definition hasData :: "day_bucket list \<Rightarrow> bool" where
  "hasData bs = list_ex (\<lambda>d. bucket_succeeded d + bucket_active d + bucket_failed d > 0) bs"

datatype series = Succeeded | Active | FailedSeries

definition SERIES :: "(series \<times> jsstr) list" where
  "SERIES = [(Succeeded, js ''Succeeded''), (Active, js ''Queued / running''), (FailedSeries, js ''Failed'')]"

text \<open>The tooltip over the chart's payload: \<open>None\<close> values are no numbers; \<open>None\<close> shows nothing.\<close>

definition ChartTooltip ::
  "bool \<Rightarrow> (series \<times> nat option) list \<Rightarrow> jsstr \<Rightarrow> (jsstr \<times> (jsstr \<times> nat) list) option" where
  "ChartTooltip active payload label =
     (if \<not> active \<or> payload = [] then None
      else if sum_list (map (\<lambda>p. case snd p of None \<Rightarrow> 0 | Some v \<Rightarrow> v) payload) = 0 then None
      else Some (label, concat (map (\<lambda>(s, l).
        let value = (case List.find (\<lambda>p. fst p = s) payload of Some (_, Some v) \<Rightarrow> v | _ \<Rightarrow> 0)
        in if value = 0 then [] else [(l, value)]) SERIES)))"

text \<open>
  What the chart is given: the legend, for each bucket its label and the stacked counts in the order
  of the bars, and the note when there is nothing to draw. Drawing it is the charting library's.
\<close>

record chart =
  chart_legend :: "jsstr list"
  chart_bars :: "(jsstr \<times> (series \<times> nat) list) list"
  chart_note :: "jsstr option"

definition ActivityChart :: "day_bucket list \<Rightarrow> chart" where
  "ActivityChart bs =
     \<lparr>chart_legend = map snd SERIES,
      chart_bars = map (\<lambda>d. (bucket_label d, [(Succeeded, bucket_succeeded d), (Active, bucket_active d),
        (FailedSeries, bucket_failed d)])) bs,
      chart_note = (if hasData bs then None else Some (js ''No jobs queued in this window yet.''))\<rparr>"

section \<open>The calendar determines the day\<close>

lemma div_bounds:
  fixes a b :: int
  assumes "0 < b"
  shows "b * (a div b) \<le> a" "a < b * (a div b) + b"
proof -
  have "a = b * (a div b) + a mod b" "0 \<le> a mod b" "a mod b < b" using assms by simp_all
  then show "b * (a div b) \<le> a" "a < b * (a div b) + b" by linarith+
qed

lemma year_in_cycle:
  assumes "0 \<le> r" "r < 146097" "year_in_cycle r = (yc, doy)"
  shows "0 \<le> yc" "yc < 400" "0 \<le> doy" "doy \<le> 365"
    and "r = 365 * yc + yc div 4 - yc div 100 + doy"
proof -
  define c where "c = min 3 (r div 36524)"
  define r1 where "r1 = r - 36524 * c"
  define q where "q = r1 div 1461"
  define r2 where "r2 = r1 - 1461 * q"
  define y where "y = min 3 (r2 div 365)"
  have eq: "yc = 100 * c + 4 * q + y" "doy = r2 - 365 * y"
    using assms(3) by (auto simp: year_in_cycle_def Let_def c_def r1_def q_def r2_def y_def)
  have c: "0 \<le> c" "c \<le> 3" "0 \<le> r1" "r1 \<le> 36524"
    using div_bounds [of 36524 r] assms(1,2) pos_imp_zdiv_nonneg_iff [of 36524 r]
    unfolding r1_def c_def by (auto simp: min_def)
  have q: "0 \<le> q" "q \<le> 24" "0 \<le> r2" "r2 \<le> 1460"
    using div_bounds [of 1461 r1] c pos_imp_zdiv_nonneg_iff [of 1461 r1] unfolding r2_def q_def by linarith+
  have y: "0 \<le> y" "y \<le> 3" "0 \<le> r2 - 365 * y" "r2 - 365 * y \<le> 365"
    using div_bounds [of 365 r2] q pos_imp_zdiv_nonneg_iff [of 365 r2] unfolding y_def by (auto simp: min_def)
  show "0 \<le> yc" "yc < 400" "0 \<le> doy" "doy \<le> 365" using c q y eq by linarith+
  have "yc = 4 * (25 * c + q) + y" "0 \<le> y" "y < 4" using eq y by simp_all
  then have d4: "yc div 4 = 25 * c + q" by simp
  have "yc = 100 * c + (4 * q + y)" "0 \<le> 4 * q + y" "4 * q + y < 100" using eq q y by simp_all
  then have d100: "yc div 100 = c" by simp
  show "r = 365 * yc + yc div 4 - yc div 100 + doy"
    by (simp only: d4 d100) (simp add: eq r2_def r1_def)
qed

lemma month_day:
  assumes "0 \<le> doy" "doy \<le> 365" "month_day doy = (mp, dd)"
  shows "0 \<le> mp" "mp \<le> 11" "1 \<le> dd" "dd \<le> 31" "doy = dd - 1 + (153 * mp + 2) div 5"
proof -
  have mp: "mp = (5 * doy + 2) div 153" and dd: "dd = doy - (153 * mp + 2) div 5 + 1"
    using assms(3) by (auto simp: month_day_def Let_def)
  have b: "153 * mp \<le> 5 * doy + 2" "5 * doy + 2 < 153 * mp + 153"
    unfolding mp using div_bounds [of 153 "5 * doy + 2"] by simp_all
  then show "0 \<le> mp" "mp \<le> 11" using assms(1,2) by linarith+
  show "1 \<le> dd" "dd \<le> 31" unfolding dd using b div_bounds [of 5 "153 * mp + 2"] by linarith+
  show "doy = dd - 1 + (153 * mp + 2) div 5" unfolding dd by simp
qed

text \<open>The day number a date belongs to: the inverse of \<open>civil\<close>.\<close>

definition day_number :: "int \<times> int \<times> int \<Rightarrow> int" where
  "day_number = (\<lambda>(y, m, dd).
     let y' = y - (if m \<le> 2 then 1 else 0);
         mp = (if m \<ge> 3 then m - 3 else m + 9);
         yc = y' mod 400
     in 146097 * (y' div 400) + 365 * yc + yc div 4 - yc div 100 + dd - 1 + (153 * mp + 2) div 5 - 719468)"

lemma civil_parts:
  obtains yc doy mp dd where "year_in_cycle ((d + 719468) mod 146097) = (yc, doy)"
    "month_day doy = (mp, dd)"
    "civil d = (400 * ((d + 719468) div 146097) + yc + (if mp < 10 then 0 else 1),
       (if mp < 10 then mp + 3 else mp - 9), dd)"
    "0 \<le> yc" "yc < 400" "0 \<le> mp" "mp \<le> 11" "1 \<le> dd" "dd \<le> 31"
    "(d + 719468) mod 146097 = 365 * yc + yc div 4 - yc div 100 + doy"
    "doy = dd - 1 + (153 * mp + 2) div 5"
proof -
  obtain yc doy where y: "year_in_cycle ((d + 719468) mod 146097) = (yc, doy)" by fastforce
  obtain mp dd where m: "month_day doy = (mp, dd)" by fastforce
  have r: "0 \<le> (d + 719468) mod 146097" "(d + 719468) mod 146097 < 146097" by simp_all
  note yb = year_in_cycle [OF r y]
  note mb = month_day [OF yb(3,4) m]
  have "civil d = (400 * ((d + 719468) div 146097) + yc + (if mp < 10 then 0 else 1),
       (if mp < 10 then mp + 3 else mp - 9), dd)"
    using mb(1,2) by (simp add: civil_def y m Let_def)
  with that y m yb mb show thesis by blast
qed

lemma day_number_civil: "day_number (civil d) = d"
proof -
  obtain yc doy mp dd where p: "civil d = (400 * ((d + 719468) div 146097) + yc + (if mp < 10 then 0 else 1),
       (if mp < 10 then mp + 3 else mp - 9), dd)"
    "0 \<le> yc" "yc < 400" "0 \<le> mp" "mp \<le> 11"
    "(d + 719468) mod 146097 = 365 * yc + yc div 4 - yc div 100 + doy"
    "doy = dd - 1 + (153 * mp + 2) div 5"
    by (rule civil_parts)
  define e where "e = (d + 719468) div 146097"
  have d: "d + 719468 = 146097 * e + (d + 719468) mod 146097" by (simp add: e_def)
  have y: "(400 * e + yc) div 400 = e" "(400 * e + yc) mod 400 = yc" using p(2,3) by simp_all
  have "day_number (civil d) = 146097 * e + 365 * yc + yc div 4 - yc div 100 + dd - 1
      + (153 * mp + 2) div 5 - 719468"
    unfolding p(1) e_def [symmetric] using p(4,5) y by (simp add: day_number_def Let_def)
  with d p(6,7) show ?thesis by linarith
qed

lemma civil_inj: "civil a = civil b \<Longrightarrow> a = b"
  by (metis day_number_civil)

lemma length_digits [simp]: "length (digits k n) = k"
  by (induction k arbitrary: n) auto

lemma unat_digit_unit: "k < 10 \<Longrightarrow> unat (digit_unit k) = 48 + k"
  by (simp add: digit_unit_def unat_cu)

lemma digit_unit_inj:
  assumes "a < 10" "b < 10" "digit_unit a = digit_unit b"
  shows "a = b"
proof -
  have "48 + a = 48 + b"
    using unat_digit_unit [OF assms(1)] unat_digit_unit [OF assms(2)] assms(3) by metis
  then show ?thesis by simp
qed

lemma digits_inj: "n < 10 ^ k \<Longrightarrow> m < 10 ^ k \<Longrightarrow> digits k n = digits k m \<Longrightarrow> n = m"
proof (induction k arbitrary: n m)
  case (Suc k)
  then have "n div 10 = m div 10" using Suc.IH [of "n div 10" "m div 10"] by (simp add: less_mult_imp_div_less mult.commute)
  moreover have "n mod 10 = m mod 10" using Suc.prems digit_unit_inj [of "n mod 10" "m mod 10"] by simp
  ultimately show ?case by (metis div_mult_mod_eq)
qed simp

text \<open>The years \<open>toISOString\<close> writes with four digits.\<close>

definition plain_year :: "int \<Rightarrow> bool" where
  "plain_year d \<longleftrightarrow> 0 \<le> fst (civil d) \<and> fst (civil d) \<le> 9999"

lemma civil_range:
  assumes "civil d = (y, m, dd)"
  shows "1 \<le> m" "m \<le> 12" "1 \<le> dd" "dd \<le> 31"
proof -
  obtain yc doy mp dd' where "civil d = (400 * ((d + 719468) div 146097) + yc + (if mp < 10 then 0 else 1),
       (if mp < 10 then mp + 3 else mp - 9), dd')" "0 \<le> mp" "mp \<le> 11" "1 \<le> dd'" "dd' \<le> 31"
    by (rule civil_parts) 
  with assms show "1 \<le> m" "m \<le> 12" "1 \<le> dd" "dd \<le> 31" by (auto split: if_splits)
qed

definition day_text :: "int \<Rightarrow> jsstr" where
  "day_text d = iso_date (d * MS_PER_DAY)"

lemma iso_date_day: "iso_date t = day_text (t div MS_PER_DAY)"
  by (simp add: day_text_def iso_date_def MS_PER_DAY_def)

lemma day_text_plain:
  assumes "plain_year d" "civil d = (y, m, dd)"
  shows "day_text d = digits 4 (nat y) @ js ''-'' @ digits 2 (nat m) @ js ''-'' @ digits 2 (nat dd)"
  using assms by (simp add: day_text_def iso_date_def MS_PER_DAY_def plain_year_def iso_year_def)

lemma day_text_inj:
  assumes "plain_year a" "plain_year b" "day_text a = day_text b"
  shows "a = b"
proof (rule civil_inj)
  obtain y m dd where a: "civil a = (y, m, dd)" by (cases "civil a")
  obtain y' m' dd' where b: "civil b = (y', m', dd')" by (cases "civil b")
  have "digits 4 (nat y) @ js ''-'' @ digits 2 (nat m) @ js ''-'' @ digits 2 (nat dd)
      = digits 4 (nat y') @ js ''-'' @ digits 2 (nat m') @ js ''-'' @ digits 2 (nat dd')"
    using assms a b by (simp only: day_text_plain [OF assms(1) a] day_text_plain [OF assms(2) b])
  then have "digits 4 (nat y) = digits 4 (nat y')" "digits 2 (nat m) = digits 2 (nat m')"
    "digits 2 (nat dd) = digits 2 (nat dd')" by simp_all
  moreover have "0 \<le> y" "y \<le> 9999" "0 \<le> y'" "y' \<le> 9999"
    using assms a b by (auto simp: plain_year_def)
  ultimately have "nat y = nat y'" "nat m = nat m'" "nat dd = nat dd'"
    using civil_range [OF a] civil_range [OF b]
    by (auto intro: digits_inj [of _ 4] digits_inj [of _ 2])
  then have "y = y'" "m = m'" "dd = dd'"
    using \<open>0 \<le> y\<close> \<open>0 \<le> y'\<close> civil_range [OF a] civil_range [OF b] by linarith+
  then show "civil a = civil b" using a b by simp
qed

section \<open>Buckets\<close>

lemma bucket_set_dates: "map bucket_date (bucket_set b cs) =
  (if bucket_date b \<in> set (map bucket_date cs) then map bucket_date cs else map bucket_date cs @ [bucket_date b])"
  by (induction cs) auto

lemma bucket_set_zero: "\<forall>c\<in>set cs. bucket_succeeded c = 0 \<and> bucket_active c = 0 \<and> bucket_failed c = 0 \<Longrightarrow>
  \<forall>c\<in>set (bucket_set (new_bucket l d) cs). bucket_succeeded c = 0 \<and> bucket_active c = 0 \<and> bucket_failed c = 0"
  by (induction cs) (auto simp: new_bucket_def)

lemma empty_buckets_dates:
  "map bucket_date (fold (\<lambda>i. bucket_set (new_bucket l (f i))) is cs)
     = fold (\<lambda>i ds. if iso_date (f i) \<in> set ds then ds else ds @ [iso_date (f i)]) is (map bucket_date cs)"
proof (induction "is" arbitrary: cs)
  case (Cons i "is")
  show ?case by (simp add: Cons bucket_set_dates) (simp add: new_bucket_def)
qed simp

lemma fold_fresh:
  "distinct (ds @ map g is) \<Longrightarrow>
     fold (\<lambda>i ds. if g i \<in> set ds then ds else ds @ [g i]) is ds = ds @ map g is"
  by (induction "is" arbitrary: ds) auto

lemma fold_distinct:
  "distinct ds \<Longrightarrow> distinct (fold (\<lambda>i ds. if g i \<in> set ds then ds else ds @ [g i]) is ds)"
  by (induction "is" arbitrary: ds) auto

lemma empty_buckets_distinct: "distinct (map bucket_date (empty_buckets z label now days))"
  unfolding empty_buckets_def empty_buckets_dates by (rule fold_distinct) simp

lemma empty_buckets_zero: "\<forall>c\<in>set (empty_buckets z label now days).
    bucket_succeeded c = 0 \<and> bucket_active c = 0 \<and> bucket_failed c = 0"
proof -
  have gen: "\<forall>c\<in>set cs. bucket_succeeded c = 0 \<and> bucket_active c = 0 \<and> bucket_failed c = 0 \<Longrightarrow>
    \<forall>c\<in>set (fold (\<lambda>i. bucket_set (new_bucket label (f i))) is cs).
      bucket_succeeded c = 0 \<and> bucket_active c = 0 \<and> bucket_failed c = 0" for f :: "nat \<Rightarrow> int" and "is" cs
  proof (induction "is" arbitrary: cs)
    case (Cons i "is")
    from Cons.IH [OF bucket_set_zero [OF Cons.prems, of label "f i"]] show ?case
      by (simp only: fold_Cons comp_apply)
  qed simp
  show ?thesis unfolding empty_buckets_def by (rule gen) simp
qed

lemma count_job_dates [simp]: "map bucket_date (count_job j bs) = map bucket_date bs"
  by (auto simp: count_job_def count_status_def split: job_status.splits)

lemma fold_count_dates: "map bucket_date (fold count_job jobs bs) = map bucket_date bs"
  by (induction jobs arbitrary: bs) auto

definition bucket_total :: "day_bucket \<Rightarrow> nat" where
  "bucket_total b = bucket_succeeded b + bucket_active b + bucket_failed b"

text \<open>A bucket with the jobs of its day counted in.\<close>

definition day_jobs :: "jsstr \<Rightarrow> (job_status \<Rightarrow> bool) \<Rightarrow> job list \<Rightarrow> nat" where
  "day_jobs d P jobs = length (filter (\<lambda>j. js_prefix 10 (job_queuedAt j) = d \<and> P (job_state j)) jobs)"

definition with_jobs :: "job list \<Rightarrow> day_bucket \<Rightarrow> day_bucket" where
  "with_jobs jobs b = b\<lparr>
     bucket_succeeded := bucket_succeeded b + day_jobs (bucket_date b) (\<lambda>s. s = Completed) jobs,
     bucket_active := bucket_active b + day_jobs (bucket_date b) (\<lambda>s. s = Queued \<or> s = In_progress) jobs,
     bucket_failed := bucket_failed b + day_jobs (bucket_date b) (\<lambda>s. s = Failed) jobs\<rparr>"

lemma with_jobs_Cons:
  "with_jobs jobs (if bucket_date b = js_prefix 10 (job_queuedAt j) then count_status (job_state j) b else b)
     = with_jobs (j # jobs) b"
  by (cases "job_state j") (auto simp: with_jobs_def day_jobs_def count_status_def)

lemma fold_count: "fold count_job jobs bs = map (with_jobs jobs) bs"
proof (induction jobs arbitrary: bs)
  case Nil
  then show ?case by (simp add: with_jobs_def day_jobs_def)
next
  case (Cons j jobs)
  then show ?case by (simp add: count_job_def with_jobs_Cons comp_def)
qed

lemma bucket_total_with_jobs: "bucket_total (with_jobs jobs b) = bucket_total b + day_jobs (bucket_date b) (\<lambda>_. True) jobs"
proof -
  have split: "day_jobs d (\<lambda>s. s = Completed) js + day_jobs d (\<lambda>s. s = Queued \<or> s = In_progress) js
      + day_jobs d (\<lambda>s. s = Failed) js = day_jobs d (\<lambda>_. True) js" for d and js :: "job list"
  proof (induction js)
    case (Cons j js)
    then show ?case by (cases "job_state j") (simp_all add: day_jobs_def)
  qed (simp add: day_jobs_def)
  from split [of "bucket_date b" jobs] show ?thesis by (simp add: bucket_total_def with_jobs_def)
qed

lemma sum_day_jobs:
  "distinct ds \<Longrightarrow> sum_list (map (\<lambda>d. day_jobs d (\<lambda>_. True) jobs) ds)
     = length (filter (\<lambda>j. js_prefix 10 (job_queuedAt j) \<in> set ds) jobs)"
proof (induction ds)
  case (Cons d ds)
  have "length (filter (\<lambda>j. js_prefix 10 (job_queuedAt j) \<in> set (d # ds)) jobs)
      = day_jobs d (\<lambda>_. True) jobs + length (filter (\<lambda>j. js_prefix 10 (job_queuedAt j) \<in> set ds) jobs)"
    using Cons.prems by (induction jobs) (auto simp: day_jobs_def)
  with Cons show ?case by simp
qed (simp add: day_jobs_def)

lemma bucket_dates: "map bucket_date (bucketJobsByDay z label now jobs days)
    = map bucket_date (empty_buckets z label now days)"
  unfolding bucketJobsByDay_def by (rule fold_count_dates)

lemma bucketJobs_distinct: "distinct (map bucket_date (bucketJobsByDay z label now jobs days))"
  unfolding bucket_dates by (rule empty_buckets_distinct)

text \<open>No change of the clocks between now and the first day of the window.\<close>

definition steady :: "time_zone \<Rightarrow> int \<Rightarrow> nat \<Rightarrow> bool" where
  "steady z now days \<longleftrightarrow> (\<forall>i<days. days_back z now i = now - int i * MS_PER_DAY)"

lemma days_back_day:
  assumes "steady z now days" "i < days"
  shows "iso_date (days_back z now i) = day_text (now div MS_PER_DAY - int i)"
proof -
  have "(now - int i * MS_PER_DAY) div MS_PER_DAY = now div MS_PER_DAY - int i"
    using div_mult_self1 [of MS_PER_DAY now "- int i"] by (simp add: MS_PER_DAY_def)
  with assms show ?thesis by (simp add: steady_def iso_date_day)
qed

lemma steady_dates:
  assumes "steady z now days" "\<forall>i<days. plain_year (now div MS_PER_DAY - int i)"
  shows "map bucket_date (empty_buckets z label now days)
    = map (\<lambda>i. day_text (now div MS_PER_DAY - int i)) (rev [0..<days])"
proof -
  have eq: "map (\<lambda>i. iso_date (days_back z now i)) (rev [0..<days])
      = map (\<lambda>i. day_text (now div MS_PER_DAY - int i)) (rev [0..<days])"
    using days_back_day [OF assms(1)] by simp
  have "inj_on (\<lambda>i. day_text (now div MS_PER_DAY - int i)) {0..<days}"
    using assms(2) day_text_inj by (fastforce intro!: inj_onI)
  then have "distinct ([] @ map (\<lambda>i. iso_date (days_back z now i)) (rev [0..<days]))"
    unfolding eq by (simp add: distinct_map)
  from fold_fresh [OF this] show ?thesis unfolding empty_buckets_def empty_buckets_dates eq [symmetric] by simp
qed

section \<open>Properties\<close>

text \<open>
  The x-axis is a continuous timeline: as long as the clocks do not change within the window,
  there is exactly one bucket for each of its days, oldest first, the last one today's UTC date.
\<close>

theorem activity_window_continuous:
  assumes "steady z now days" "\<forall>i<days. plain_year (now div MS_PER_DAY - int i)"
  shows "map bucket_date (bucketJobsByDay z label now jobs days)
      = map (\<lambda>i. day_text (now div MS_PER_DAY - int i)) (rev [0..<days])
    \<and> length (bucketJobsByDay z label now jobs days) = days"
proof -
  have dates: "map bucket_date (bucketJobsByDay z label now jobs days)
      = map (\<lambda>i. day_text (now div MS_PER_DAY - int i)) (rev [0..<days])"
    unfolding bucket_dates by (rule steady_dates [OF assms])
  from arg_cong [OF this, of length] have "length (bucketJobsByDay z label now jobs days) = days" by simp
  with dates show ?thesis by blast
qed

theorem activity_window_continuous_witness:
  "length (bucketJobsByDay \<lparr>local_of_utc = (\<lambda>t. t + 3600000), utc_of_local = (\<lambda>t. t - 3600000)\<rparr>
     (\<lambda>_. []) 1710072000000 [] 3) = 3"
proof (rule activity_window_continuous [THEN conjunct2])
  show "steady \<lparr>local_of_utc = (\<lambda>t. t + 3600000), utc_of_local = (\<lambda>t. t - 3600000)\<rparr> 1710072000000 3"
    by (simp add: steady_def days_back_def)
  have today: "(1710072000000 :: int) div MS_PER_DAY = 19792" by (simp add: MS_PER_DAY_def)
  have "plain_year 19792" "plain_year 19791" "plain_year 19790"
    by code_simp+
  note days = this
  show "\<forall>i<3. plain_year (1710072000000 div MS_PER_DAY - int i)"
  proof (intro allI impI)
    fix i :: nat assume "i < 3"
    then have "i = 0 \<or> i = 1 \<or> i = 2" by linarith
    then show "plain_year (1710072000000 div MS_PER_DAY - int i)" using days today by (elim disjE) simp_all
  qed
qed

text \<open>
  C38. Every job is counted at most once and where it belongs: a bucket holds exactly the jobs queued
  on its date, by status (queued and running together), no date has two buckets, and together the
  buckets hold exactly the jobs whose date has a bucket. The chart says there is nothing exactly
  when there is no such job.
\<close>

theorem activity_counts_jobs:
  "list_all (\<lambda>b. bucket_succeeded b = day_jobs (bucket_date b) (\<lambda>s. s = Completed) jobs
       \<and> bucket_active b = day_jobs (bucket_date b) (\<lambda>s. s = Queued \<or> s = In_progress) jobs
       \<and> bucket_failed b = day_jobs (bucket_date b) (\<lambda>s. s = Failed) jobs)
     (bucketJobsByDay z label now jobs days)
   \<and> distinct (map bucket_date (bucketJobsByDay z label now jobs days))
   \<and> sum_list (map bucket_total (bucketJobsByDay z label now jobs days))
       = length (filter (\<lambda>j. js_prefix 10 (job_queuedAt j) \<in> bucket_date ` set (bucketJobsByDay z label now jobs days)) jobs)
   \<and> (hasData (bucketJobsByDay z label now jobs days)
       \<longleftrightarrow> sum_list (map bucket_total (bucketJobsByDay z label now jobs days)) \<noteq> 0)"
proof -
  let ?e = "empty_buckets z label now days" and ?bs = "bucketJobsByDay z label now jobs days"
  have bs: "?bs = map (with_jobs jobs) ?e" by (simp add: bucketJobsByDay_def fold_count)
  note zero = empty_buckets_zero [of z label now days]
  have dates: "bucket_date ` set ?bs = set (map bucket_date ?e)"
    using arg_cong [OF bucket_dates [of z label now jobs days], of set] by simp
  have "map bucket_total ?bs = map (\<lambda>d. day_jobs d (\<lambda>_. True) jobs) (map bucket_date ?e)"
    using zero by (simp add: bs bucket_total_with_jobs) (simp add: bucket_total_def)
  then have "sum_list (map bucket_total ?bs) = length (filter (\<lambda>j. js_prefix 10 (job_queuedAt j) \<in> bucket_date ` set ?bs) jobs)"
    unfolding dates using sum_day_jobs [OF empty_buckets_distinct] by metis
  moreover have "hasData ?bs \<longleftrightarrow> sum_list (map bucket_total ?bs) \<noteq> 0"
    by (auto simp: hasData_def list_ex_iff bucket_total_def)
  moreover have "list_all (\<lambda>b. bucket_succeeded b = day_jobs (bucket_date b) (\<lambda>s. s = Completed) jobs
       \<and> bucket_active b = day_jobs (bucket_date b) (\<lambda>s. s = Queued \<or> s = In_progress) jobs
       \<and> bucket_failed b = day_jobs (bucket_date b) (\<lambda>s. s = Failed) jobs) ?bs"
    using zero by (auto simp: bs list_all_iff with_jobs_def)
  ultimately show ?thesis using bucketJobs_distinct by blast
qed

text \<open>London, 2024: summer time ended on 27 October at 01:00 UTC.\<close>

definition london_2024 :: time_zone where
  "london_2024 = \<lparr>local_of_utc = (\<lambda>t. if t < 1729990800000 then t + 3600000 else t),
     utc_of_local = (\<lambda>l. if l < 1729994400000 then l - 3600000 else l)\<rparr>"

lemma london_days:
  "iso_date (days_back london_2024 1730075400000 0) = js ''2024-10-28''"
  "iso_date (days_back london_2024 1730075400000 1) = js ''2024-10-26''"
  "iso_date (days_back london_2024 1730075400000 2) = js ''2024-10-25''"
  by code_simp+

lemma london_dates:
  "map bucket_date (empty_buckets london_2024 label 1730075400000 3)
     = map js [''2024-10-25'', ''2024-10-26'', ''2024-10-28'']"
proof -
  have "rev [0..<3 :: nat] = [2, 1, 0]" by (simp add: upt_conv_Cons numeral_eq_Suc)
  then have "map bucket_date (empty_buckets london_2024 label 1730075400000 3)
      = fold (\<lambda>i ds. if iso_date (days_back london_2024 1730075400000 i) \<in> set ds then ds
          else ds @ [iso_date (days_back london_2024 1730075400000 i)]) [2, 1, 0] []"
    by (simp only: empty_buckets_def empty_buckets_dates list.map)
  also have "\<dots> = map js [''2024-10-25'', ''2024-10-26'', ''2024-10-28'']"
    using london_days(2) by (simp add: london_days)
  finally show ?thesis .
qed

text \<open>
  A change of the clocks breaks the timeline. The days are counted in local time but keyed by
  their UTC date: half past midnight, the day after summer time ended in London, the window of
  three days has no bucket for that Sunday, and jobs queued on it are dropped without a trace.
\<close>

theorem activity_loses_a_day:
  "map bucket_date (bucketJobsByDay london_2024 label 1730075400000 jobs 3)
     = map js [''2024-10-25'', ''2024-10-26'', ''2024-10-28'']
   \<and> bucketJobsByDay london_2024 label 1730075400000
        (j\<lparr>job_queuedAt := js ''2024-10-27T12:00:00Z''\<rparr> # jobs) 3
      = bucketJobsByDay london_2024 label 1730075400000 jobs 3"
proof -
  have day: "js_prefix 10 (job_queuedAt (j\<lparr>job_queuedAt := js ''2024-10-27T12:00:00Z''\<rparr>)) = js ''2024-10-27''"
    by (simp add: js_prefix_def js_def)
  have "count_job (j\<lparr>job_queuedAt := js ''2024-10-27T12:00:00Z''\<rparr>) bs = bs"
    if "map bucket_date bs = map js [''2024-10-25'', ''2024-10-26'', ''2024-10-28'']" for bs
  proof -
    have "\<forall>b\<in>set bs. bucket_date b \<noteq> js ''2024-10-27''"
    proof
      fix b assume "b \<in> set bs"
      then have "bucket_date b \<in> set (map bucket_date bs)" by simp
      then show "bucket_date b \<noteq> js ''2024-10-27''" unfolding that by auto
    qed
    then show ?thesis unfolding count_job_def day by (intro map_idI) auto
  qed
  from this [OF london_dates] show ?thesis
    using bucket_dates [of london_2024 label 1730075400000 jobs 3] london_dates
    by (simp add: bucketJobsByDay_def)
qed

end
