(* ===== verification/Format.thy ===== *)
theory Format
  imports Types
begin

text \<open>
  \<open>web/src/lib/format.ts\<close> and \<open>web/src/lib/motion.ts\<close>. The parser of date strings, the
  current time and the phrases of \<open>Intl.RelativeTimeFormat\<close> belong to the browser and are
  arguments: \<open>parse\<close> gives milliseconds, or \<open>None\<close> for an invalid date (\<open>NaN\<close>), for which
  \<open>format\<close> throws a \<open>RangeError\<close>. Numbers are the exact values: a time difference, a byte
  count and a byte count over a power of two are exact in a double below \<open>2^53\<close>, and
  \<open>Math.log\<close> is taken to be accurate enough to find the power of 1024 below a count.
\<close>

section \<open>formatRelative\<close>

text \<open>\<open>Math.round(a / b)\<close>: the nearest integer, halves upwards.\<close>

definition round_div :: "int \<Rightarrow> int \<Rightarrow> int" where
  "round_div a b = (2 * a + b) div (2 * b)"

definition relative_units :: "(string \<times> int) list" where
  "relative_units = [(''year'', 31536000), (''month'', 2592000), (''week'', 604800), (''day'', 86400),
     (''hour'', 3600), (''minute'', 60)]"

text \<open>The number and the unit handed to the formatter for a difference in seconds.\<close>

definition relative_parts :: "int \<Rightarrow> (int \<times> string) option" where
  "relative_parts diffSec = (case List.find (\<lambda>(unit, secs). secs \<le> abs diffSec) relative_units of
       Some (unit, secs) \<Rightarrow> Some (round_div diffSec secs, unit)
     | None \<Rightarrow> if abs diffSec < 5 then None else Some (diffSec, ''second''))"

definition formatRelative ::
  "(jsstr \<Rightarrow> int option) \<Rightarrow> int \<Rightarrow> (int \<Rightarrow> jsstr \<Rightarrow> jsstr) \<Rightarrow> jsstr \<Rightarrow> jsstr result" where
  "formatRelative parse now rtf src = (case parse src of
       None \<Rightarrow> Inl OtherError
     | Some t \<Rightarrow> (case relative_parts (round_div (t - now) 1000) of
           None \<Rightarrow> Inr (js ''just now'')
         | Some (v, unit) \<Rightarrow> Inr (rtf v (js unit))))"

section \<open>formatBytes\<close>

text \<open>\<open>Math.floor(Math.log(bytes) / Math.log(1024))\<close>.\<close>

fun log_1024 :: "nat \<Rightarrow> nat" where
  "log_1024 b = (if b < 1024 then 0 else Suc (log_1024 (b div 1024)))"

declare log_1024.simps [simp del]

definition byte_units :: "string list" where
  "byte_units = [''B'', ''KB'', ''MB'', ''GB'', ''TB'']"

definition unit_index :: "nat \<Rightarrow> nat" where
  "unit_index b = min (log_1024 b) (length byte_units - 1)"

text \<open>\<open>value.toFixed(1)\<close> of \<open>b / 1024^i\<close>, in tenths: nearest, ties to the larger.\<close>

definition tenths :: "nat \<Rightarrow> nat \<Rightarrow> nat" where
  "tenths b i = (20 * b + 1024 ^ i) div (2 * 1024 ^ i)"

definition formatBytes :: "nat \<Rightarrow> jsstr" where
  "formatBytes b =
     (if b = 0 then js ''0 B''
      else (let i = unit_index b; n = tenths b i
            in (if i = 0 then nat_str b else nat_str (n div 10) @ js ''.'' @ nat_str (n mod 10))
               @ js '' '' @ js (byte_units ! i)))"

section \<open>staggerTransition\<close>

text \<open>Durations and delays in milliseconds; without motion there is no delay.\<close>

record transition =
  duration_ms :: nat
  delay_ms :: "nat option"

definition staggerTransition :: "bool \<Rightarrow> nat \<Rightarrow> nat \<Rightarrow> transition" where
  "staggerTransition reduceMotion index cap =
     (if reduceMotion then \<lparr>duration_ms = 0, delay_ms = None\<rparr>
      else \<lparr>duration_ms = 150, delay_ms = Some (min index cap * 20)\<rparr>)"

section \<open>Rounding\<close>

lemma round_div_bounds:
  assumes "0 < b"
  shows "2 * (round_div a b * b) \<le> 2 * a + b" "2 * a + b < 2 * (round_div a b * b) + 2 * b"
proof -
  have "2 * a + b = 2 * (round_div a b * b) + (2 * a + b) mod (2 * b)"
    using div_mult_mod_eq [of "2 * a + b" "2 * b"] by (simp add: round_div_def ac_simps)
  moreover have "0 \<le> (2 * a + b) mod (2 * b)" "(2 * a + b) mod (2 * b) < 2 * b" using assms by simp_all
  ultimately show "2 * (round_div a b * b) \<le> 2 * a + b" "2 * a + b < 2 * (round_div a b * b) + 2 * b"
    by linarith+
qed

lemma round_div_unique: "0 < b \<Longrightarrow> 2 * (n * b) \<le> 2 * a + b \<Longrightarrow> 2 * a + b < 2 * (n * b) + 2 * b \<Longrightarrow> round_div a b = n"
  unfolding round_div_def by (rule int_div_pos_eq [of _ _ _ "2 * a + b - 2 * (n * b)"]) (simp_all add: algebra_simps)

lemma round_div_sign:
  assumes "0 < b" "b \<le> abs a"
  shows "round_div a b \<noteq> 0" "0 < round_div a b \<longleftrightarrow> 0 < a"
proof -
  note bd = round_div_bounds [OF assms(1), of a]
  have "a \<ge> b \<or> a \<le> - b" using assms by (auto simp: abs_if split: if_splits)
  then have "round_div a b * b \<noteq> 0 \<and> (0 < round_div a b * b \<longleftrightarrow> 0 < a)"
    using bd assms(1) by (elim disjE) (intro conjI iffI notI; linarith)+
  then show "round_div a b \<noteq> 0" "0 < round_div a b \<longleftrightarrow> 0 < a"
    using assms(1) by (auto simp: zero_less_mult_iff)
qed

lemma log_1024_bounds: "0 < b \<Longrightarrow> 1024 ^ log_1024 b \<le> b \<and> b < 1024 ^ Suc (log_1024 b)"
proof (induction b rule: log_1024.induct)
  case (1 b)
  show ?case
  proof (cases "b < 1024")
    case True
    with 1(2) show ?thesis by (simp add: log_1024.simps [of b])
  next
    case False
    then have "1024 ^ log_1024 (b div 1024) \<le> b div 1024" "b div 1024 < 1024 ^ Suc (log_1024 (b div 1024))"
      using 1(1) by (simp_all add: div_greater_zero_iff)
    then have "1024 ^ log_1024 (b div 1024) * 1024 \<le> b" "b < 1024 ^ Suc (log_1024 (b div 1024)) * 1024"
      by (simp_all add: less_eq_div_iff_mult_less_eq div_less_iff_less_mult)
    with False show ?thesis by (simp add: log_1024.simps [of b] mult.commute)
  qed
qed

lemma unit_index_eq:
  assumes "i \<le> 4" "1024 ^ i \<le> b" "i < 4 \<longrightarrow> b < 1024 ^ Suc i"
  shows "unit_index b = i"
proof -
  have "0 < b" using assms(2) by (cases "b = 0") auto
  note log = log_1024_bounds [OF this]
  have "i \<le> log_1024 b"
  proof (rule ccontr)
    assume "\<not> i \<le> log_1024 b"
    then have "(1024 :: nat) ^ Suc (log_1024 b) \<le> 1024 ^ i" by (intro power_increasing) simp_all
    with log assms(2) show False by linarith
  qed
  moreover have "log_1024 b \<le> i" if "i < 4"
  proof (rule ccontr)
    assume "\<not> log_1024 b \<le> i"
    then have "(1024 :: nat) ^ Suc i \<le> 1024 ^ log_1024 b" by (intro power_increasing) simp_all
    with log assms(3) that show False by linarith
  qed
  ultimately show ?thesis using assms(1) by (cases "i < 4") (simp_all add: unit_index_def byte_units_def)
qed

lemma tenths_bounds:
  "2 * (tenths b i * 1024 ^ i) \<le> 20 * b + 1024 ^ i" "20 * b + 1024 ^ i < 2 * (tenths b i * 1024 ^ i) + 2 * 1024 ^ i"
proof -
  have "20 * b + 1024 ^ i = 2 * (tenths b i * 1024 ^ i) + (20 * b + 1024 ^ i) mod (2 * 1024 ^ i)"
    using div_mult_mod_eq [of "20 * b + 1024 ^ i" "2 * 1024 ^ i"] by (simp add: tenths_def ac_simps)
  moreover have "(20 * b + 1024 ^ i) mod (2 * 1024 ^ i) < 2 * 1024 ^ i" by simp
  ultimately show "2 * (tenths b i * 1024 ^ i) \<le> 20 * b + 1024 ^ i"
    "20 * b + 1024 ^ i < 2 * (tenths b i * 1024 ^ i) + 2 * 1024 ^ i" by linarith+
qed

lemma tenths_at_most:
  assumes "b < 1024 ^ Suc i"
  shows "tenths b i \<le> 10240"
proof -
  have "b < 1024 ^ i * 1024" using assms by simp
  then have "20 * b + 1024 ^ i < (2 * 1024 ^ i) * 10241" by simp
  then have "tenths b i < 10241" unfolding tenths_def by (simp add: div_less_iff_less_mult mult.commute)
  then show ?thesis by simp
qed

lemma full_kilobytes: "formatBytes 1048575 = js ''1024.0 KB''"
proof -
  have "unit_index 1048575 = 1"
    by (simp add: unit_index_def byte_units_def log_1024.simps [of 1048575] log_1024.simps [of 1023])
  moreover have "tenths 1048575 1 = 10240" by (simp add: tenths_def)
  moreover have "nat_str 1024 = js ''1024''" "nat_str 0 = js ''0''"
    by (simp_all add: nat_str.simps js_def ch_def digit_unit_def)
  ultimately show ?thesis by (simp add: formatBytes_def Let_def byte_units_def js_append [symmetric])
qed

section \<open>Properties\<close>

text \<open>
  C39. What a time reads as, from the clock and the parsed date alone. The difference is rounded to
  whole seconds, halves upwards. Less than five seconds is \<open>just now\<close>, less than a minute is told in
  seconds, and everything else in the largest of minute, hour, day, week, month (30 days) and year
  (365 days) it fills, as the nearest whole number of it: never zero, and positive exactly when the
  time is still to come. The one way it fails is a text that is no date: then rendering the row
  throws.
\<close>

theorem relative_time_accurate:
  "(formatRelative parse now rtf src = Inl OtherError \<longleftrightarrow> parse src = None)
   \<and> (parse src = Some t \<and> 1000 * d \<le> t - now + 500 \<and> t - now + 500 < 1000 * d + 1000 \<longrightarrow>
      (abs d < 5 \<longrightarrow> formatRelative parse now rtf src = Inr (js ''just now''))
    \<and> (5 \<le> abs d \<and> abs d < 60 \<longrightarrow> formatRelative parse now rtf src = Inr (rtf d (js ''second'')))
    \<and> (\<forall>(unit, secs, next) \<in> set [(''minute'', 60, 3600), (''hour'', 3600, 86400), (''day'', 86400, 604800),
          (''week'', 604800, 2592000), (''month'', 2592000, 31536000), (''year'', 31536000, abs d + 1)].
        secs \<le> abs d \<and> abs d < next \<longrightarrow>
        (\<exists>v. formatRelative parse now rtf src = Inr (rtf v (js unit))
          \<and> 2 * (v * secs) \<le> 2 * d + secs \<and> 2 * d + secs < 2 * (v * secs) + 2 * secs
          \<and> v \<noteq> 0 \<and> (0 < v \<longleftrightarrow> now < t))))"
proof -
  have throws: "formatRelative parse now rtf src = Inl OtherError \<longleftrightarrow> parse src = None"
    by (simp add: formatRelative_def split: option.splits)
  have reads: "(abs d < 5 \<longrightarrow> formatRelative parse now rtf src = Inr (js ''just now''))
    \<and> (5 \<le> abs d \<and> abs d < 60 \<longrightarrow> formatRelative parse now rtf src = Inr (rtf d (js ''second'')))
    \<and> (\<forall>(unit, secs, next) \<in> set [(''minute'', 60, 3600), (''hour'', 3600, 86400), (''day'', 86400, 604800),
          (''week'', 604800, 2592000), (''month'', 2592000, 31536000), (''year'', 31536000, abs d + 1)].
        secs \<le> abs d \<and> abs d < next \<longrightarrow>
        (\<exists>v. formatRelative parse now rtf src = Inr (rtf v (js unit))
          \<and> 2 * (v * secs) \<le> 2 * d + secs \<and> 2 * d + secs < 2 * (v * secs) + 2 * secs
          \<and> v \<noteq> 0 \<and> (0 < v \<longleftrightarrow> now < t)))"
    if t: "parse src = Some t" and d: "1000 * d \<le> t - now + 500" "t - now + 500 < 1000 * d + 1000"
  proof (intro conjI ballI)
    have parts: "formatRelative parse now rtf src = (case relative_parts d of
        None \<Rightarrow> Inr (js ''just now'') | Some (v, unit) \<Rightarrow> Inr (rtf v (js unit)))"
      using round_div_unique [of 1000 d "t - now"] d by (simp add: formatRelative_def t)
    then show "abs d < 5 \<longrightarrow> formatRelative parse now rtf src = Inr (js ''just now'')"
      "5 \<le> abs d \<and> abs d < 60 \<longrightarrow> formatRelative parse now rtf src = Inr (rtf d (js ''second''))"
      by (simp_all add: relative_parts_def relative_units_def)
    fix entry :: "string \<times> int \<times> int"
    assume "entry \<in> set [(''minute'', 60, 3600), (''hour'', 3600, 86400), (''day'', 86400, 604800),
          (''week'', 604800, 2592000), (''month'', 2592000, 31536000), (''year'', 31536000, abs d + 1)]"
    moreover obtain unit secs next_secs where entry: "entry = (unit, secs, next_secs)" by (cases entry)
    ultimately have "60 \<le> secs" and told: "secs \<le> abs d \<Longrightarrow> abs d < next_secs \<Longrightarrow> relative_parts d = Some (round_div d secs, unit)"
      by (auto simp: relative_parts_def relative_units_def)
    moreover have "0 < d \<longleftrightarrow> now < t" if "60 \<le> abs d" using that d by linarith
    ultimately show "case entry of (unit, secs, next) \<Rightarrow> secs \<le> abs d \<and> abs d < next \<longrightarrow>
        (\<exists>v. formatRelative parse now rtf src = Inr (rtf v (js unit))
          \<and> 2 * (v * secs) \<le> 2 * d + secs \<and> 2 * d + secs < 2 * (v * secs) + 2 * secs
          \<and> v \<noteq> 0 \<and> (0 < v \<longleftrightarrow> now < t))"
      using round_div_bounds [of secs d] round_div_sign [of secs d] parts by (auto simp: entry)
  qed
  with throws show ?thesis by blast
qed

theorem relative_time_accurate_witness:
  "formatRelative (\<lambda>_. Some 0) 5400000 (\<lambda>v unit. nat_str (nat (- v)) @ js '' '' @ unit) [] = Inr (js ''1 hour'')"
proof -
  let ?rtf = "\<lambda>v unit. nat_str (nat (- v)) @ js '' '' @ unit"
  obtain v where v: "formatRelative (\<lambda>_. Some 0) 5400000 ?rtf [] = Inr (?rtf v (js ''hour''))"
    "2 * (v * 3600) \<le> 2 * (- 5400) + 3600" "2 * (- 5400) + 3600 < 2 * (v * 3600) + 2 * (3600 :: int)"
    using relative_time_accurate [of "\<lambda>_. Some 0" 5400000 ?rtf "[]" 0 "- 5400"] by auto
  from v(2,3) have "v = - 1" by linarith
  with v(1) show ?thesis by (simp add: nat_str.simps digit_unit_def js_def ch_def)
qed

text \<open>
  C40. What a size reads as, in full: a count below 1024 as it is, in B; from there in the largest of
  KB, MB, GB and TB it reaches (terabytes beyond that), to the nearest tenth, halves upwards. The
  tenth is rounded after the unit is chosen, so a unit can read up to 1024.0, and does, but never more.
\<close>

theorem format_bytes_accurate:
  "formatBytes 0 = js ''0 B''
   \<and> (0 < b \<and> b < 1024 \<longrightarrow> formatBytes b = nat_str b @ js '' B'')
   \<and> (\<forall>(i, unit) \<in> set [(1, ''KB''), (2, ''MB''), (3, ''GB''), (4, ''TB'')].
       1024 ^ i \<le> b \<and> (i < 4 \<longrightarrow> b < 1024 ^ Suc i) \<longrightarrow>
       (\<exists>n. formatBytes b = nat_str (n div 10) @ js ''.'' @ nat_str (n mod 10) @ js '' '' @ js unit
         \<and> 2 * (n * 1024 ^ i) \<le> 20 * b + 1024 ^ i \<and> 20 * b + 1024 ^ i < 2 * (n * 1024 ^ i) + 2 * 1024 ^ i
         \<and> (i < 4 \<longrightarrow> n \<le> 10240)))
   \<and> formatBytes 1048575 = js ''1024.0 KB''"
proof -
  have plain: "formatBytes b = nat_str b @ js '' B''" if "0 < b" "b < 1024"
    using that by (simp add: formatBytes_def unit_index_def log_1024.simps [of b] byte_units_def js_append [symmetric])
  have scaled: "\<exists>n. formatBytes b = nat_str (n div 10) @ js ''.'' @ nat_str (n mod 10) @ js '' '' @ js unit
         \<and> 2 * (n * 1024 ^ i) \<le> 20 * b + 1024 ^ i \<and> 20 * b + 1024 ^ i < 2 * (n * 1024 ^ i) + 2 * 1024 ^ i
         \<and> (i < 4 \<longrightarrow> n \<le> 10240)"
    if unit: "(i, unit) \<in> set [(1, ''KB''), (2, ''MB''), (3, ''GB''), (4, ''TB'')]"
      and reached: "1024 ^ i \<le> b" "i < 4 \<longrightarrow> b < 1024 ^ Suc i" for i unit
  proof -
    have i: "1 \<le> i" "i \<le> 4" "byte_units ! i = unit" using unit by (auto simp: byte_units_def)
    have "unit_index b = i" by (rule unit_index_eq) (use i reached in auto)
    moreover have "0 < b" using reached(1) by (metis gr0I not_one_le_zero power_eq_0_iff zero_neq_numeral le_zero_eq)
    ultimately have "formatBytes b = nat_str (tenths b i div 10) @ js ''.'' @ nat_str (tenths b i mod 10) @ js '' '' @ js unit"
      using i by (simp add: formatBytes_def Let_def)
    then show ?thesis using tenths_bounds [of b i] tenths_at_most [of b i] reached(2) by blast
  qed
  have "formatBytes 0 = js ''0 B''" by (simp add: formatBytes_def)
  with plain scaled full_kilobytes show ?thesis by blast
qed

theorem format_bytes_accurate_witness:
  "formatBytes 5000 = js ''4.9 KB''"
proof -
  obtain n where n: "formatBytes 5000 = nat_str (n div 10) @ js ''.'' @ nat_str (n mod 10) @ js '' '' @ js ''KB''"
    "2 * (n * 1024) \<le> 101024" "101024 < 2 * (n * 1024) + 2048"
    using format_bytes_accurate [of 5000] by auto
  from n(2,3) have "n = 49" by linarith
  with n(1) show ?thesis by (simp add: nat_str.simps digit_unit_def js_def ch_def)
qed

end
