(* ===== verification/Pages.thy ===== *)
theory Pages
  imports UseApi Session Seal Activity Format TriggerModal PluginConfig
begin

text \<open>
  The pages over \<open>useApi\<close>: what each asks for (\<open>web/src/pages\<close>), what it derives from the
  answers, and what it puts on screen, as a list of notices and a list of rows. A row that cannot
  be rendered (a date that is none, an id that cannot be encoded) makes the whole page throw,
  hence the results. \<open>browser\<close> gathers what the pages take from the browser's locale and clock;
  \<open>String.prototype.localeCompare\<close> is one of its fields.
\<close>

section \<open>Shared pieces\<close>

record browser =
  br_parse :: "jsstr \<Rightarrow> int option"
  br_now :: int
  br_rtf :: "int \<Rightarrow> jsstr \<Rightarrow> jsstr"
  br_exact :: "jsstr \<Rightarrow> jsstr"
  br_compare :: "jsstr \<Rightarrow> jsstr \<Rightarrow> int"

definition relative :: "browser \<Rightarrow> jsstr \<Rightarrow> jsstr result" where
  "relative br src = formatRelative (br_parse br) (br_now br) (br_rtf br) src"

definition formatExact :: "browser \<Rightarrow> jsstr \<Rightarrow> jsstr" where
  "formatExact br src = br_exact br src"

text \<open>\<open>States.tsx\<close>: the notices. \<open>ErrorNotice\<close> has a Retry button when it is given one.\<close>

datatype notice = Loading jsstr | ErrorNotice jsstr bool | EmptyState jsstr "jsstr option"

text \<open>\<open>Page.tsx\<close>: title, subtitle if there is one.\<close>

record page_header =
  header_title :: jsstr
  header_subtitle :: "jsstr option"

definition PageHeader :: "string \<Rightarrow> string \<Rightarrow> page_header" where
  "PageHeader t s = \<lparr>header_title = js t, header_subtitle = str_or_undef (js s)\<rparr>"

fun map_result :: "('a \<Rightarrow> 'b result) \<Rightarrow> 'a list \<Rightarrow> 'b list result" where
  "map_result f [] = Inr []"
| "map_result f (x # xs) = bind_result (f x) (\<lambda>y. bind_result (map_result f xs) (\<lambda>ys. Inr (y # ys)))"

text \<open>\<open>data ?? []\<close>.\<close>

definition rows_of :: "('a list, 'k) hook \<Rightarrow> 'a list" where
  "rows_of h = (case hook_data h of None \<Rightarrow> [] | Some xs \<Rightarrow> xs)"

definition load_notices :: "jsstr \<Rightarrow> ('d, 'k) hook \<Rightarrow> notice list" where
  "load_notices label h = (if hook_loading h then [Loading label] else [])
     @ (if truthy (hook_error h) then [ErrorNotice (the (hook_error h)) True] else [])"

section \<open>Links\<close>

definition job_link :: "jsstr \<Rightarrow> jsstr result" where
  "job_link i = bind_result (encoded i) (\<lambda>e. Inr (js ''/jobs/'' @ e))"

definition config_link :: "jsstr \<Rightarrow> jsstr result" where
  "config_link h = bind_result (encoded h) (\<lambda>e. Inr (js ''/hosts/'' @ e @ js ''/plugins/informix/config''))"

section \<open>HostsPage\<close>

record host_row_data =
  hr_name :: jsstr
  hr_address :: jsstr
  hr_plugins :: jsstr
  hr_schedule :: jsstr
  hr_link :: jsstr

definition host_row :: "host \<Rightarrow> host_row_data result" where
  "host_row h = bind_result (config_link (host_name h)) (\<lambda>l. Inr
     \<lparr>hr_name = host_name h, hr_address = host_host h, hr_plugins = js_join (js '', '') (host_plugins h),
      hr_schedule = str_or (host_schedule h) EM_DASH, hr_link = l\<rparr>)"

definition HostsPage :: "(host list, 'k) hook \<Rightarrow> (page_header \<times> notice list \<times> host_row_data list) result" where
  "HostsPage h = bind_result (map_result host_row (rows_of h)) (\<lambda>rows. Inr
     (PageHeader ''Hosts'' ''Everything in the inventory, and what it's set up to back up.'',
      load_notices (js ''Loading hosts'') h
        @ (if hook_data h = Some [] then [EmptyState (js ''No hosts configured'')
             (Some (js ''Add one to inventory.yaml to see it here.''))] else []),
      rows))"

section \<open>Job rows\<close>

record job_row_data =
  jr_link :: jsstr
  jr_host :: jsstr
  jr_plugin :: jsstr
  jr_status :: jsstr
  jr_queued :: jsstr
  jr_transition :: transition

definition job_row :: "browser \<Rightarrow> bool \<Rightarrow> job \<times> nat \<Rightarrow> job_row_data result" where
  "job_row br reduceMotion p = (case p of (j, i) \<Rightarrow>
     bind_result (job_link (job_id j)) (\<lambda>l. bind_result (relative br (job_queuedAt j)) (\<lambda>q. Inr
       \<lparr>jr_link = l, jr_host = job_host j, jr_plugin = job_plugin j, jr_status = StatusPill (job_state j),
        jr_queued = q, jr_transition = staggerTransition reduceMotion i 12\<rparr>)))"

definition indexed :: "'a list \<Rightarrow> ('a \<times> nat) list" where
  "indexed xs = zip xs [0..<length xs]"

text \<open>\<open>(a, b) => b.queuedAt.localeCompare(a.queuedAt)\<close>.\<close>

definition newest_first :: "browser \<Rightarrow> job \<Rightarrow> job \<Rightarrow> int" where
  "newest_first br a b = br_compare br (job_queuedAt b) (job_queuedAt a)"

section \<open>JobsPage\<close>

definition POLL_MS :: nat where
  "POLL_MS = 5000"

definition STATUS_OPTIONS :: "(jsstr \<times> jsstr) list" where
  "STATUS_OPTIONS = [([], js ''All statuses''), (job_status_str Queued, js ''Queued''),
     (job_status_str In_progress, js ''Running''), (job_status_str Completed, js ''Succeeded''),
     (job_status_str Failed, js ''Failed'')]"

definition jobs_fetcher :: "jsstr \<Rightarrow> api_call result" where
  "jobs_fetcher status = listJobs (str_or_undef status)"

definition sorted_jobs :: "browser \<Rightarrow> job list \<Rightarrow> job list" where
  "sorted_jobs br jobs = js_sort (newest_first br) jobs"

definition JobsPage :: "browser \<Rightarrow> bool \<Rightarrow> (job list, jsstr) hook \<Rightarrow> (notice list \<times> job_row_data list) result" where
  "JobsPage br rm h =
     (let jobs = sorted_jobs br (rows_of h) in
      bind_result (map_result (job_row br rm) (indexed jobs)) (\<lambda>rows. Inr
       (load_notices (js ''Loading jobs'') h
          @ (if hook_data h \<noteq> None \<and> jobs = [] then [EmptyState (js ''No jobs match this filter'')
               (Some (if hook_key h \<noteq> [] then js ''Try a different status, or trigger a backup.''
                      else js ''Trigger a backup to see one here.''))] else []),
        rows)))"

text \<open>The dialog's \<open>onClose\<close>, here and on the dashboard: it is closed, and the jobs are loaded again.\<close>

definition onClose :: "modal \<times> ('d, 'k) hook \<Rightarrow> modal \<times> ('d, 'k) hook" where
  "onClose s = (set_open False (fst s), load (snd s))"

section \<open>DashboardPage\<close>

definition ACTIVITY_WINDOW_DAYS :: nat where
  "ACTIVITY_WINDOW_DAYS = 14"

record stats =
  stat_hosts :: nat
  stat_running :: nat
  stat_failed :: nat

definition dashboard_stats :: "(host list, 'k) hook \<Rightarrow> (job list, 'l) hook \<Rightarrow> stats" where
  "dashboard_stats hostsState jobsState =
     \<lparr>stat_hosts = length (rows_of hostsState),
      stat_running = length (filter (\<lambda>j. job_state j = In_progress \<or> job_state j = Queued) (rows_of jobsState)),
      stat_failed = length (filter (\<lambda>j. job_state j = Failed) (rows_of jobsState))\<rparr>"

definition stat_value :: "bool \<Rightarrow> nat \<Rightarrow> jsstr" where
  "stat_value loading n = (if loading then EM_DASH else nat_str n)"

definition recentJobs :: "browser \<Rightarrow> job list \<Rightarrow> job list" where
  "recentJobs br jobs = take 8 (js_sort (newest_first br) jobs)"

definition dashboard_events_call :: api_call where
  "dashboard_events_call = listEvents (Some \<lparr>filter_jobId = None, filter_host = None, filter_limit = Some 8\<rparr>)"

definition feed_item :: "browser \<Rightarrow> bop_event \<Rightarrow> (jsstr \<times> jsstr) result" where
  "feed_item br e = bind_result (relative br (event_timestamp e)) (\<lambda>r. Inr
     (event_type_str (event_kind e), event_host e @ [cu 32, cu 183, cu 32] @ r))"

record dashboard_view =
  dash_stats :: "jsstr list"
  dash_alert :: bool
  dash_activity :: "day_bucket list option"
  dash_job_notices :: "notice list"
  dash_jobs :: "job_row_data list"
  dash_event_notices :: "notice list"
  dash_events :: "(jsstr \<times> jsstr) list"
  dash_can_trigger :: bool

definition DashboardPage :: "browser \<Rightarrow> time_zone \<Rightarrow> (int \<Rightarrow> jsstr) \<Rightarrow> bool \<Rightarrow> (host list, 'k) hook
    \<Rightarrow> (job list, 'l) hook \<Rightarrow> (bop_event list, 'm) hook \<Rightarrow> dashboard_view result" where
  "DashboardPage br z label rm hostsState jobsState eventsState =
     (let st = dashboard_stats hostsState jobsState;
          recent = recentJobs br (rows_of jobsState)
      in bind_result (map_result (job_row br rm) (indexed recent)) (\<lambda>jobs.
         bind_result (map_result (feed_item br) (rows_of eventsState)) (\<lambda>events. Inr
           \<lparr>dash_stats = [stat_value (hook_loading hostsState) (stat_hosts st),
              stat_value (hook_loading jobsState) (stat_running st),
              stat_value (hook_loading jobsState) (stat_failed st)],
            dash_alert = (stat_failed st > 0),
            dash_activity = (if hook_loading jobsState then None
              else Some (bucketJobsByDay z label (br_now br) (rows_of jobsState) ACTIVITY_WINDOW_DAYS)),
            dash_job_notices = load_notices (js ''Loading jobs'') jobsState
              @ (if hook_data jobsState \<noteq> None \<and> recent = [] then [EmptyState (js ''No jobs yet'')
                   (Some (js ''Trigger a backup or wait for the next scheduled run.''))] else []),
            dash_jobs = jobs,
            dash_event_notices = load_notices (js ''Loading events'') eventsState
              @ (if hook_data eventsState = Some [] then [EmptyState (js ''No events yet'') None] else []),
            dash_events = events,
            dash_can_trigger = (rows_of hostsState \<noteq> [])\<rparr>)))"

section \<open>JobDetailPage\<close>

definition isTerminal :: "(job, 'k) hook \<Rightarrow> bool" where
  "isTerminal h = (case hook_data h of None \<Rightarrow> False
     | Some j \<Rightarrow> job_state j = Completed \<or> job_state j = Failed)"

definition events_interval :: "(job, 'k) hook \<Rightarrow> nat option" where
  "events_interval h = (if isTerminal h then None else Some POLL_MS)"

definition detail_events_call :: "jsstr \<Rightarrow> api_call" where
  "detail_events_call i =
     listEvents (Some \<lparr>filter_jobId = Some i, filter_host = None, filter_limit = Some 200\<rparr>)"

definition oldest_first :: "browser \<Rightarrow> bop_event \<Rightarrow> bop_event \<Rightarrow> int" where
  "oldest_first br a b = br_compare br (event_timestamp a) (event_timestamp b)"

definition timeline :: "browser \<Rightarrow> bop_event list \<Rightarrow> bop_event list" where
  "timeline br es = js_sort (oldest_first br) es"

definition retention_text :: "policy \<Rightarrow> jsstr" where
  "retention_text p = int_str (policy_daily p) @ js ''d / '' @ int_str (policy_weekly p) @ js ''w / ''
     @ int_str (policy_monthly p) @ js ''m / '' @ int_str (policy_yearly p) @ js ''y''"

record timeline_item_data =
  ti_type :: jsstr
  ti_exact :: jsstr
  ti_relative :: jsstr
  ti_fields :: "(jsstr \<times> jsstr) list"

definition timeline_item :: "browser \<Rightarrow> bop_event \<Rightarrow> timeline_item_data result" where
  "timeline_item br e = bind_result (relative br (event_timestamp e)) (\<lambda>r. Inr
     \<lparr>ti_type = event_type_str (event_kind e), ti_exact = formatExact br (event_timestamp e), ti_relative = r,
      ti_fields = event_fields e\<rparr>)"

record job_facts_data =
  jf_seal :: seal_view
  jf_title :: "jsstr \<times> jsstr"
  jf_id :: jsstr
  jf_status :: jsstr
  jf_queued :: "jsstr \<times> jsstr"
  jf_retention :: jsstr
  jf_notices :: "notice list"
  jf_timeline :: "timeline_item_data list"

datatype detail_view = JobError jsstr | JobView "notice list" "job_facts_data option"

definition job_facts :: "browser \<Rightarrow> job \<Rightarrow> (bop_event list, 'k) hook \<Rightarrow> job_facts_data result" where
  "job_facts br j eventsState =
     (let events = timeline br (rows_of eventsState) in
      bind_result (relative br (job_queuedAt j)) (\<lambda>q.
      bind_result (map_result (timeline_item br) events) (\<lambda>items. Inr
        \<lparr>jf_seal = Seal (sealTierForEvents (rows_of eventsState)), jf_title = (job_host j, job_plugin j),
         jf_id = job_id j, jf_status = StatusPill (job_state j),
         jf_queued = (formatExact br (job_queuedAt j), q), jf_retention = retention_text (job_policy j),
         jf_notices = load_notices (js ''Loading events'') eventsState
           @ (if events = [] \<and> \<not> hook_loading eventsState
              then [EmptyState (js ''No events recorded for this job yet'') None] else []),
         jf_timeline = items\<rparr>)))"

definition JobDetailPage ::
  "browser \<Rightarrow> (job, 'k) hook \<Rightarrow> (bop_event list, 'l) hook \<Rightarrow> detail_view result" where
  "JobDetailPage br jobState eventsState =
     (if truthy (hook_error jobState) then Inr (JobError (the (hook_error jobState)))
      else (let notices = (if hook_loading jobState then [Loading (js ''Loading job'')] else []) in
            case hook_data jobState of
              None \<Rightarrow> Inr (JobView notices None)
            | Some j \<Rightarrow> bind_result (job_facts br j eventsState) (\<lambda>f. Inr (JobView notices (Some f)))))"

section \<open>EventsPage\<close>

record events_form =
  ev_host :: jsstr
  ev_jobId :: jsstr
  ev_appliedHost :: jsstr
  ev_appliedJobId :: jsstr

definition applyFilters :: "events_form \<Rightarrow> events_form" where
  "applyFilters f = f\<lparr>ev_appliedHost := js_trim (ev_host f), ev_appliedJobId := js_trim (ev_jobId f)\<rparr>"

definition events_fetcher :: "events_form \<Rightarrow> api_call" where
  "events_fetcher f = listEvents (Some \<lparr>filter_jobId = str_or_undef (ev_appliedJobId f),
     filter_host = str_or_undef (ev_appliedHost f), filter_limit = Some 200\<rparr>)"

record event_row_data =
  er_type :: jsstr
  er_host :: jsstr
  er_job :: "(jsstr \<times> jsstr) option"
  er_exact :: jsstr
  er_when :: jsstr
  er_transition :: transition

definition event_row :: "browser \<Rightarrow> bool \<Rightarrow> bop_event \<times> nat \<Rightarrow> event_row_data result" where
  "event_row br rm p = (case p of (e, i) \<Rightarrow>
     bind_result (if event_jobId e = [] then Inr None
        else bind_result (job_link (event_jobId e)) (\<lambda>l. Inr (Some (l, js_prefix 18 (event_jobId e) @ ELLIPSIS)))) (\<lambda>job.
     bind_result (relative br (event_timestamp e)) (\<lambda>r. Inr
       \<lparr>er_type = event_type_str (event_kind e), er_host = str_or (event_host e) EM_DASH, er_job = job,
        er_exact = formatExact br (event_timestamp e), er_when = r,
        er_transition = staggerTransition rm i 12\<rparr>)))"

definition EventsPage :: "browser \<Rightarrow> bool \<Rightarrow> (bop_event list, 'k) hook \<Rightarrow> (notice list \<times> event_row_data list) result" where
  "EventsPage br rm h = bind_result (map_result (event_row br rm) (indexed (rows_of h))) (\<lambda>rows. Inr
     (load_notices (js ''Loading events'') h
        @ (if hook_data h = Some [] then [EmptyState (js ''No events match these filters'') None] else []),
      rows))"

section \<open>SnapshotsPage\<close>

text \<open>The effect that selects the first host once the hosts are there.\<close>

definition auto_select :: "host list option \<Rightarrow> jsstr \<Rightarrow> jsstr" where
  "auto_select hosts host = (case hosts of
       Some (h # hs) \<Rightarrow> if host = [] then host_name h else host
     | _ \<Rightarrow> host)"

text \<open>What is fetched for a selection: nothing, answered at once with an empty list, or a call.\<close>

definition snapshots_fetcher :: "jsstr \<Rightarrow> api_call result option" where
  "snapshots_fetcher host = (if host \<noteq> [] then Some (listSnapshots host) else None)"

record snapshot_row_data =
  sr_plugin :: jsstr
  sr_size :: jsstr
  sr_checksum :: "jsstr \<times> jsstr"
  sr_created :: "jsstr \<times> jsstr"
  sr_transition :: transition

definition snapshot_row :: "browser \<Rightarrow> bool \<Rightarrow> snapshot \<times> nat \<Rightarrow> snapshot_row_data result" where
  "snapshot_row br rm p = (case p of (s, i) \<Rightarrow> bind_result (relative br (snap_createdAt s)) (\<lambda>r. Inr
     \<lparr>sr_plugin = snap_plugin s, sr_size = formatBytes (snap_size s),
      sr_checksum = (snap_checksum s, js_prefix 12 (snap_checksum s) @ ELLIPSIS),
      sr_created = (formatExact br (snap_createdAt s), r),
      sr_transition = staggerTransition rm i 12\<rparr>))"

definition SnapshotsPage :: "browser \<Rightarrow> bool \<Rightarrow> (host list, 'k) hook \<Rightarrow> (snapshot list, jsstr) hook
    \<Rightarrow> (notice list \<times> snapshot_row_data list) result" where
  "SnapshotsPage br rm hostsState snapshotsState =
     bind_result (map_result (snapshot_row br rm) (indexed (rows_of snapshotsState))) (\<lambda>rows. Inr
       ((if hook_loading hostsState \<or> hook_loading snapshotsState then [Loading (js ''Loading snapshots'')] else [])
        @ (if truthy (hook_error snapshotsState) then [ErrorNotice (the (hook_error snapshotsState)) True] else [])
        @ (if hook_data snapshotsState = Some [] then [EmptyState (js ''No snapshots for this host yet'')
             (Some (js ''They appear here once a backup job completes.''))] else []),
       rows))"

section \<open>Silence\<close>

lemma silent_step:
  "hook_step answers h e h' \<Longrightarrow> no_poll e \<Longrightarrow> timer_inv h \<and> \<not> polls h \<Longrightarrow> timer_inv h' \<and> \<not> polls h'"
proof -
  assume step: "hook_step answers h e h'" and ok: "no_poll e" and inv: "timer_inv h \<and> \<not> polls h"
  have "timer_inv h'" using step inv by (auto intro: timer_inv_step)
  moreover have "\<not> polls h'" using step ok inv
    by (induction rule: hook_step.induct)
      (auto simp: polls_def no_poll_def rerender_def refresh_def visibility_def onVisibility_def unmount_def Let_def)
  ultimately show ?thesis by blast
qed

interpretation silent: kept_assertion "hook_step answers" no_poll "\<lambda>h. timer_inv h \<and> \<not> polls h"
  for answers :: "'k \<Rightarrow> 'd \<Rightarrow> bool"
  by unfold_locales (rule silent_step)

lemma rerender_interval [simp]: "hook_interval (rerender k iv h) = iv" "hook_key (rerender k iv h) = k"
  "hook_mounted (rerender k iv h) = hook_mounted h" "tab_hidden (rerender k iv h) = tab_hidden h"
  by (simp_all add: rerender_def Let_def)

section \<open>Links and sorting\<close>

lemma link_parts:
  assumes "encoded i = Inr e" "\<not> dot_name i"
  shows "route (js ''/jobs/'' @ e) = map Some [[], js ''jobs'', i]"
    and "route (js ''/hosts/'' @ e @ js ''/plugins/informix/config'')
      = map Some [[], js ''hosts'', i, js ''plugins'', js ''informix'', js ''config'']"
proof -
  have inf: "read_segment (js ''informix'') = Some (js ''informix'')"
    unfolding read_segment_def by (simp add: read_literal uri_unescaped_def is_alnum_def)
  have "js ''/jobs/'' @ e = js_join [ch CHR ''/''] [[], js ''jobs'', e]" by (simp add: js_Cons)
  moreover have "route (js_join [ch CHR ''/''] [[], js ''jobs'', e]) = map Some [[], js ''jobs'', i]"
    by (rule route_join) (use assms in \<open>auto simp: read_segment_encoded set_js dest: encoded_no_separator(1)\<close>)
  ultimately show "route (js ''/jobs/'' @ e) = map Some [[], js ''jobs'', i]" by simp
  have "js ''/hosts/'' @ e @ js ''/plugins/informix/config''
      = js_join [ch CHR ''/''] [[], js ''hosts'', e, js ''plugins'', js ''informix'', js ''config'']"
    by (simp add: js_Cons)
  moreover have "route (js_join [ch CHR ''/''] [[], js ''hosts'', e, js ''plugins'', js ''informix'', js ''config''])
      = map Some [[], js ''hosts'', i, js ''plugins'', js ''informix'', js ''config'']"
    by (rule route_join) (use assms inf in \<open>auto simp: read_segment_encoded set_js dest: encoded_no_separator(1)\<close>)
  ultimately show "route (js ''/hosts/'' @ e @ js ''/plugins/informix/config'')
      = map Some [[], js ''hosts'', i, js ''plugins'', js ''informix'', js ''config'']" by simp
qed

lemma getJob_of_encoded: "encoded i = Inr e \<Longrightarrow> \<not> dot_name i \<Longrightarrow> \<exists>a. getJob i = Inr a \<and> route (call_path a) = map Some [[], js ''v1'', js ''jobs'', i]"
proof -
  assume e: "encoded i = Inr e" "\<not> dot_name i"
  have "route (js_join [ch CHR ''/''] [[], js ''v1'', js ''jobs'', e]) = map Some [[], js ''v1'', js ''jobs'', i]"
    by (rule route_join) (use e in \<open>auto simp: read_segment_encoded set_js dest: encoded_no_separator(1)\<close>)
  with e show ?thesis by (simp add: getJob_def job_path_join)
qed

lemma consistent_newest: "consistent_cmp (br_compare br) \<Longrightarrow> consistent_cmp (newest_first br)"
  unfolding newest_first_def
  using consistent_cmp_flip [OF consistent_cmp_key [of "br_compare br" job_queuedAt]] by simp

lemma consistent_oldest: "consistent_cmp (br_compare br) \<Longrightarrow> consistent_cmp (oldest_first br)"
  unfolding oldest_first_def by (rule consistent_cmp_key)

section \<open>Properties\<close>

text \<open>
  C37. The lists are in order, given what the language promises of \<open>localeCompare\<close>. The jobs page shows
  every job once, and a row above another was not queued at a smaller time than it, by
  \<open>localeCompare\<close> on \<open>queuedAt\<close>; jobs of the same time keep the order of the answer. The dashboard
  shows the first eight of these, so none that is left out has a greater time than one shown. The
  timeline shows every event once, and an event above another does not have a greater
  \<open>timestamp\<close>; events of the same time keep the order of the answer too.
\<close>

theorem lists_in_order:
  assumes "consistent_cmp (br_compare br)"
  shows "mset (sorted_jobs br jobs) = mset jobs
    \<and> sorted_wrt (\<lambda>above below. br_compare br (job_queuedAt below) (job_queuedAt above) \<le> 0) (sorted_jobs br jobs)
    \<and> filter (\<lambda>j. br_compare br (job_queuedAt j) at = 0) (sorted_jobs br jobs)
      = filter (\<lambda>j. br_compare br (job_queuedAt j) at = 0) jobs
    \<and> recentJobs br jobs = take 8 (sorted_jobs br jobs)
    \<and> (a \<in> set (recentJobs br jobs) \<and> b \<in> set (drop 8 (sorted_jobs br jobs))
        \<longrightarrow> br_compare br (job_queuedAt b) (job_queuedAt a) \<le> 0)
    \<and> mset (timeline br es) = mset es
    \<and> sorted_wrt (\<lambda>above below. br_compare br (event_timestamp above) (event_timestamp below) \<le> 0) (timeline br es)
    \<and> filter (\<lambda>e. br_compare br at (event_timestamp e) = 0) (timeline br es)
      = filter (\<lambda>e. br_compare br at (event_timestamp e) = 0) es"
proof -
  note c = consistent_newest [OF assms] and o = consistent_oldest [OF assms]
  have perm: "mset (sorted_jobs br jobs) = mset jobs" "mset (timeline br es) = mset es"
    by (simp_all add: sorted_jobs_def timeline_def)
  have sorted: "sorted_wrt (\<lambda>above below. br_compare br (job_queuedAt below) (job_queuedAt above) \<le> 0) (sorted_jobs br jobs)"
    unfolding sorted_jobs_def using sorted_js_sort [OF c] by (simp only: newest_first_def)
  obtain k :: job where k: "job_queuedAt k = at" by (rule that [of "sample_job\<lparr>job_queuedAt := at\<rparr>"]) simp
  obtain e :: bop_event where e: "event_timestamp e = at"
    by (rule that [of "\<lparr>event_kind = BackupRequested, event_jobId = [], event_host = [], event_plugin = [],
      event_resource = [], event_fields = [], event_timestamp = at\<rparr>"]) simp
  have stable: "filter (\<lambda>j. br_compare br (job_queuedAt j) at = 0) (sorted_jobs br jobs)
      = filter (\<lambda>j. br_compare br (job_queuedAt j) at = 0) jobs"
    unfolding sorted_jobs_def using stable_js_sort [OF c, of k] by (simp only: newest_first_def k)
  have rec: "recentJobs br jobs = take 8 (sorted_jobs br jobs)" by (simp add: recentJobs_def sorted_jobs_def)
  have "sorted_wrt (\<lambda>above below. br_compare br (job_queuedAt below) (job_queuedAt above) \<le> 0)
      (take 8 (sorted_jobs br jobs) @ drop 8 (sorted_jobs br jobs))" using sorted by simp
  then have newest: "a \<in> set (recentJobs br jobs) \<Longrightarrow> b \<in> set (drop 8 (sorted_jobs br jobs))
      \<Longrightarrow> br_compare br (job_queuedAt b) (job_queuedAt a) \<le> 0"
    unfolding rec sorted_wrt_append by blast
  have "sorted_wrt (\<lambda>above below. br_compare br (event_timestamp above) (event_timestamp below) \<le> 0) (timeline br es)"
    unfolding timeline_def using sorted_js_sort [OF o] by (simp only: oldest_first_def)
  moreover have "filter (\<lambda>e. br_compare br at (event_timestamp e) = 0) (timeline br es)
      = filter (\<lambda>e. br_compare br at (event_timestamp e) = 0) es"
    unfolding timeline_def using stable_js_sort [OF o, of e] by (simp only: oldest_first_def e)
  ultimately show ?thesis using perm sorted stable rec newest by blast
qed

text \<open>A browser for the witnesses: texts compare by length.\<close>

definition sample_browser :: browser where
  "sample_browser = \<lparr>br_parse = (\<lambda>_. Some 0), br_now = 0, br_rtf = (\<lambda>_ u. u), br_exact = (\<lambda>s. s),
     br_compare = (\<lambda>a b. int (length a) - int (length b))\<rparr>"

theorem lists_in_order_witness:
  "map (length \<circ> job_queuedAt) (sorted_jobs sample_browser
     [sample_job\<lparr>job_queuedAt := js ''1''\<rparr>, sample_job\<lparr>job_queuedAt := js ''22''\<rparr>]) = [2, 1]"
proof -
  let ?js = "[sample_job\<lparr>job_queuedAt := js ''1''\<rparr>, sample_job\<lparr>job_queuedAt := js ''22''\<rparr>]"
  have "consistent_cmp (br_compare sample_browser)" by (simp add: consistent_cmp_def sample_browser_def)
  note order = lists_in_order [OF this, of ?js]
  let ?lens = "map (length \<circ> job_queuedAt) (sorted_jobs sample_browser ?js)"
  have up: "sorted (rev ?lens)"
    using order by (simp add: sample_browser_def sorted_wrt_rev sorted_wrt_map rev_map [symmetric] del: rev_map)
  have perm: "mset (sorted_jobs sample_browser ?js) = mset ?js" using order by blast
  have "mset (rev ?lens) = mset [1, 2]" unfolding mset_rev mset_map perm by simp
  with up have "rev ?lens = [1, 2]" by (metis properties_for_sort sorted_sort_id sorted2 sorted1 one_le_numeral)
  then show ?thesis by (metis rev_rev_ident rev.simps append.simps)
qed

text \<open>
  The job page watches exactly as long as there is something to watch: while the job is not
  terminal, the page is mounted and the tab visible, its events are polled; once it is terminal, no
  interval runs and none starts again, whatever the user and the controller do, until the job is
  seen not to be terminal after all.
\<close>

theorem terminal_job_stops_polling:
  assumes "reach hook_init (hook_step answers) h" "hook_mounted h"
    and "run (hook_step answers) (rerender (hook_key h) (events_interval jobState) h) es t"
  shows "if isTerminal jobState
    then (\<forall>e\<in>set es. no_poll e) \<longrightarrow> live_timers t = [] \<and> \<not> hook_listening t \<and> \<not> (\<exists>u. hook_step answers t Tick u)
    else tab_hidden h \<or> live_timers (rerender (hook_key h) (events_interval jobState) h) \<noteq> []"
proof -
  let ?r = "rerender (hook_key h) (events_interval jobState) h"
  have "reach hook_init (hook_step answers) ?r"
    using assms(1) by (rule reach_step) (rule step_rerender [OF assms(2)])
  then have inv: "timer_inv ?r" using hook.reach_inv by (auto simp: hook_inv_def)
  have "live_timers t = [] \<and> \<not> hook_listening t \<and> \<not> (\<exists>u. hook_step answers t Tick u)"
    if "isTerminal jobState" "\<forall>e\<in>set es. no_poll e"
  proof -
    have "\<not> polls ?r" using that(1) by (simp add: polls_def events_interval_def)
    then have "timer_inv t \<and> \<not> polls t" using silent.run_kept [OF assms(3) that(2)] inv by blast
    then have "live_timers t = [] \<and> \<not> hook_listening t" by (auto simp: timer_inv_def)
    then show ?thesis by (auto elim: tick_cases)
  qed
  moreover have "live_timers ?r \<noteq> []" if "\<not> isTerminal jobState" "\<not> tab_hidden h"
    using inv assms(2) that by (auto simp: timer_inv_def polls_def events_interval_def POLL_MS_def)
  ultimately show ?thesis by auto
qed

theorem terminal_job_stops_polling_witness:
  "live_timers (rerender 1 (events_interval (mount 1 None False :: (job, nat) hook)) (mount 1 (Some 5000) False :: (nat, nat) hook)) \<noteq> []"
proof -
  let ?j = "mount 1 None False :: (job, nat) hook" and ?h = "mount 1 (Some 5000) False :: (nat, nat) hook"
  have nt: "\<not> isTerminal ?j" by (simp add: isTerminal_def)
  have "run (hook_step (\<lambda>_ _. True)) (rerender (hook_key ?h) (events_interval ?j) ?h) []
      (rerender (hook_key ?h) (events_interval ?j) ?h)" by (rule run_Nil)
  from terminal_job_stops_polling [OF reach_mount _ this] nt show ?thesis by simp
qed

text \<open>
  Links lead where they say. Every id that is well-formed text has a link; the link's path is
  read back as that very id, whatever characters it has; and the page it opens asks the controller
  for the job of that id. The link of a host opens the Informix configuration of that host.
\<close>

theorem links_lead_home:
  "(well_formed i \<longrightarrow> (\<exists>l. job_link i = Inr l \<and> view_job_path i = Inr l))
   \<and> (job_link i = Inr l \<and> \<not> dot_name i \<longrightarrow> route l = map Some [[], js ''jobs'', i]
      \<and> (\<exists>a. getJob i = Inr a \<and> route (call_path a) = map Some [[], js ''v1'', js ''jobs'', i]))
   \<and> (config_link h = Inr m \<and> \<not> dot_name h \<longrightarrow> route m = map Some [[], js ''hosts'', h, js ''plugins'', js ''informix'', js ''config'']
      \<and> PluginConfigPage (Some h) (Some (js ''informix'')) = ConfigForm (js ''Configure informix'') h ShowInformix)"
proof -
  have "well_formed i \<Longrightarrow> \<exists>l. job_link i = Inr l \<and> view_job_path i = Inr l"
    using encoded_well_formed [of i] by (auto simp: job_link_def view_job_path_def)
  moreover have "job_link i = Inr l \<Longrightarrow> \<not> dot_name i \<Longrightarrow> route l = map Some [[], js ''jobs'', i]
      \<and> (\<exists>a. getJob i = Inr a \<and> route (call_path a) = map Some [[], js ''v1'', js ''jobs'', i])"
    using link_parts(1) getJob_of_encoded by (auto simp: job_link_def bind_result_Inr_iff)
  moreover have page: "PluginConfigPage (Some h) (Some (js ''informix'')) = ConfigForm (js ''Configure informix'') h ShowInformix"
    by (simp add: PluginConfigPage_def pluginForms_def js_append [symmetric])
  moreover from page have "config_link h = Inr m \<Longrightarrow> \<not> dot_name h \<Longrightarrow> route m = map Some [[], js ''hosts'', h, js ''plugins'', js ''informix'', js ''config'']
      \<and> PluginConfigPage (Some h) (Some (js ''informix'')) = ConfigForm (js ''Configure informix'') h ShowInformix"
    using link_parts(2) by (auto simp: config_link_def bind_result_Inr_iff)
  ultimately show ?thesis by blast
qed

theorem links_lead_home_witness:
  "\<exists>l. job_link (js ''a/b?c'') = Inr l \<and> route l = map Some [[], js ''jobs'', js ''a/b?c'']"
proof -
  let ?i = "js ''a/b?c''"
  have "well_formed ?i" and dot: "\<not> dot_name ?i" by (simp_all add: dot_name_def)
  from this(1) links_lead_home [of ?i] obtain l where "job_link ?i = Inr l" by blast
  with links_lead_home [of ?i] dot show ?thesis by blast
qed

text \<open>
  A failed load leaves the last answer on screen, whoever it was for: after another host has been
  selected and its snapshots could not be loaded, the snapshots page shows the error and, below it,
  the snapshots of the host selected before, under the name of the new one.
\<close>

theorem snapshots_of_another_host:
  assumes "reach hook_init (hook_step answers) h" "hook_mounted h" "hook_data h = Some snaps" "k \<noteq> hook_key h"
    and "hook_step answers (rerender k None h) (Answer (length (in_flight h)) (Inl err)) t"
    and "map_result (snapshot_row br rm) (indexed snaps) = Inr rows" "error_text err \<noteq> []" "snaps \<noteq> []"
    and "\<not> hook_loading hostsState"
  shows "hook_key t = k \<and> SnapshotsPage br rm hostsState t = Inr ([ErrorNotice (error_text err) True], rows)"
proof -
  let ?r = "rerender k None h" and ?n = "length (in_flight h)"
  have r: "requestId ?r = Suc (requestId h)" "hook_data ?r = Some snaps" "hook_mounted ?r"
    "in_flight ?r = in_flight h @ [\<lparr>fl_id = Suc (requestId h), fl_kind = Load, fl_key = k\<rparr>]"
    using assms(2-4) by (simp_all add: rerender_def Let_def)
  then have q: "in_flight ?r ! ?n = \<lparr>fl_id = Suc (requestId h), fl_kind = Load, fl_key = k\<rparr>" by simp
  have "t = answer ?n (Inl err) ?r" using assms(5) by (auto elim: answer_cases)
  then have t: "t = settle Load (requestId ?r) (Inl err) (drop_request ?n ?r)"
    by (simp only: answer_alt q r if_True) simp
  have key: "hook_key t = k" unfolding t by simp
  have "hook_data t = Some snaps" "hook_error t = Some (error_text err)" "\<not> hook_loading t"
    unfolding t by (simp_all add: r)
  then show ?thesis using key assms(6-9) by (simp add: SnapshotsPage_def rows_of_def)
qed

definition sample_snapshot :: snapshot where
  "sample_snapshot = \<lparr>snap_id = js ''s1'', snap_jobId = js ''j1'', snap_host = js ''a'', snap_plugin = js ''postgres'',
     snap_size = 10, snap_checksum = js ''cafe'', snap_createdAt = js ''2026-01-01T00:00:00Z''\<rparr>"

theorem snapshots_of_another_host_witness:
  "\<exists>t rows. hook_key t = js ''b'' \<and> length rows = 1
     \<and> SnapshotsPage sample_browser False (answer 0 (Inr (Some [])) (mount () None False)) t
       = Inr ([ErrorNotice UNREACHABLE True], rows)"
proof -
  let ?h = "answer 0 (Inr (Some [sample_snapshot])) (mount (js ''a'') None False) :: (snapshot list, jsstr) hook"
  let ?hosts = "answer 0 (Inr (Some [])) (mount () None False) :: (host list, unit) hook"
  let ?stp = "hook_step (\<lambda>_ _. True) :: (snapshot list, jsstr) hook \<Rightarrow> _"
  have r: "reach hook_init ?stp ?h" by (rule reach_step [OF reach_mount step_first_answer]) simp
  have m: "hook_mounted ?h" "hook_data ?h = Some [sample_snapshot]" "js ''b'' \<noteq> hook_key ?h" "in_flight ?h = []"
    by (simp_all add: answer_alt)
  have row: "\<exists>x. snapshot_row sample_browser False (sample_snapshot, 0) = Inr x"
    by (simp add: snapshot_row_def relative_def sample_browser_def formatRelative_def split: option.splits)
  then obtain x where x: "map_result (snapshot_row sample_browser False) (indexed [sample_snapshot]) = Inr [x]"
    by (auto simp: indexed_def)
  let ?t = "answer (length (in_flight ?h)) (Inl OtherError) (rerender (js ''b'') None ?h)"
  have st: "?stp (rerender (js ''b'') None ?h) (Answer (length (in_flight ?h)) (Inl OtherError)) ?t"
    by (rule step_answer) (simp_all add: m(4) rerender_def Let_def answer_alt)
  have e: "error_text OtherError \<noteq> []" by (simp add: UNREACHABLE_def)
  have l: "\<not> hook_loading ?hosts" by (simp add: answer_alt)
  note th = snapshots_of_another_host [OF r m(1-3) st x e _ l]
  show ?thesis by (rule exI [of _ ?t], rule exI [of _ "[x]"]) (use th in simp)
qed

end
