(* ===== verification/Shell.thy ===== *)
theory Shell
  imports Session Pages
begin

text \<open>
  What surrounds the pages: the motion preference (\<open>web/src/hooks/usePrefersReducedMotion.ts\<close>),
  the connect card (\<open>ConnectPage.tsx\<close>, whose state is in \<open>Session\<close>), the guard and the
  route table of \<open>App.tsx\<close>, and the frame of \<open>AppShell.tsx\<close>. Which route or link a path
  matches is decided by the routing library and is an argument.
\<close>

section \<open>usePrefersReducedMotion\<close>

text \<open>The media query of the browser, the hook's state, and whether its listener is registered.\<close>

record motion_hook =
  mq_matches :: bool
  rm_reduced :: bool
  rm_listening :: bool

definition motion_mount :: "bool \<Rightarrow> motion_hook" where
  "motion_mount matches = \<lparr>mq_matches = matches, rm_reduced = matches, rm_listening = True\<rparr>"

definition motion_onChange :: "motion_hook \<Rightarrow> motion_hook" where
  "motion_onChange m = m\<lparr>rm_reduced := mq_matches m\<rparr>"

definition motion_unmount :: "motion_hook \<Rightarrow> motion_hook" where
  "motion_unmount m = m\<lparr>rm_listening := False\<rparr>"

text \<open>A change of the preference is an event of the query, delivered to the listener.\<close>

definition preference_change :: "bool \<Rightarrow> motion_hook \<Rightarrow> motion_hook" where
  "preference_change b m =
     (let m1 = m\<lparr>mq_matches := b\<rparr>
      in if b \<noteq> mq_matches m \<and> rm_listening m then motion_onChange m1 else m1)"

datatype motion_event = PreferenceChange bool | UnmountMotion

inductive motion_step :: "motion_hook \<Rightarrow> motion_event \<Rightarrow> motion_hook \<Rightarrow> bool" where
  motion_change: "motion_step m (PreferenceChange b) (preference_change b m)"
| motion_leave: "rm_listening m \<Longrightarrow> motion_step m UnmountMotion (motion_unmount m)"

definition motion_init :: "motion_hook \<Rightarrow> bool" where
  "motion_init m \<longleftrightarrow> (\<exists>b. m = motion_mount b)"

definition motion_inv :: "motion_hook \<Rightarrow> bool" where
  "motion_inv m \<longleftrightarrow> (rm_listening m \<longrightarrow> rm_reduced m = mq_matches m)"

interpretation motion: transition_system motion_step motion_inv motion_init
proof
  fix m e m' assume inv: "motion_inv m" and "motion_step m e m'"
  from this(2) show "motion_inv m'"
    using inv by cases
      (auto simp: motion_inv_def preference_change_def motion_onChange_def motion_unmount_def Let_def)
qed (auto simp: motion_init_def motion_inv_def motion_mount_def)

section \<open>ConnectPage\<close>

record connect_card =
  card_type :: jsstr
  card_value :: jsstr
  card_placeholder :: jsstr
  card_reveal :: "jsstr \<times> jsstr"
  card_hint :: jsstr
  card_alert :: "jsstr option"
  card_submit :: button

definition ConnectPage :: "session \<Rightarrow> connect_card" where
  "ConnectPage s =
     \<lparr>card_type = (if form_reveal s then js ''text'' else js ''password''),
      card_value = form_token s,
      card_placeholder = js ''paste a read or write token'',
      card_reveal = (if form_reveal s then (js ''Hide token'', js ''Hide'') else (js ''Show token'', js ''Show'')),
      card_hint = js ''Held only for this browser tab. A write token can also trigger backups; a read token can only view.'',
      card_alert = (if truthy (auth_error s) then auth_error s else None),
      card_submit =
        \<lparr>btn_text = (if form_submitting s then js ''Connecting'' @ ELLIPSIS else js ''Connect''),
         btn_enabled = (\<not> (form_submitting s \<or> js_trim (form_token s) = []))\<rparr>\<rparr>"

section \<open>App and AppShell\<close>

datatype page_element = Dashboard | Hosts | PluginConfigElement | Jobs | JobDetail | Snapshots | Events

text \<open>The routes inside \<open>AppShell\<close>; an empty pattern is the index, \<open>*\<close> anything else.\<close>

definition ROUTES :: "(jsstr \<times> page_element) list" where
  "ROUTES = [([], Dashboard), (js ''hosts'', Hosts),
     (js ''hosts/:host/plugins/:plugin/config'', PluginConfigElement), (js ''jobs'', Jobs),
     (js ''jobs/:id'', JobDetail), (js ''snapshots'', Snapshots), (js ''events'', Events), (js ''*'', Dashboard)]"

record nav_item =
  nav_to :: jsstr
  nav_label :: jsstr
  nav_end :: bool

definition NAV_ITEMS :: "nav_item list" where
  "NAV_ITEMS = map (\<lambda>(to, label, exact). \<lparr>nav_to = js to, nav_label = js label, nav_end = exact\<rparr>)
     [(''/'', ''Dashboard'', True), (''/hosts'', ''Hosts'', False), (''/jobs'', ''Jobs'', False),
      (''/snapshots'', ''Snapshots'', False), (''/events'', ''Events'', False)]"

text \<open>
  The frame: one link per item, marked when the library finds it active for the location, then the
  page. The animations are a spring for the mark and 160 ms for a page, or none.
\<close>

datatype shell_motion = NoMotion | SpringMotion nat nat | TimedMotion nat

definition indicator_motion :: "bool \<Rightarrow> shell_motion" where
  "indicator_motion reduceMotion = (if reduceMotion then NoMotion else SpringMotion 500 40)"

definition page_motion :: "bool \<Rightarrow> shell_motion" where
  "page_motion reduceMotion = (if reduceMotion then NoMotion else TimedMotion 160)"

record shell =
  shell_links :: "(jsstr \<times> jsstr \<times> shell_motion option) list"
  shell_page_motion :: shell_motion
  shell_outlet :: "page_element option"

definition AppShell ::
  "(nav_item \<Rightarrow> jsstr \<Rightarrow> bool) \<Rightarrow> bool \<Rightarrow> jsstr \<Rightarrow> page_element option \<Rightarrow> shell" where
  "AppShell isActive reduceMotion path outlet =
     \<lparr>shell_links = map (\<lambda>item. (nav_to item, nav_label item,
        if isActive item path then Some (indicator_motion reduceMotion) else None)) NAV_ITEMS,
      shell_page_motion = page_motion reduceMotion, shell_outlet = outlet\<rparr>"

datatype screen = ConnectScreen connect_card | AppScreen shell

definition Router :: "((jsstr \<times> page_element) list \<Rightarrow> jsstr \<Rightarrow> page_element option)
    \<Rightarrow> (nav_item \<Rightarrow> jsstr \<Rightarrow> bool) \<Rightarrow> motion_hook \<Rightarrow> jsstr \<Rightarrow> session \<Rightarrow> screen" where
  "Router pick isActive motion path s =
     (if \<not> connected s then ConnectScreen (ConnectPage s)
      else AppScreen (AppShell isActive (rm_reduced motion) path (pick ROUTES path)))"

section \<open>Properties\<close>

text \<open>
  While a component with motion is mounted, what it takes for the preference is the preference of
  this moment, and every transition of the console obeys it: under reduced motion the rows of a
  list appear at once, and neither the page nor the mark in the navigation moves.
\<close>

theorem reduced_motion_obeyed:
  assumes "reach motion_init motion_step m" "rm_listening m"
  shows "(shell_page_motion (AppShell isActive (rm_reduced m) path outlet) = NoMotion \<longleftrightarrow> mq_matches m)
    \<and> (duration_ms (staggerTransition (rm_reduced m) i cap) = 0 \<longleftrightarrow> mq_matches m)
    \<and> (mq_matches m \<longrightarrow> delay_ms (staggerTransition (rm_reduced m) i cap) = None
         \<and> snd ` snd ` set (shell_links (AppShell isActive (rm_reduced m) path outlet)) \<subseteq> {None, Some NoMotion})"
  using motion.reach_inv [OF assms(1)] assms(2)
  by (auto simp: motion_inv_def AppShell_def page_motion_def indicator_motion_def staggerTransition_def
      split: if_splits)

theorem reduced_motion_obeyed_witness:
  "duration_ms (staggerTransition (rm_reduced (preference_change True (motion_mount False))) 3 12) = 0"
proof -
  have "reach motion_init motion_step (motion_mount False)"
    by (rule reach_init) (auto simp: motion_init_def)
  then have "reach motion_init motion_step (preference_change True (motion_mount False))"
    by (rule reach_step) (rule motion_change)
  from reduced_motion_obeyed [OF this, of _ _ _ 3 12] show ?thesis
    by (simp add: preference_change_def motion_mount_def motion_onChange_def)
qed

text \<open>
  What the tab shows, in every reachable state: the frame with its pages exactly while connected,
  and then a token is held; otherwise the connect card, whose button can be pressed exactly when no
  probe is on its way and the field is not blank, and reads as connecting exactly while a probe is.
  The token is masked unless it was asked for, and never carried over to another card.
\<close>

theorem screen_of_session:
  assumes "reach session_init session_step s"
  shows "case Router pick isActive motion path s of
      AppScreen f \<Rightarrow> connected s \<and> token (ses_client s) \<noteq> None \<and> shell_outlet f = pick ROUTES path
    | ConnectScreen c \<Rightarrow> \<not> connected s
        \<and> (btn_enabled (card_submit c) \<longleftrightarrow> js_trim (card_value c) \<noteq> [] \<and> \<not> (\<exists>p\<in>set (sent s). sent_probe p))
        \<and> (btn_text (card_submit c) = js ''Connect'' \<longleftrightarrow> \<not> (\<exists>p\<in>set (sent s). sent_probe p))
        \<and> (card_type c = js ''password'' \<longleftrightarrow> \<not> form_reveal s)"
proof (cases "connected s")
  case True
  then show ?thesis using inv_connected [OF tab.reach_inv [OF assms]]
    by (simp add: Router_def AppShell_def)
next
  case False
  have "form_submitting s \<longleftrightarrow> (\<exists>p\<in>set (sent s). sent_probe p)"
    using busy_iff_probe [OF tab.reach_inv [OF assms]] .
  with False show ?thesis by (auto simp: Router_def ConnectPage_def js_Cons ELLIPSIS_def)
qed

theorem screen_of_session_witness:
  "\<exists>c. Router (\<lambda>_ _. None) (\<lambda>_ _. False) (motion_mount False) (js ''/'') (connecting (js ''abc'')) = ConnectScreen c
     \<and> \<not> btn_enabled (card_submit c) \<and> btn_text (card_submit c) \<noteq> js ''Connect''"
proof -
  let ?s = "connecting (js ''abc'')"
  note c = connecting [of "js ''abc''", simplified]
  have probe: "\<exists>p\<in>set (sent ?s). sent_probe p" using c(5) by auto
  have card: "Router (\<lambda>_ _. None) (\<lambda>_ _. False) (motion_mount False) (js ''/'') ?s = ConnectScreen (ConnectPage ?s)"
    using c(2) by (simp add: Router_def)
  from screen_of_session [OF c(1), where pick = "\<lambda>_ _. None" and isActive = "\<lambda>_ _. False"
      and motion = "motion_mount False" and path = "js ''/''"]
  show ?thesis unfolding card using probe by auto
qed

end
