(* ===== verification/DialogKeys.thy ===== *)
theory DialogKeys
  imports Pages
begin

text \<open>
  The trigger dialog on its page (\<open>components/TriggerBackupModal.tsx\<close> on \<open>pages/DashboardPage.tsx\<close>
  and \<open>pages/JobsPage.tsx\<close>): what opens and closes it, and its listener for the Escape key. Every
  render of the page makes a new \<open>onClose\<close>, and the effect that listens depends on it, so the
  listener is taken down and set up again at every render.
\<close>

section \<open>The page and its listener\<close>

text \<open>
  \<open>pg_closure\<close> numbers the renders, and so the \<open>onClose\<close> of each; \<open>pg_keys\<close> are the listeners
  of the document, by the closure they call, and \<open>pg_cleanup\<close> is the one the last effect will
  remove.
\<close>

record 'k page =
  pg_modal :: modal
  pg_jobs :: "(job list, 'k) hook"
  pg_closure :: nat
  pg_keys :: "nat list"
  pg_cleanup :: "nat option"

definition key_cleanup :: "'k page \<Rightarrow> 'k page" where
  "key_cleanup s = (case pg_cleanup s of None \<Rightarrow> s
     | Some n \<Rightarrow> s\<lparr>pg_keys := removeAll n (pg_keys s), pg_cleanup := None\<rparr>)"

definition key_effect :: "'k page \<Rightarrow> 'k page" where
  "key_effect s = (if \<not> md_open (pg_modal s) then s
     else s\<lparr>pg_keys := pg_keys s @ [pg_closure s], pg_cleanup := Some (pg_closure s)\<rparr>)"

definition page_render :: "'k page \<Rightarrow> 'k page" where
  "page_render s = key_effect (key_cleanup (s\<lparr>pg_closure := Suc (pg_closure s)\<rparr>))"

definition page_mount :: "host list \<Rightarrow> (job list, 'k) hook \<Rightarrow> 'k page" where
  "page_mount hs h = page_render
     \<lparr>pg_modal = modal_mount hs, pg_jobs = h, pg_closure = 0, pg_keys = [], pg_cleanup = None\<rparr>"

text \<open>\<open>setShowTrigger(true)\<close>; the button is disabled without hosts.\<close>

definition show_trigger :: "'k page \<Rightarrow> 'k page" where
  "show_trigger s = page_render (s\<lparr>pg_modal := set_open True (pg_modal s)\<rparr>)"

text \<open>A call of \<open>onClose\<close>, and the render that follows.\<close>

definition call_onClose :: "'k page \<Rightarrow> 'k page" where
  "call_onClose s = (case onClose (pg_modal s, pg_jobs s) of (m, h) \<Rightarrow> s\<lparr>pg_modal := m, pg_jobs := h\<rparr>)"

text \<open>A key goes to every listener, in the order they were added.\<close>

definition onKey :: "jsstr \<Rightarrow> 'k page \<Rightarrow> 'k page" where
  "onKey key s = (if key = js ''Escape'' then call_onClose s else s)"

definition key_down :: "jsstr \<Rightarrow> 'k page \<Rightarrow> 'k page" where
  "key_down key s =
     (let t = fold (\<lambda>_. onKey key) (pg_keys s) s in if pg_keys s \<noteq> [] \<and> key = js ''Escape'' then page_render t else t)"

text \<open>A press of the mouse on the backdrop itself; its target is what was pressed.\<close>

definition backdrop_down :: "bool \<Rightarrow> 'k page \<Rightarrow> 'k page" where
  "backdrop_down on_itself s = (if on_itself then page_render (call_onClose s) else s)"

definition page_unmount :: "'k page \<Rightarrow> 'k page" where
  "page_unmount s = key_cleanup (s\<lparr>pg_jobs := unmount (pg_jobs s)\<rparr>)"

section \<open>Steps\<close>

text \<open>
  \<open>Inside\<close> is any step of the dialog that leaves it open or closed; \<open>Drawn\<close> is a render of the
  page for another reason, such as new jobs.
\<close>

datatype 'k page_event = ShowTrigger | KeyDown jsstr | Backdrop bool | CloseButton | Inside modal_event
  | Drawn "(job list, 'k) hook"

inductive page_step :: "'k page \<Rightarrow> 'k page_event \<Rightarrow> 'k page \<Rightarrow> bool" where
  page_show: "\<not> md_open (pg_modal s) \<Longrightarrow> md_hosts (pg_modal s) \<noteq> [] \<Longrightarrow> page_step s ShowTrigger (show_trigger s)"
| page_key: "page_step s (KeyDown key) (key_down key s)"
| page_backdrop: "md_open (pg_modal s) \<Longrightarrow> page_step s (Backdrop b) (backdrop_down b s)"
| page_button: "md_open (pg_modal s) \<Longrightarrow> page_step s CloseButton (page_render (call_onClose s))"
| page_inside: "modal_step (pg_modal s) e m \<Longrightarrow> md_open m = md_open (pg_modal s) \<Longrightarrow>
    page_step s (Inside e) (s\<lparr>pg_modal := m\<rparr>)"
| page_drawn: "page_step s (Drawn h) (page_render (s\<lparr>pg_jobs := h\<rparr>))"

definition page_init :: "'k page \<Rightarrow> bool" where
  "page_init s \<longleftrightarrow> (\<exists>hs h. s = page_mount hs h)"

section \<open>One listener while the dialog is open\<close>

definition keys_inv :: "'k page \<Rightarrow> bool" where
  "keys_inv s \<longleftrightarrow> pg_keys s = (if md_open (pg_modal s) then [pg_closure s] else [])
     \<and> pg_cleanup s = (if md_open (pg_modal s) then Some (pg_closure s) else None)"

text \<open>Whatever was listening before, after a render only the effect of that render is.\<close>

definition keys_kept :: "'k page \<Rightarrow> bool" where
  "keys_kept s \<longleftrightarrow> pg_keys s = (case pg_cleanup s of None \<Rightarrow> [] | Some n \<Rightarrow> [n])"

lemma keys_inv_kept: "keys_inv s \<Longrightarrow> keys_kept s"
  by (simp add: keys_inv_def keys_kept_def)

lemma keys_kept_update [simp]:
  "keys_kept (s\<lparr>pg_modal := m\<rparr>) = keys_kept s" "keys_kept (s\<lparr>pg_jobs := h\<rparr>) = keys_kept s"
  by (simp_all add: keys_kept_def)

lemma page_render_inv: "keys_kept s \<Longrightarrow> keys_inv (page_render s)"
  by (auto simp: keys_kept_def keys_inv_def page_render_def key_effect_def key_cleanup_def split: option.splits)

lemma page_render_simps [simp]:
  "pg_modal (page_render s) = pg_modal s" "pg_jobs (page_render s) = pg_jobs s"
  "pg_closure (page_render s) = Suc (pg_closure s)"
  by (simp_all add: page_render_def key_effect_def key_cleanup_def split: option.split)

lemma call_onClose_simps [simp]:
  "pg_modal (call_onClose s) = set_open False (pg_modal s)" "pg_jobs (call_onClose s) = load (pg_jobs s)"
  "pg_closure (call_onClose s) = pg_closure s" "keys_kept (call_onClose s) = keys_kept s"
  by (simp_all add: call_onClose_def onClose_def keys_kept_def)

lemma set_open_open [simp]: "md_open (set_open b m) = b"
  by (simp add: set_open_def reset_effect_def host_effect_def Let_def)

lemma keys_kept_onKeys: "keys_kept (fold (\<lambda>_. onKey key) ns s) = keys_kept s"
  by (induction ns arbitrary: s) (simp_all add: onKey_def)

lemma onKeys_other: "key \<noteq> js ''Escape'' \<Longrightarrow> fold (\<lambda>_. onKey key) ns s = s"
  by (induction ns) (simp_all add: onKey_def)

lemma keys_inv_step:
  assumes "page_step s e t" "keys_inv s"
  shows "keys_inv t"
  using assms
proof (induction rule: page_step.induct)
  case (page_key s key)
  then show ?case
    by (cases "key = js ''Escape''")
      (auto simp: key_down_def Let_def keys_kept_onKeys onKeys_other intro!: page_render_inv dest: keys_inv_kept)
next
  case (page_inside s e m)
  then show ?case by (simp add: keys_inv_def)
qed (auto simp: show_trigger_def backdrop_down_def intro!: page_render_inv dest: keys_inv_kept)

interpretation page: transition_system page_step keys_inv page_init
  by unfold_locales (auto simp: page_init_def page_mount_def keys_kept_def intro!: page_render_inv intro: keys_inv_step)

section \<open>Properties\<close>

text \<open>
  C31. The Escape key. At every moment the page has one listener for it exactly while the dialog is
  open, that of the last render, however often the page was drawn in between. So Escape closes the
  open dialog and has the jobs loaded again once, not twice; with the dialog closed it does nothing,
  and no other key ever does. Leaving the page removes it.
\<close>

theorem escape_closes_once:
  assumes "reach page_init page_step s" "page_step s (KeyDown key) t"
  shows "pg_keys s = (if md_open (pg_modal s) then [pg_closure s] else [])
    \<and> (if md_open (pg_modal s) \<and> key = js ''Escape''
       then \<not> md_open (pg_modal t) \<and> pg_keys t = [] \<and> pg_jobs t = load (pg_jobs s)
       else t = s)
    \<and> pg_keys (page_unmount s) = []"
proof -
  note inv = page.reach_inv [OF assms(1)] and t = keys_inv_step [OF assms(2) page.reach_inv [OF assms(1)]]
  have "t = key_down key s" using assms(2) by cases simp
  with inv t show ?thesis
    by (cases "key = js ''Escape''")
      (auto simp: keys_inv_def key_down_def onKey_def onKeys_other page_unmount_def key_cleanup_def Let_def)
qed

theorem escape_closes_once_witness:
  "let s = page_render (show_trigger (page_mount sample_hosts (mount () None False)))
   in \<not> md_open (pg_modal (key_down (js ''Escape'') s))
     \<and> pg_jobs (key_down (js ''Escape'') s) = load (mount () None False)"
proof -
  let ?h = "mount () None False :: (job list, unit) hook"
  let ?a = "page_mount sample_hosts ?h"
  let ?b = "show_trigger ?a"
  let ?s = "page_render ?b"
  have m: "pg_modal ?a = modal_mount sample_hosts" "pg_jobs ?a = ?h" by (simp_all add: page_mount_def)
  have "reach page_init page_step ?a" by (rule reach_init) (auto simp: page_init_def)
  moreover have "page_step ?a ShowTrigger ?b" by (rule page_show) (simp_all only: m modal_mount_simps, simp_all add: sample_hosts_def)
  moreover have "page_step ?b (Drawn (pg_jobs ?b)) ?s" using page_drawn [of ?b "pg_jobs ?b"] by simp
  ultimately have r: "reach page_init page_step ?s" by (blast intro: reach.intros)
  have "md_open (pg_modal ?s)" "pg_jobs ?s = ?h" by (simp_all add: show_trigger_def m)
  with escape_closes_once [OF r page_key, of "js ''Escape''"] show ?thesis by (simp add: Let_def)
qed

end
