(* ===== verification/Server.thy ===== *)
theory Server
  imports Client
begin

text \<open>
  The part of the HTTP API the console's session and its two write forms meet
  (\<open>internal/api\<close>, in Go): the bearer tokens of \<open>auth.go\<close> and \<open>server.go\<close>, the plugin
  configuration handlers of \<open>plugin_config.go\<close> with the \<open>ParseConfig\<close> of the three plugins, and
  the handler of \<open>backups.go\<close> with \<open>Controller.BuildPlugin\<close>. A string of configuration is its
  text; a header is read as bytes. The hash, the environment, a failing database and the plugin
  factories are arguments. JSON texts are taken as parsed, with their strings as sent; what the
  decoder makes of these is written out (\<open>go_json\<close>).
\<close>

section \<open>Answers\<close>

text \<open>\<open>writeError\<close> and \<open>writeJSON\<close>: a status, with an error message or a value.\<close>

record 'v api_answer =
  ans_status :: nat
  ans_error :: "jsstr option"
  ans_value :: "'v option"

definition writeError :: "nat \<Rightarrow> jsstr \<Rightarrow> 'v api_answer" where
  "writeError st msg = \<lparr>ans_status = st, ans_error = Some msg, ans_value = None\<rparr>"

definition writeJSON :: "nat \<Rightarrow> 'v \<Rightarrow> 'v api_answer" where
  "writeJSON st v = \<lparr>ans_status = st, ans_error = None, ans_value = Some v\<rparr>"

text \<open>An answer as the console receives it, with the reason phrase of its status.\<close>

definition received :: "(nat \<Rightarrow> jsstr) \<Rightarrow> 'v api_answer \<Rightarrow> 'v fetch_outcome" where
  "received reason a = Responded \<lparr>res_status = ans_status a, res_statusText = reason (ans_status a),
     res_error = ErrorObject (ans_error a), res_value = Some (ans_value a)\<rparr>"

section \<open>Tokens\<close>

type_synonym bytes = "nat list"

text \<open>The code units of a header value are its bytes on the wire.\<close>

definition wire_bytes :: "jsstr \<Rightarrow> bytes" where
  "wire_bytes v = map unat v"

fun cut_prefix :: "'a list \<Rightarrow> 'a list \<Rightarrow> 'a list option" where
  "cut_prefix [] s = Some s"
| "cut_prefix (p # ps) (x # s) = (if p = x then cut_prefix ps s else None)"
| "cut_prefix (p # ps) [] = None"

definition hashTokens :: "(bytes \<Rightarrow> 'h) \<Rightarrow> bytes list \<Rightarrow> 'h list" where
  "hashTokens sha tokens = map sha tokens"

fun any_hash :: "'h \<Rightarrow> 'h list \<Rightarrow> bool" where
  "any_hash presented [] = False"
| "any_hash presented (h # hs) = (if presented = h then True else any_hash presented hs)"

text \<open>\<open>None\<close> lets the request through to the next handler.\<close>

definition authMiddleware :: "(bytes \<Rightarrow> 'h) \<Rightarrow> 'h list \<Rightarrow> http_request \<Rightarrow> 'v api_answer option" where
  "authMiddleware sha tokenHashes req =
     (let hdr = (case headers_get (js ''Authorization'') (http_headers req) of None \<Rightarrow> [] | Some v \<Rightarrow> wire_bytes v)
      in case cut_prefix (wire_bytes (js ''Bearer '')) hdr of
           None \<Rightarrow> Some (writeError 401 (js ''missing or malformed Authorization header''))
         | Some presented \<Rightarrow>
             if presented = [] then Some (writeError 401 (js ''missing or malformed Authorization header''))
             else if \<not> any_hash (sha presented) tokenHashes then Some (writeError 401 (js ''invalid token''))
             else None)"

text \<open>\<open>NewServer\<close>: a write token may read too.\<close>

record tokens =
  read_tokens :: "bytes list"
  write_tokens :: "bytes list"

definition readHashes :: "(bytes \<Rightarrow> 'h) \<Rightarrow> tokens \<Rightarrow> 'h list" where
  "readHashes sha ts = hashTokens sha (read_tokens ts @ write_tokens ts)"

definition writeHashes :: "(bytes \<Rightarrow> 'h) \<Rightarrow> tokens \<Rightarrow> 'h list" where
  "writeHashes sha ts = hashTokens sha (write_tokens ts)"

definition guarded :: "(bytes \<Rightarrow> 'h) \<Rightarrow> 'h list \<Rightarrow> http_request \<Rightarrow> 'v api_answer \<Rightarrow> 'v api_answer" where
  "guarded sha hashes req answer = (case authMiddleware sha hashes req of Some denied \<Rightarrow> denied | None \<Rightarrow> answer)"

section \<open>Configuration values\<close>

text \<open>A value of \<open>interface{}\<close>; a \<open>float64\<close> here always holds a whole number.\<close>

datatype goval = GNil | GBool bool | GStr jsstr | GInt int | GFloat int | GList "goval list"
  | GMap "(jsstr \<times> goval) list"

type_synonym gomap = "(jsstr \<times> goval) list"

text \<open>Rounding to 53 significant bits, halves to even, and back to a 64-bit integer.\<close>

definition half_even :: "int \<Rightarrow> int \<Rightarrow> int" where
  "half_even n d = (let q = n div d; r = n mod d in
     if 2 * r < d \<or> 2 * r = d \<and> even q then q else q + 1)"

fun excess_bits :: "nat \<Rightarrow> nat" where
  "excess_bits n = (if n < 9007199254740992 then 0 else Suc (excess_bits (n div 2)))"

declare excess_bits.simps [simp del]

definition float64 :: "int \<Rightarrow> int" where
  "float64 n = (let d = 2 ^ excess_bits (nat (abs n)) in sgn n * (d * half_even (abs n) d))"

text \<open>Out of range the language leaves the result open; this is what amd64 gives.\<close>

definition int_of_float :: "int \<Rightarrow> int" where
  "int_of_float x = (if - 9223372036854775808 \<le> x \<and> x < 9223372036854775808 then x else - 9223372036854775808)"

text \<open>\<open>json.Marshal\<close>, and \<open>json.Unmarshal\<close> into an \<open>interface{}\<close>.\<close>

fun marshal :: "goval \<Rightarrow> json" where
  "marshal GNil = JNull"
| "marshal (GBool b) = JBool b"
| "marshal (GStr s) = JStr s"
| "marshal (GInt n) = JNum n"
| "marshal (GFloat n) = JNum n"
| "marshal (GList xs) = JArr (map marshal xs)"
| "marshal (GMap ps) = JObj (map (\<lambda>(k, v). (k, marshal v)) ps)"

fun unmarshal :: "json \<Rightarrow> goval" where
  "unmarshal JNull = GNil"
| "unmarshal (JBool b) = GBool b"
| "unmarshal (JStr s) = GStr s"
| "unmarshal (JNum n) = GFloat (float64 n)"
| "unmarshal (JArr xs) = GList (map unmarshal xs)"
| "unmarshal (JObj ps) = GMap (map (\<lambda>(k, v). (k, unmarshal v)) ps)"

text \<open>Into a \<open>map[string]interface{}\<close>: an object, or \<open>null\<close> for a map without entries.\<close>

definition unmarshal_map :: "json \<Rightarrow> gomap option" where
  "unmarshal_map j = (case unmarshal j of GMap m \<Rightarrow> Some m | GNil \<Rightarrow> Some [] | _ \<Rightarrow> None)"

text \<open>\<open>v, _ := m[k].(string)\<close>.\<close>

definition str_at :: "gomap \<Rightarrow> jsstr \<Rightarrow> jsstr" where
  "str_at m k = (case map_of m k of Some (GStr s) \<Rightarrow> s | _ \<Rightarrow> [])"

fun str_or_empty :: "goval \<Rightarrow> jsstr" where
  "str_or_empty (GStr s) = s"
| "str_or_empty _ = []"

text \<open>A slice may be \<open>nil\<close> (\<open>None\<close>), which marshals as \<open>null\<close>.\<close>

definition stringSliceFromRaw :: "goval option \<Rightarrow> jsstr list option" where
  "stringSliceFromRaw v = (case v of Some (GList raw) \<Rightarrow> Some (map str_or_empty raw) | _ \<Rightarrow> None)"

definition slice :: "jsstr list option \<Rightarrow> jsstr list" where
  "slice xs = (case xs of None \<Rightarrow> [] | Some ys \<Rightarrow> ys)"

text \<open>
  A string of a request body as the decoder reads it: a surrogate without its partner, which the
  console sends as an escape, becomes U+FFFD. What the controller marshals itself holds no such
  surrogate, so \<open>unmarshal\<close> keeps strings as they are.
\<close>

definition go_unit :: "code_unit \<Rightarrow> code_unit" where
  "go_unit u = (if is_high u \<or> is_low u then cu 65533 else u)"

fun go_text :: "jsstr \<Rightarrow> jsstr" where
  "go_text [] = []"
| "go_text [u] = [go_unit u]"
| "go_text (u # v # s) = (if is_high u \<and> is_low v then u # v # go_text s else go_unit u # go_text (v # s))"

fun go_json :: "json \<Rightarrow> json" where
  "go_json (JStr s) = JStr (go_text s)"
| "go_json (JArr xs) = JArr (map go_json xs)"
| "go_json (JObj ps) = JObj (map (\<lambda>(k, v). (go_text k, go_json v)) ps)"
| "go_json j = j"

section \<open>pluginConfigDTO\<close>

record informix_dto =
  id_host :: jsstr
  id_port :: int
  id_username :: jsstr
  id_passwordEnv :: jsstr
  id_serverName :: jsstr
  id_database :: jsstr
  id_tables :: "jsstr list option"
  id_agentPath :: jsstr

record postgres_dto =
  pd_username :: jsstr
  pd_passwordEnv :: jsstr
  pd_databases :: "jsstr list option"
  pd_container :: jsstr

record filesystem_dto =
  fd_paths :: "jsstr list option"
  fd_excludes :: "jsstr list option"

datatype dto = InformixDTO informix_dto | PostgresDTO postgres_dto | FilesystemDTO filesystem_dto

definition pluginConfigDTOs :: "jsstr \<Rightarrow> dto option" where
  "pluginConfigDTOs plugin =
     (if plugin = js ''informix'' then Some (InformixDTO \<lparr>id_host = [], id_port = 0, id_username = [],
        id_passwordEnv = [], id_serverName = [], id_database = [], id_tables = None, id_agentPath = []\<rparr>)
      else if plugin = js ''postgres'' then Some (PostgresDTO \<lparr>pd_username = [], pd_passwordEnv = [],
        pd_databases = None, pd_container = []\<rparr>)
      else if plugin = js ''filesystem'' then Some (FilesystemDTO \<lparr>fd_paths = None, fd_excludes = None\<rparr>)
      else None)"

text \<open>
  \<open>decode\<close>: \<open>json.Unmarshal\<close> into the fields. A key names a field up to case (two characters
  outside ASCII fold to \<open>k\<close> and \<open>s\<close>), \<open>null\<close> leaves a field as it is, another type fails.
\<close>

definition fold_unit :: "code_unit \<Rightarrow> code_unit" where
  "fold_unit u = (if unat u = 8490 then ch CHR ''k'' else if unat u = 383 then ch CHR ''s'' else lower_unit u)"

definition names :: "jsstr \<Rightarrow> string \<Rightarrow> bool" where
  "names k f \<longleftrightarrow> map fold_unit k = map fold_unit (js f)"

fun into_string :: "json \<Rightarrow> jsstr \<Rightarrow> jsstr option" where
  "into_string (JStr s) old = Some s"
| "into_string JNull old = Some old"
| "into_string _ old = None"

fun into_int :: "json \<Rightarrow> int \<Rightarrow> int option" where
  "into_int (JNum n) old =
     (if - 9223372036854775808 \<le> n \<and> n < 9223372036854775808 then Some n else None)"
| "into_int JNull old = Some old"
| "into_int _ old = None"

fun into_slice :: "json \<Rightarrow> jsstr list option option" where
  "into_slice (JArr xs) = map_option Some (those (map (\<lambda>x. into_string x []) xs))"
| "into_slice JNull = Some None"
| "into_slice _ = None"

fun decode_fields :: "(jsstr \<Rightarrow> json \<Rightarrow> 'd \<Rightarrow> 'd option) \<Rightarrow> (jsstr \<times> json) list \<Rightarrow> 'd \<Rightarrow> 'd option" where
  "decode_fields set_field [] d = Some d"
| "decode_fields set_field ((k, j) # ps) d = Option.bind (set_field k j d) (decode_fields set_field ps)"

definition informix_field :: "jsstr \<Rightarrow> json \<Rightarrow> informix_dto \<Rightarrow> informix_dto option" where
  "informix_field k j d =
     (if names k ''host'' then map_option (\<lambda>v. d\<lparr>id_host := v\<rparr>) (into_string j (id_host d))
      else if names k ''port'' then map_option (\<lambda>v. d\<lparr>id_port := v\<rparr>) (into_int j (id_port d))
      else if names k ''username'' then map_option (\<lambda>v. d\<lparr>id_username := v\<rparr>) (into_string j (id_username d))
      else if names k ''passwordEnv'' then map_option (\<lambda>v. d\<lparr>id_passwordEnv := v\<rparr>) (into_string j (id_passwordEnv d))
      else if names k ''serverName'' then map_option (\<lambda>v. d\<lparr>id_serverName := v\<rparr>) (into_string j (id_serverName d))
      else if names k ''database'' then map_option (\<lambda>v. d\<lparr>id_database := v\<rparr>) (into_string j (id_database d))
      else if names k ''tables'' then map_option (\<lambda>v. d\<lparr>id_tables := v\<rparr>) (into_slice j)
      else if names k ''agentPath'' then map_option (\<lambda>v. d\<lparr>id_agentPath := v\<rparr>) (into_string j (id_agentPath d))
      else Some d)"

definition postgres_field :: "jsstr \<Rightarrow> json \<Rightarrow> postgres_dto \<Rightarrow> postgres_dto option" where
  "postgres_field k j d =
     (if names k ''username'' then map_option (\<lambda>v. d\<lparr>pd_username := v\<rparr>) (into_string j (pd_username d))
      else if names k ''passwordEnv'' then map_option (\<lambda>v. d\<lparr>pd_passwordEnv := v\<rparr>) (into_string j (pd_passwordEnv d))
      else if names k ''databases'' then map_option (\<lambda>v. d\<lparr>pd_databases := v\<rparr>) (into_slice j)
      else if names k ''container'' then map_option (\<lambda>v. d\<lparr>pd_container := v\<rparr>) (into_string j (pd_container d))
      else Some d)"

definition filesystem_field :: "jsstr \<Rightarrow> json \<Rightarrow> filesystem_dto \<Rightarrow> filesystem_dto option" where
  "filesystem_field k j d =
     (if names k ''paths'' then map_option (\<lambda>v. d\<lparr>fd_paths := v\<rparr>) (into_slice j)
      else if names k ''excludes'' then map_option (\<lambda>v. d\<lparr>fd_excludes := v\<rparr>) (into_slice j)
      else Some d)"

definition unmarshal_into :: "(jsstr \<Rightarrow> json \<Rightarrow> 'd \<Rightarrow> 'd option) \<Rightarrow> json \<Rightarrow> 'd \<Rightarrow> 'd option" where
  "unmarshal_into set_field body d = (case body of
     JObj ps \<Rightarrow> decode_fields set_field ps d | JNull \<Rightarrow> Some d | _ \<Rightarrow> None)"

fun decode :: "json \<Rightarrow> dto \<Rightarrow> dto option" where
  "decode body (InformixDTO d) = map_option InformixDTO (unmarshal_into informix_field body d)"
| "decode body (PostgresDTO d) = map_option PostgresDTO (unmarshal_into postgres_field body d)"
| "decode body (FilesystemDTO d) = map_option FilesystemDTO (unmarshal_into filesystem_field body d)"

definition raw_strings :: "jsstr list option \<Rightarrow> goval" where
  "raw_strings xs = GList (map GStr (slice xs))"

definition informix_toRawConfig :: "informix_dto \<Rightarrow> gomap" where
  "informix_toRawConfig d =
     [(js ''host'', GStr (id_host d)), (js ''port'', GInt (id_port d)), (js ''username'', GStr (id_username d)),
      (js ''password_env'', GStr (id_passwordEnv d)), (js ''server_name'', GStr (id_serverName d)),
      (js ''database'', GStr (id_database d)), (js ''tables'', raw_strings (id_tables d)),
      (js ''agent_path'', GStr (id_agentPath d))]"

definition postgres_toRawConfig :: "postgres_dto \<Rightarrow> gomap" where
  "postgres_toRawConfig d =
     [(js ''username'', GStr (pd_username d)), (js ''password_env'', GStr (pd_passwordEnv d)),
      (js ''databases'', raw_strings (pd_databases d)), (js ''container'', GStr (pd_container d))]"

definition filesystem_toRawConfig :: "filesystem_dto \<Rightarrow> gomap" where
  "filesystem_toRawConfig d =
     [(js ''paths'', raw_strings (fd_paths d)), (js ''excludes'', raw_strings (fd_excludes d))]"

definition informix_fromRawConfig :: "gomap \<Rightarrow> informix_dto \<Rightarrow> informix_dto" where
  "informix_fromRawConfig raw d = d\<lparr>id_host := str_at raw (js ''host''),
     id_port := (case map_of raw (js ''port'') of Some (GFloat x) \<Rightarrow> int_of_float x | _ \<Rightarrow> id_port d),
     id_username := str_at raw (js ''username''), id_passwordEnv := str_at raw (js ''password_env''),
     id_serverName := str_at raw (js ''server_name''), id_database := str_at raw (js ''database''),
     id_agentPath := str_at raw (js ''agent_path''), id_tables := stringSliceFromRaw (map_of raw (js ''tables''))\<rparr>"

definition postgres_fromRawConfig :: "gomap \<Rightarrow> postgres_dto \<Rightarrow> postgres_dto" where
  "postgres_fromRawConfig raw d = d\<lparr>pd_username := str_at raw (js ''username''),
     pd_passwordEnv := str_at raw (js ''password_env''), pd_container := str_at raw (js ''container''),
     pd_databases := stringSliceFromRaw (map_of raw (js ''databases''))\<rparr>"

definition filesystem_fromRawConfig :: "gomap \<Rightarrow> filesystem_dto \<Rightarrow> filesystem_dto" where
  "filesystem_fromRawConfig raw d = d\<lparr>fd_paths := stringSliceFromRaw (map_of raw (js ''paths'')),
     fd_excludes := stringSliceFromRaw (map_of raw (js ''excludes''))\<rparr>"

lemmas raw_config_defs [simp] = informix_toRawConfig_def postgres_toRawConfig_def filesystem_toRawConfig_def
  informix_fromRawConfig_def postgres_fromRawConfig_def filesystem_fromRawConfig_def

text \<open>The methods of the interface, by the plugin of the DTO.\<close>

fun toRawConfig :: "dto \<Rightarrow> gomap" where
  "toRawConfig (InformixDTO d) = informix_toRawConfig d"
| "toRawConfig (PostgresDTO d) = postgres_toRawConfig d"
| "toRawConfig (FilesystemDTO d) = filesystem_toRawConfig d"

fun fromRawConfig :: "gomap \<Rightarrow> dto \<Rightarrow> dto" where
  "fromRawConfig raw (InformixDTO d) = InformixDTO (informix_fromRawConfig raw d)"
| "fromRawConfig raw (PostgresDTO d) = PostgresDTO (postgres_fromRawConfig raw d)"
| "fromRawConfig raw (FilesystemDTO d) = FilesystemDTO (filesystem_fromRawConfig raw d)"

section \<open>ParseConfig\<close>

text \<open>\<open>%T\<close> of a value; \<open>%q\<close> of a text is the argument \<open>q\<close>.\<close>

fun go_type :: "goval \<Rightarrow> jsstr" where
  "go_type GNil = js ''<nil>''"
| "go_type (GBool b) = js ''bool''"
| "go_type (GStr s) = js ''string''"
| "go_type (GInt n) = js ''int''"
| "go_type (GFloat x) = js ''float64''"
| "go_type (GList xs) = js ''[]interface {}''"
| "go_type (GMap m) = js ''map[string]interface {}''"

definition digits_value :: "jsstr \<Rightarrow> int" where
  "digits_value s = foldl (\<lambda>n u. 10 * n + (int (unat u) - 48)) 0 s"

definition atoi :: "jsstr \<Rightarrow> int option" where
  "atoi s = (let neg = (s \<noteq> [] \<and> hd s = ch CHR ''-'');
       ds = (if s \<noteq> [] \<and> hd s \<in> {ch CHR ''-'', ch CHR ''+''} then tl s else s);
       n = (if neg then - digits_value ds else digits_value ds)
     in if ds = [] \<or> \<not> list_all (\<lambda>u. 48 \<le> unat u \<and> unat u \<le> 57) ds then None
        else if - 9223372036854775808 \<le> n \<and> n < 9223372036854775808 then Some n else None)"

definition toInt :: "(jsstr \<Rightarrow> jsstr) \<Rightarrow> goval option \<Rightarrow> jsstr + int" where
  "toInt q v = (case v of
       None \<Rightarrow> Inr 0 | Some GNil \<Rightarrow> Inr 0 | Some (GInt n) \<Rightarrow> Inr n | Some (GFloat x) \<Rightarrow> Inr (int_of_float x)
     | Some (GStr s) \<Rightarrow> (case atoi s of None \<Rightarrow> Inl (js ''expected a number, got '' @ q s) | Some n \<Rightarrow> Inr n)
     | Some w \<Rightarrow> Inl (js ''expected a number, got '' @ go_type w))"

fun string_items :: "nat \<Rightarrow> goval list \<Rightarrow> jsstr + jsstr list" where
  "string_items i [] = Inr []"
| "string_items i (v # vs) = (case v of
       GStr s \<Rightarrow> (case string_items (Suc i) vs of Inl e \<Rightarrow> Inl e | Inr ss \<Rightarrow> Inr (s # ss))
     | _ \<Rightarrow> Inl (js ''expected a string at index '' @ nat_str i @ js '', got '' @ go_type v))"

definition toStringSlice :: "goval option \<Rightarrow> jsstr + jsstr list" where
  "toStringSlice v = (case v of
       None \<Rightarrow> Inr [] | Some GNil \<Rightarrow> Inr [] | Some (GList raw) \<Rightarrow> string_items 0 raw
     | Some w \<Rightarrow> Inl (js ''expected a list, got '' @ go_type w))"

text \<open>\<open>validTableName\<close>: one or two identifiers around a dot.\<close>

definition ident_start :: "code_unit \<Rightarrow> bool" where
  "ident_start u = (let n = unat u in 65 \<le> n \<and> n \<le> 90 \<or> 97 \<le> n \<and> n \<le> 122 \<or> n = 95)"

definition ident_part :: "code_unit \<Rightarrow> bool" where
  "ident_part u = (ident_start u \<or> 48 \<le> unat u \<and> unat u \<le> 57)"

definition plain_ident :: "jsstr \<Rightarrow> bool" where
  "plain_ident s = (s \<noteq> [] \<and> ident_start (hd s) \<and> list_all ident_part (tl s))"

definition valid_table :: "jsstr \<Rightarrow> bool" where
  "valid_table s = (case js_split (ch CHR ''.'') s of
     [a] \<Rightarrow> plain_ident a | [a, b] \<Rightarrow> plain_ident a \<and> plain_ident b | _ \<Rightarrow> False)"

text \<open>The first of a list of checks that fails: its error.\<close>

fun first_failure :: "(bool \<times> jsstr) list \<Rightarrow> jsstr option" where
  "first_failure [] = None"
| "first_failure ((bad, e) # cs) = (if bad then Some e else first_failure cs)"

definition env_unset :: "(jsstr \<Rightarrow> jsstr) \<Rightarrow> string \<Rightarrow> jsstr \<Rightarrow> jsstr" where
  "env_unset q plugin v = js plugin @ js '': environment variable '' @ q v @ js '' (password_env) is not set''"

text \<open>
  \<open>Config\<close> of each plugin, and \<open>ParseConfig\<close>: an error, or the configuration. \<open>env\<close> is
  \<open>os.Getenv\<close>; \<open>None\<close> is a missing \<open>config\<close> block.
\<close>

record informix_conf =
  ic_host :: jsstr
  ic_port :: int
  ic_username :: jsstr
  ic_password :: jsstr
  ic_passwordEnv :: jsstr
  ic_serverName :: jsstr
  ic_database :: jsstr
  ic_tables :: "jsstr list"
  ic_agentPath :: jsstr

record postgres_conf =
  pc_username :: jsstr
  pc_password :: jsstr
  pc_databases :: "jsstr list"
  pc_container :: jsstr

record filesystem_conf =
  fc_paths :: "jsstr list"
  fc_excludes :: "jsstr list"

definition ParseInformix ::
  "(jsstr \<Rightarrow> jsstr) \<Rightarrow> (jsstr \<Rightarrow> jsstr) \<Rightarrow> gomap option \<Rightarrow> jsstr + informix_conf" where
  "ParseInformix q env cfg = (case cfg of
     None \<Rightarrow> Inl (js ''informix: no config provided'')
   | Some m \<Rightarrow>
     (let pw = str_at m (js ''password_env'') in
      if str_at m (js ''host'') = [] then Inl (js ''informix: config.host is required'')
      else case toInt q (map_of m (js ''port'')) of
        Inl e \<Rightarrow> Inl (js ''informix: config.port: '' @ e)
      | Inr port \<Rightarrow>
        (case first_failure
          [(port = 0, js ''informix: config.port is required''),
           (str_at m (js ''username'') = [], js ''informix: config.username is required''),
           (pw = [], js ''informix: config.password_env is required''),
           (env pw = [], env_unset q ''informix'' pw),
           (str_at m (js ''server_name'') = [], js ''informix: config.server_name is required''),
           (str_at m (js ''database'') = [], js ''informix: config.database is required'')] of
           Some e \<Rightarrow> Inl e
         | None \<Rightarrow>
           (case toStringSlice (map_of m (js ''tables'')) of
              Inl e \<Rightarrow> Inl (js ''informix: config.tables: '' @ e)
            | Inr tables \<Rightarrow>
              if tables = [] then Inl (js ''informix: config.tables must list at least one table'')
              else (case List.find (\<lambda>t. \<not> valid_table t) tables of
                Some t \<Rightarrow> Inl (js ''informix: config.tables: '' @ q t @ js '' is not a plain [owner.]table identifier'')
              | None \<Rightarrow>
                if str_at m (js ''agent_path'') = [] then Inl (js ''informix: config.agent_path is required'')
                else Inr \<lparr>ic_host = str_at m (js ''host''), ic_port = port, ic_username = str_at m (js ''username''),
                  ic_password = env pw, ic_passwordEnv = pw, ic_serverName = str_at m (js ''server_name''),
                  ic_database = str_at m (js ''database''), ic_tables = tables,
                  ic_agentPath = str_at m (js ''agent_path'')\<rparr>)))))"

definition ParsePostgres ::
  "(jsstr \<Rightarrow> jsstr) \<Rightarrow> (jsstr \<Rightarrow> jsstr) \<Rightarrow> gomap option \<Rightarrow> jsstr + postgres_conf" where
  "ParsePostgres q env cfg = (case cfg of
     None \<Rightarrow> Inl (js ''postgres: no config provided'')
   | Some m \<Rightarrow>
     (let pw = str_at m (js ''password_env'') in
      case first_failure
        [(str_at m (js ''username'') = [], js ''postgres: config.username is required''),
         (pw = [], js ''postgres: config.password_env is required''),
         (env pw = [], env_unset q ''postgres'' pw)] of
        Some e \<Rightarrow> Inl e
      | None \<Rightarrow> (case toStringSlice (map_of m (js ''databases'')) of
          Inl e \<Rightarrow> Inl (js ''postgres: config.databases: '' @ e)
        | Inr databases \<Rightarrow>
            if databases = [] then Inl (js ''postgres: config.databases must list at least one database'')
            else Inr \<lparr>pc_username = str_at m (js ''username''), pc_password = env pw, pc_databases = databases,
              pc_container = str_at m (js ''container'')\<rparr>)))"

definition absolute :: "jsstr \<Rightarrow> bool" where
  "absolute p \<longleftrightarrow> p \<noteq> [] \<and> hd p = ch CHR ''/''"

definition ParseFilesystem :: "(jsstr \<Rightarrow> jsstr) \<Rightarrow> gomap option \<Rightarrow> jsstr + filesystem_conf" where
  "ParseFilesystem q cfg = (case cfg of
     None \<Rightarrow> Inl (js ''filesystem: no config provided'')
   | Some m \<Rightarrow>
     (case toStringSlice (map_of m (js ''paths'')) of
        Inl e \<Rightarrow> Inl (js ''filesystem: config.paths: '' @ e)
      | Inr paths \<Rightarrow>
        if paths = [] then Inl (js ''filesystem: config.paths must list at least one path'')
        else (case List.find (\<lambda>p. \<not> absolute p) paths of
          Some p \<Rightarrow> Inl (js ''filesystem: config.paths: '' @ q p @ js '' must be an absolute path'')
        | None \<Rightarrow> (case toStringSlice (map_of m (js ''excludes'')) of
            Inl e \<Rightarrow> Inl (js ''filesystem: config.excludes: '' @ e)
          | Inr excludes \<Rightarrow> Inr \<lparr>fc_paths = paths, fc_excludes = excludes\<rparr>))))"

text \<open>\<open>_, err := \<dots>; return err\<close>.\<close>

definition error_of :: "jsstr + 'a \<Rightarrow> jsstr option" where
  "error_of r = (case r of Inl e \<Rightarrow> Some e | Inr _ \<Rightarrow> None)"

fun validate :: "(jsstr \<Rightarrow> jsstr) \<Rightarrow> (jsstr \<Rightarrow> jsstr) \<Rightarrow> dto \<Rightarrow> jsstr option" where
  "validate q env (InformixDTO d) = error_of (ParseInformix q env (Some (toRawConfig (InformixDTO d))))"
| "validate q env (PostgresDTO d) = error_of (ParsePostgres q env (Some (toRawConfig (PostgresDTO d))))"
| "validate q env (FilesystemDTO d) = error_of (ParseFilesystem q (Some (toRawConfig (FilesystemDTO d))))"

section \<open>Configuration handlers\<close>

text \<open>
  \<open>plugin_settings\<close>: the stored JSON by host and plugin. \<open>failing\<close> is the error of a database
  that fails.
\<close>

type_synonym settings = "jsstr \<times> jsstr \<Rightarrow> json option"

definition no_web_config :: "jsstr \<Rightarrow> jsstr" where
  "no_web_config plugin = js ''web configuration isn'' @ [cu 39] @ js ''t available for '' @ [cu 34] @ plugin @ [cu 34]"

definition getPluginConfigHandler ::
  "(json \<Rightarrow> jsstr) \<Rightarrow> jsstr option \<Rightarrow> settings \<Rightarrow> jsstr \<Rightarrow> jsstr \<Rightarrow> dto api_answer" where
  "getPluginConfigHandler map_error failing store host plugin =
     (case pluginConfigDTOs plugin of
        None \<Rightarrow> writeError 400 (no_web_config plugin)
      | Some zero \<Rightarrow>
        (case failing of
           Some e \<Rightarrow> writeError 500 e
         | None \<Rightarrow>
           (case store (host, plugin) of
              None \<Rightarrow> writeError 404 (js ''no stored config for this host/plugin'')
            | Some j \<Rightarrow>
              (case unmarshal_map j of
                 None \<Rightarrow> writeError 500 (js ''stored config is not valid JSON: '' @ map_error j)
               | Some raw \<Rightarrow> writeJSON 200 (fromRawConfig raw zero)))))"

text \<open>\<open>body\<close> is the parsed body, \<open>None\<close> if it is no JSON.\<close>

definition setPluginConfigHandler ::
  "(jsstr \<Rightarrow> jsstr) \<Rightarrow> (jsstr \<Rightarrow> jsstr) \<Rightarrow> jsstr option \<Rightarrow> jsstr \<Rightarrow> jsstr \<Rightarrow> json option \<Rightarrow> settings
    \<Rightarrow> dto api_answer \<times> settings" where
  "setPluginConfigHandler q env failing host plugin body store =
     (case pluginConfigDTOs plugin of
        None \<Rightarrow> (writeError 400 (no_web_config plugin), store)
      | Some zero \<Rightarrow>
        (case Option.bind body (\<lambda>j. decode (go_json j) zero) of
           None \<Rightarrow> (writeError 400 (js ''invalid JSON body''), store)
         | Some d \<Rightarrow>
           (case validate q env d of
              Some e \<Rightarrow> (writeError 400 e, store)
            | None \<Rightarrow>
              (case failing of
                 Some e \<Rightarrow> (writeError 500 e, store)
               | None \<Rightarrow> (writeJSON 200 d, store((host, plugin) \<mapsto> marshal (GMap (toRawConfig d))))))))"

text \<open>The object an answered DTO is for the console: a list that is \<open>null\<close> is none of its types.\<close>

fun console_config :: "dto \<Rightarrow> plugin_config option" where
  "console_config (InformixDTO d) = map_option (\<lambda>ts. Informix \<lparr>ifx_host = id_host d, ifx_port = id_port d,
     ifx_username = id_username d, ifx_passwordEnv = id_passwordEnv d, ifx_serverName = id_serverName d,
     ifx_database = id_database d, ifx_tables = ts, ifx_agentPath = id_agentPath d\<rparr>) (id_tables d)"
| "console_config (PostgresDTO d) = map_option (\<lambda>ds. Postgres \<lparr>pg_username = pd_username d,
     pg_passwordEnv = pd_passwordEnv d, pg_databases = ds, pg_container = pd_container d\<rparr>) (pd_databases d)"
| "console_config (FilesystemDTO d) = Option.bind (fd_paths d) (\<lambda>ps. map_option (\<lambda>es.
     Filesystem \<lparr>fs_paths = ps, fs_excludes = es\<rparr>) (fd_excludes d))"

section \<open>Routes\<close>

text \<open>
  \<open>NewServer\<close>: the patterns, on a method and the segments of a cleaned path. A wildcard takes one
  segment that is not empty. \<open>None\<close> is every other path: the handler of the console's own
  files at \<open>/\<close>, or a 404 where there is none.
\<close>

datatype endpoint = EpHosts | EpJobs | EpJob jsstr | EpSnapshots | EpEvents | EpBackups
  | EpGetConfig jsstr jsstr | EpSetConfig jsstr jsstr

definition mux :: "jsstr \<Rightarrow> jsstr option list \<Rightarrow> endpoint option" where
  "mux meth path =
     (let get = (meth \<in> {js ''GET'', js ''HEAD''}); v1 = Some (js ''v1''); hosts = Some (js ''hosts''); jobs = Some (js ''jobs'')
      in case path of
        [Some [], v, a] \<Rightarrow>
          if v \<noteq> v1 then None
          else if a = hosts \<and> get then Some EpHosts
          else if a = jobs \<and> get then Some EpJobs
          else if a = Some (js ''snapshots'') \<and> get then Some EpSnapshots
          else if a = Some (js ''events'') \<and> get then Some EpEvents
          else if a = Some (js ''backups'') \<and> meth = js ''POST'' then Some EpBackups
          else None
      | [Some [], v, a, Some i] \<Rightarrow> if v = v1 \<and> a = jobs \<and> get \<and> i \<noteq> [] then Some (EpJob i) else None
      | [Some [], v, a, Some h, ps, Some p, c] \<Rightarrow>
          if v = v1 \<and> a = hosts \<and> ps = Some (js ''plugins'') \<and> c = Some (js ''config'') \<and> h \<noteq> [] \<and> p \<noteq> []
          then (if get then Some (EpGetConfig h p)
                else if meth = js ''PUT'' then Some (EpSetConfig h p) else None)
          else None
      | _ \<Rightarrow> None)"

definition needs_write :: "endpoint \<Rightarrow> bool" where
  "needs_write e = (case e of EpBackups \<Rightarrow> True | EpSetConfig h p \<Rightarrow> True | _ \<Rightarrow> False)"

text \<open>Which tokens an endpoint takes, and the guard in front of its handler.\<close>

definition endpoint_hashes :: "(bytes \<Rightarrow> 'h) \<Rightarrow> tokens \<Rightarrow> endpoint \<Rightarrow> 'h list" where
  "endpoint_hashes sha ts e = (if needs_write e then writeHashes sha ts else readHashes sha ts)"

text \<open>The endpoint a request of the console arrives at.\<close>

definition served :: "http_request \<Rightarrow> endpoint option" where
  "served r = mux (http_method r) (route (fst (path_query (http_path r))))"

section \<open>Backups\<close>

text \<open>
  A server of \<open>inventory.yaml\<close>: the configuration block of a plugin may be empty (\<open>None\<close>).
  \<open>factories\<close> are the registered plugins, each giving the error of instantiating it, if any.
\<close>

record verification =
  vf_enabled :: bool
  vf_targetDir :: jsstr

record inventory_server =
  inv_plugins :: "(jsstr \<times> gomap option) list"
  inv_retention :: policy
  inv_storage :: jsstr
  inv_verification :: "verification option"

type_synonym inventory = "jsstr \<Rightarrow> inventory_server option"
type_synonym factories = "jsstr \<Rightarrow> (inventory_server \<Rightarrow> gomap option \<Rightarrow> jsstr option) option"

text \<open>
  Settings and jobs are the tables of the database; \<open>ct_events\<close> are the events handed to the
  publisher, which \<open>cli/wiring.go\<close> always sets; the queue is a channel with its capacity.
\<close>

record controller_state =
  ct_settings :: settings
  ct_jobs :: "job list"
  ct_events :: "bop_event list"
  ct_queue :: "job list"
  ct_capacity :: nat

text \<open>Errors of the database and of \<open>encoding/json\<close> at this request, and its time.\<close>

record request_env =
  rq_quote :: "jsstr \<Rightarrow> jsstr"
  rq_read_error :: "jsstr option"
  rq_create_error :: "jsstr option"
  rq_map_error :: "json \<Rightarrow> jsstr"
  rq_nanos :: int
  rq_now :: jsstr

definition resolvePluginConfig ::
  "request_env \<Rightarrow> settings \<Rightarrow> jsstr \<Rightarrow> jsstr \<Rightarrow> inventory_server \<Rightarrow> jsstr + gomap option" where
  "resolvePluginConfig rq store host plugin srv =
     (let pair = rq_quote rq host @ js ''/'' @ rq_quote rq plugin in
      case rq_read_error rq of
        Some e \<Rightarrow> Inl (js ''resolve plugin config for '' @ pair @ js '': '' @ e)
      | None \<Rightarrow>
        (case store (host, plugin) of
           Some j \<Rightarrow>
             (case unmarshal_map j of
                None \<Rightarrow> Inl (js ''stored plugin config for '' @ pair @ js '' is not valid JSON: '' @ rq_map_error rq j)
              | Some raw \<Rightarrow> Inr (Some raw))
         | None \<Rightarrow>
             (case map_of (inv_plugins srv) plugin of
                None \<Rightarrow> Inl (js ''plugin '' @ rq_quote rq plugin @ js '' is not configured for host '' @ rq_quote rq host)
              | Some cfg \<Rightarrow> Inr cfg)))"

definition BuildPlugin ::
  "request_env \<Rightarrow> inventory \<Rightarrow> factories \<Rightarrow> settings \<Rightarrow> jsstr \<Rightarrow> jsstr \<Rightarrow> jsstr option" where
  "BuildPlugin rq servers factories store host plugin =
     (case servers host of
        None \<Rightarrow> Some (js ''controller: host '' @ rq_quote rq host @ js '' not found in inventory'')
      | Some srv \<Rightarrow>
        (case factories plugin of
           None \<Rightarrow> Some (js ''controller: no plugin registered for '' @ rq_quote rq plugin)
         | Some factory \<Rightarrow>
           (case resolvePluginConfig rq store host plugin srv of
              Inl e \<Rightarrow> Some (js ''controller: '' @ e)
            | Inr cfg \<Rightarrow>
              (case factory srv cfg of
                 Some e \<Rightarrow> Some (js ''controller: instantiate plugin '' @ rq_quote rq plugin @ js '' for ''
                   @ rq_quote rq host @ js '': '' @ e)
               | None \<Rightarrow> None))))"

definition NewJob :: "request_env \<Rightarrow> jsstr \<Rightarrow> jsstr \<Rightarrow> policy \<Rightarrow> job" where
  "NewJob rq host plugin pol = \<lparr>job_id = host @ js ''-'' @ plugin @ js ''-'' @ int_str (rq_nanos rq),
     job_host = host, job_plugin = plugin, job_policy = pol, job_state = Queued, job_queuedAt = rq_now rq\<rparr>"

definition trigger_field :: "jsstr \<Rightarrow> json \<Rightarrow> trigger_request \<Rightarrow> trigger_request option" where
  "trigger_field k j d =
     (if names k ''host'' then map_option (\<lambda>v. d\<lparr>req_host := v\<rparr>) (into_string j (req_host d))
      else if names k ''plugin'' then map_option (\<lambda>v. d\<lparr>req_plugin := v\<rparr>) (into_string j (req_plugin d))
      else Some d)"

text \<open>A queue that is full is only logged; the job stays queued in the database.\<close>

definition Enqueue :: "job \<Rightarrow> controller_state \<Rightarrow> controller_state" where
  "Enqueue j st = (if length (ct_queue st) < ct_capacity st then st\<lparr>ct_queue := ct_queue st @ [j]\<rparr> else st)"

definition triggerBackupHandler ::
  "request_env \<Rightarrow> inventory \<Rightarrow> factories \<Rightarrow> json option \<Rightarrow> controller_state
    \<Rightarrow> job api_answer \<times> controller_state" where
  "triggerBackupHandler rq servers factories body st =
     (case Option.bind body (\<lambda>j. unmarshal_into trigger_field (go_json j) \<lparr>req_host = [], req_plugin = []\<rparr>) of
        None \<Rightarrow> (writeError 400 (js ''invalid JSON body''), st)
      | Some req \<Rightarrow>
        if req_host req = [] \<or> req_plugin req = [] then (writeError 400 (js ''host and plugin are required''), st)
        else (case BuildPlugin rq servers factories (ct_settings st) (req_host req) (req_plugin req) of
          Some e \<Rightarrow> (writeError 404 e, st)
        | None \<Rightarrow>
          (let retention = (case servers (req_host req) of Some srv \<Rightarrow> inv_retention srv
                 | None \<Rightarrow> \<lparr>policy_daily = 0, policy_weekly = 0, policy_monthly = 0, policy_yearly = 0\<rparr>);
               j = NewJob rq (req_host req) (req_plugin req) retention
           in case rq_create_error rq of
                Some e \<Rightarrow> (writeError 500 (js ''create job: '' @ e), st)
              | None \<Rightarrow>
                (let st1 = st\<lparr>ct_jobs := ct_jobs st @ [j]\<rparr>;
                     st2 = st1\<lparr>ct_events := ct_events st1 @ [\<lparr>event_kind = BackupRequested, event_jobId = job_id j,
                       event_host = req_host req, event_plugin = req_plugin req, event_resource = [],
                       event_fields = [], event_timestamp = rq_now rq\<rparr>]\<rparr>
                 in (writeJSON 202 j, Enqueue j st2)))))"

section \<open>What the console sends\<close>

text \<open>What the console sends as a configuration is decoded to it.\<close>

fun dto_of :: "plugin_config \<Rightarrow> dto" where
  "dto_of (Informix c) = InformixDTO \<lparr>id_host = ifx_host c, id_port = ifx_port c, id_username = ifx_username c,
     id_passwordEnv = ifx_passwordEnv c, id_serverName = ifx_serverName c, id_database = ifx_database c,
     id_tables = Some (ifx_tables c), id_agentPath = ifx_agentPath c\<rparr>"
| "dto_of (Postgres c) = PostgresDTO \<lparr>pd_username = pg_username c, pd_passwordEnv = pg_passwordEnv c,
     pd_databases = Some (pg_databases c), pd_container = pg_container c\<rparr>"
| "dto_of (Filesystem c) = FilesystemDTO \<lparr>fd_paths = Some (fs_paths c), fd_excludes = Some (fs_excludes c)\<rparr>"

text \<open>What the controller reads of a configuration and of a request the console sends.\<close>

fun go_config :: "plugin_config \<Rightarrow> plugin_config" where
  "go_config (Informix c) = Informix \<lparr>ifx_host = go_text (ifx_host c), ifx_port = ifx_port c,
     ifx_username = go_text (ifx_username c), ifx_passwordEnv = go_text (ifx_passwordEnv c),
     ifx_serverName = go_text (ifx_serverName c), ifx_database = go_text (ifx_database c),
     ifx_tables = map go_text (ifx_tables c), ifx_agentPath = go_text (ifx_agentPath c)\<rparr>"
| "go_config (Postgres c) = Postgres \<lparr>pg_username = go_text (pg_username c), pg_passwordEnv = go_text (pg_passwordEnv c),
     pg_databases = map go_text (pg_databases c), pg_container = go_text (pg_container c)\<rparr>"
| "go_config (Filesystem c) = Filesystem \<lparr>fs_paths = map go_text (fs_paths c), fs_excludes = map go_text (fs_excludes c)\<rparr>"

definition go_request :: "trigger_request \<Rightarrow> trigger_request" where
  "go_request r = \<lparr>req_host = go_text (req_host r), req_plugin = go_text (req_plugin r)\<rparr>"

text \<open>The texts of a configuration.\<close>

fun config_texts :: "plugin_config \<Rightarrow> jsstr list" where
  "config_texts (Informix c) = [ifx_host c, ifx_username c, ifx_passwordEnv c, ifx_serverName c, ifx_database c,
     ifx_agentPath c] @ ifx_tables c"
| "config_texts (Postgres c) = [pg_username c, pg_passwordEnv c, pg_container c] @ pg_databases c"
| "config_texts (Filesystem c) = fs_paths c @ fs_excludes c"

fun plugin_name :: "plugin_config \<Rightarrow> jsstr" where
  "plugin_name (Informix c) = js ''informix''"
| "plugin_name (Postgres c) = js ''postgres''"
| "plugin_name (Filesystem c) = js ''filesystem''"

fun small_port :: "plugin_config \<Rightarrow> bool" where
  "small_port (Informix c) \<longleftrightarrow> abs (ifx_port c) < 9007199254740992"
| "small_port _ \<longleftrightarrow> True"

text \<open>Exactly which configurations of the console a controller takes.\<close>

fun acceptable :: "(jsstr \<Rightarrow> jsstr) \<Rightarrow> plugin_config \<Rightarrow> bool" where
  "acceptable env (Informix c) \<longleftrightarrow> ifx_host c \<noteq> [] \<and> ifx_port c \<noteq> 0 \<and> ifx_username c \<noteq> []
     \<and> ifx_passwordEnv c \<noteq> [] \<and> env (ifx_passwordEnv c) \<noteq> [] \<and> ifx_serverName c \<noteq> [] \<and> ifx_database c \<noteq> []
     \<and> ifx_tables c \<noteq> [] \<and> list_all valid_table (ifx_tables c) \<and> ifx_agentPath c \<noteq> []"
| "acceptable env (Postgres c) \<longleftrightarrow> pg_username c \<noteq> [] \<and> pg_passwordEnv c \<noteq> [] \<and> env (pg_passwordEnv c) \<noteq> []
     \<and> pg_databases c \<noteq> []"
| "acceptable env (Filesystem c) \<longleftrightarrow> fs_paths c \<noteq> [] \<and> list_all absolute (fs_paths c)"

section \<open>Tokens and hashes\<close>

lemma cut_prefix_append [simp]: "cut_prefix p (p @ s) = Some s"
  by (induction p) auto

lemma cut_prefix_Some: "cut_prefix p s = Some r \<Longrightarrow> s = p @ r"
  by (induction p s rule: cut_prefix.induct) (auto split: if_splits)

lemma any_hash_iff [simp]: "any_hash h hs \<longleftrightarrow> h \<in> set hs"
  by (induction hs) auto

lemma wire_bytes_append: "wire_bytes (a @ b) = wire_bytes a @ wire_bytes b"
  by (simp add: wire_bytes_def)

lemma wire_bytes_eq_Nil [simp]: "wire_bytes v = [] \<longleftrightarrow> v = []"
  by (simp add: wire_bytes_def)

text \<open>No token that counts collides with the one presented.\<close>

definition no_collision :: "(bytes \<Rightarrow> 'h) \<Rightarrow> bytes list \<Rightarrow> bytes \<Rightarrow> bool" where
  "no_collision sha ts t \<longleftrightarrow> (\<forall>u\<in>set ts. sha u = sha t \<longrightarrow> u = t)"

lemma known_hash: "no_collision sha ts t \<Longrightarrow> sha t \<in> set (hashTokens sha ts) \<longleftrightarrow> t \<in> set ts"
  by (auto simp: no_collision_def hashTokens_def image_iff)

lemma authMiddleware_bearer:
  assumes "headers_get (js ''Authorization'') (http_headers req) = Some (js ''Bearer '' @ t)" "t \<noteq> []"
  shows "authMiddleware sha hashes req
      = (if sha (wire_bytes t) \<in> set hashes then None else Some (writeError 401 (js ''invalid token'')))"
  using assms by (simp add: authMiddleware_def wire_bytes_append)

lemma authMiddleware_absent:
  assumes "headers_get (js ''Authorization'') (http_headers req) = None"
  shows "\<exists>a. authMiddleware sha hashes req = Some a \<and> ans_status a = 401"
proof -
  have "wire_bytes (js ''Bearer '') \<noteq> []" by (simp add: js_Cons)
  then have "cut_prefix (wire_bytes (js ''Bearer '')) [] = None"
    by (cases "wire_bytes (js ''Bearer '')") auto
  with assms show ?thesis by (simp add: authMiddleware_def writeError_def)
qed

section \<open>Values and their JSON\<close>

lemmas names_eval = names_def fold_unit_def lower_unit_def unat_ch js_Cons

lemma names_self [simp]: "names (js f) f" by (simp add: names_def)

lemma excess_small: "n < 9007199254740992 \<Longrightarrow> excess_bits n = 0"
  by (simp add: excess_bits.simps)

lemma float64_exact: "abs n < 9007199254740992 \<Longrightarrow> float64 n = n"
  by (simp add: float64_def excess_small half_even_def abs_sgn sgn_mult_abs)

lemma those_strings [simp]: "those (map (\<lambda>x. into_string x []) (map JStr xs)) = Some xs"
  by (induction xs) auto

lemma into_slice_strs [simp]: "into_slice (strs_json xs) = Some (Some xs)"
  by (simp add: strs_json_def del: map_map)

lemma items_strings [simp]: "string_items i (map GStr xs) = Inr xs"
  by (induction xs arbitrary: i) auto

lemma toStringSlice_raw [simp]: "toStringSlice (Some (raw_strings xs)) = Inr (slice xs)"
  by (simp add: toStringSlice_def raw_strings_def)

lemma slice_simps [simp]: "slice None = []" "slice (Some xs) = xs"
  by (simp_all add: slice_def)

lemma unmarshal_strings [simp]: "unmarshal (marshal (raw_strings xs)) = raw_strings xs"
  by (simp add: raw_strings_def comp_def)

lemma stringSlice_raw [simp]: "stringSliceFromRaw (Some (raw_strings xs)) = Some (slice xs)"
  by (simp add: stringSliceFromRaw_def raw_strings_def comp_def)

lemma str_at_GStr [simp]: "map_of m k = Some (GStr s) \<Longrightarrow> str_at m k = s"
  by (simp add: str_at_def)

section \<open>Strings on the way to the controller\<close>

lemma go_unit_cases: "go_unit u = u \<or> (is_high u \<or> is_low u) \<and> go_unit u = cu 65533"
  by (simp add: go_unit_def)

text \<open>Unit by unit, a text arrives as it was or, at a surrogate, as U+FFFD.\<close>

lemma go_text_units: "list_all2 (\<lambda>u v. v = u \<or> (is_high u \<or> is_low u) \<and> v = cu 65533) s (go_text s)"
  by (induction s rule: go_text.induct) (auto simp: go_unit_def)

lemma length_go_text [simp]: "length (go_text s) = length s"
  using list_all2_lengthD [OF go_text_units [of s]] by simp

lemma go_text_Nil_iff [simp]: "go_text s = [] \<longleftrightarrow> s = []"
  using length_go_text [of s] by (metis length_0_conv)

lemma replacement_code [simp]: "\<not> is_high (cu 65533)" "\<not> is_low (cu 65533)" "unat (cu 65533) = 65533"
  by (simp_all add: is_high_def is_low_def unat_cu)

lemma high_not_low: "is_high u \<Longrightarrow> \<not> is_low u"
  by (simp add: is_high_def is_low_def)

lemma go_text_id: "well_formed s \<Longrightarrow> go_text s = s"
  by (induction s rule: go_text.induct) (auto simp: well_formed_def go_unit_def split: if_splits)

lemma go_text_js [simp]: "go_text (js s) = js s"
  by (simp add: go_text_id)

lemma map_go_text_id: "\<forall>x\<in>set xs. well_formed x \<Longrightarrow> map go_text xs = xs"
  by (induction xs) (simp_all add: go_text_id)

lemma go_config_id: "list_all well_formed (config_texts c) \<Longrightarrow> go_config c = c"
  by (cases c) (auto simp: go_text_id map_go_text_id list_all_iff
      intro: informix_config.equality postgres_config.equality filesystem_config.equality)

lemma go_config_simps [simp]:
  "plugin_name (go_config c) = plugin_name c" "small_port (go_config c) = small_port c"
  by (cases c; simp)+

lemma go_strs_json [simp]: "go_json (strs_json xs) = strs_json (map go_text xs)"
  by (simp add: strs_json_def comp_def)

lemma go_config_json [simp]: "go_json (config_json c) = config_json (go_config c)"
  by (cases c) simp_all

section \<open>Configurations, sent and stored\<close>

lemma console_dto_of [simp]: "console_config (dto_of c) = Some c"
  by (cases c) auto

lemma decode_sent:
  assumes "small_port c" "pluginConfigDTOs (plugin_name c) = Some zero"
  shows "decode (config_json c) zero = Some (dto_of c)"
proof (cases c)
  case (Informix x)
  then show ?thesis using assms
    by (auto simp: pluginConfigDTOs_def unmarshal_into_def informix_field_def names_eval)
next
  case (Postgres x)
  then show ?thesis using assms
    by (auto simp: pluginConfigDTOs_def unmarshal_into_def postgres_field_def names_eval)
next
  case (Filesystem x)
  then show ?thesis using assms
    by (auto simp: pluginConfigDTOs_def unmarshal_into_def filesystem_field_def names_eval)
qed

lemma stored_back:
  assumes "small_port c" "pluginConfigDTOs (plugin_name c) = Some zero"
  shows "\<exists>raw. unmarshal_map (marshal (GMap (toRawConfig (dto_of c)))) = Some raw \<and> fromRawConfig raw zero = dto_of c"
proof (cases c)
  case (Informix x)
  with assms(1) have small: "abs (ifx_port x) < 9007199254740992" by simp
  then have "- 9007199254740992 < ifx_port x" "ifx_port x < 9007199254740992" by simp_all
  with float64_exact [OF small] have "int_of_float (float64 (ifx_port x)) = ifx_port x"
    by (simp add: int_of_float_def)
  with Informix show ?thesis using assms
    by (auto simp: pluginConfigDTOs_def unmarshal_map_def)
next
  case (Postgres x)
  then show ?thesis using assms by (auto simp: pluginConfigDTOs_def unmarshal_map_def)
next
  case (Filesystem x)
  then show ?thesis using assms by (auto simp: pluginConfigDTOs_def unmarshal_map_def)
qed

lemma dto_zero: "\<exists>zero. pluginConfigDTOs (plugin_name c) = Some zero"
  by (cases c) (auto simp: pluginConfigDTOs_def)

lemma find_not_None_iff: "List.find (\<lambda>x. \<not> P x) xs = None \<longleftrightarrow> list_all P xs"
  by (induction xs) auto

lemma validate_iff: "validate q env (dto_of c) = None \<longleftrightarrow> acceptable env c"
proof (cases c)
  case (Informix x)
  then show ?thesis
    using find_not_None_iff [of valid_table "ifx_tables x"]
    by (auto simp: ParseInformix_def error_of_def Let_def toInt_def split: option.splits)
next
  case (Postgres x)
  then show ?thesis by (auto simp: ParsePostgres_def error_of_def Let_def split: option.splits)
next
  case (Filesystem x)
  then show ?thesis
    using find_not_None_iff [of absolute "fs_paths x"]
    by (auto simp: ParseFilesystem_def error_of_def split: option.splits)
qed

lemma setPluginConfigHandler_sent:
  assumes "small_port c"
  shows "setPluginConfigHandler q env failing h (plugin_name c) (Some (config_json c)) store =
    (case validate q env (dto_of (go_config c)) of Some e \<Rightarrow> (writeError 400 e, store)
     | None \<Rightarrow> (case failing of Some e \<Rightarrow> (writeError 500 e, store)
        | None \<Rightarrow> (writeJSON 200 (dto_of (go_config c)),
            store((h, plugin_name c) \<mapsto> marshal (GMap (toRawConfig (dto_of (go_config c))))))))"
proof -
  obtain zero where zero: "pluginConfigDTOs (plugin_name c) = Some zero" using dto_zero by blast
  with decode_sent [of "go_config c" zero] assms show ?thesis by (simp add: setPluginConfigHandler_def)
qed

lemma getPluginConfigHandler_stored:
  assumes "small_port c" "store (h, plugin_name c) = Some (marshal (GMap (toRawConfig (dto_of c))))"
  shows "getPluginConfigHandler me None store h (plugin_name c) = writeJSON 200 (dto_of c)"
proof -
  obtain zero where zero: "pluginConfigDTOs (plugin_name c) = Some zero" using dto_zero by blast
  from stored_back [OF assms(1) zero] assms(2) zero show ?thesis
    by (auto simp: getPluginConfigHandler_def)
qed

section \<open>Backups, sent\<close>

lemma go_trigger_json [simp]: "go_json (trigger_json r) = trigger_json (go_request r)"
  by (simp add: trigger_json_def go_request_def)

lemma go_request_simps [simp]:
  "req_host (go_request r) = go_text (req_host r)" "req_plugin (go_request r) = go_text (req_plugin r)"
  by (simp_all add: go_request_def)

lemma decode_trigger: "unmarshal_into trigger_field (trigger_json r) \<lparr>req_host = [], req_plugin = []\<rparr> = Some r"
  by (simp add: unmarshal_into_def trigger_json_def trigger_field_def names_eval)

lemma triggerBackupHandler_sent:
  assumes "req_host r \<noteq> []" "req_plugin r \<noteq> []" "servers (go_text (req_host r)) = Some srv"
  shows "triggerBackupHandler rq servers factories (Some (trigger_json r)) st =
    (case BuildPlugin rq servers factories (ct_settings st) (go_text (req_host r)) (go_text (req_plugin r)) of
       Some e \<Rightarrow> (writeError 404 e, st)
     | None \<Rightarrow>
       (let j = NewJob rq (go_text (req_host r)) (go_text (req_plugin r)) (inv_retention srv) in
        case rq_create_error rq of Some e \<Rightarrow> (writeError 500 (js ''create job: '' @ e), st)
        | None \<Rightarrow> (writeJSON 202 j, Enqueue j (st\<lparr>ct_jobs := ct_jobs st @ [j],
            ct_events := ct_events st @ [\<lparr>event_kind = BackupRequested, event_jobId = job_id j,
              event_host = go_text (req_host r), event_plugin = go_text (req_plugin r), event_resource = [],
              event_fields = [], event_timestamp = rq_now rq\<rparr>]\<rparr>))))"
  using assms by (simp add: triggerBackupHandler_def decode_trigger Let_def split: option.splits)

lemma BuildPlugin_known: "BuildPlugin rq servers factories store h p = None \<Longrightarrow> \<exists>srv. servers h = Some srv
    \<and> (store (h, p) \<noteq> None \<or> p \<in> fst ` set (inv_plugins srv))"
  by (force simp: BuildPlugin_def resolvePluginConfig_def Let_def split: option.splits sum.splits dest: map_of_SomeD)

lemma Enqueue_simps [simp]:
  "ct_jobs (Enqueue j st) = ct_jobs st" "ct_events (Enqueue j st) = ct_events st"
  "ct_settings (Enqueue j st) = ct_settings st"
  by (simp_all add: Enqueue_def)

section \<open>Requests at their endpoints\<close>

lemma read_segment_js: "\<forall>c\<in>set s. uri_unescaped (of_char c) \<Longrightarrow> read_segment (js s) = Some (js s)"
  by (simp add: read_segment_def read_literal)

lemma route_v1:
  assumes "\<forall>c\<in>set s. uri_unescaped (of_char c)" "\<not> dot_name (js s)"
  shows "route (js ''/v1/'' @ js s) = map Some [[], js ''v1'', js s]"
proof -
  have "js ''/v1/'' @ js s = js_join [ch CHR ''/''] [[], js ''v1'', js s]" by (simp add: js_Cons)
  moreover have "ch CHR ''/'' \<notin> set (js s)"
    using assms(1) by (auto simp: set_js uri_unescaped_def is_alnum_def)
  ultimately show ?thesis
    using assms route_join [of "[[], js ''v1'', js s]" "[[], js ''v1'', js s]"]
    by (simp add: read_segment_js set_js)
qed

lemma route_literal:
  "route (js ''/v1/hosts'') = map Some [[], js ''v1'', js ''hosts'']"
  "route (js ''/v1/jobs'') = map Some [[], js ''v1'', js ''jobs'']"
  "route (js ''/v1/snapshots'') = map Some [[], js ''v1'', js ''snapshots'']"
  "route (js ''/v1/events'') = map Some [[], js ''v1'', js ''events'']"
  "route (js ''/v1/backups'') = map Some [[], js ''v1'', js ''backups'']"
  using route_v1 [of "''hosts''"] route_v1 [of "''jobs''"] route_v1 [of "''snapshots''"]
    route_v1 [of "''events''"] route_v1 [of "''backups''"]
  by (simp_all add: uri_unescaped_def is_alnum_def js_append [symmetric] dot_name_def)

lemma no_query: "ch CHR ''?'' \<notin> set p \<Longrightarrow> fst (path_query p) = p"
  by (simp add: path_query_plain)

lemma with_query: "ch CHR ''?'' \<notin> set p \<Longrightarrow> fst (path_query (p @ js ''?'' @ q)) = p"
  by (simp add: path_query_append)

lemma served_eq:
  assumes "send c a = Inr r" "fst (path_query (call_path a)) = p" "route p = ss"
  shows "served r = mux (case init_method (call_init a) of None \<Rightarrow> js ''GET'' | Some m \<Rightarrow> m) ss"
  using assms by (simp add: served_def send_fields)

lemma query_of_jobs: "listJobs status = Inr a \<Longrightarrow> fst (path_query (call_path a)) = js ''/v1/jobs'' \<and> init_method (call_init a) = None"
  using with_query [of "js ''/v1/jobs''" "js ''status='' @ e" for e]
  by (auto simp: listJobs_def bind_result_Inr_iff no_query set_js js_Cons split: if_splits)

lemma query_of_snapshots: "listSnapshots h = Inr a \<Longrightarrow> fst (path_query (call_path a)) = js ''/v1/snapshots'' \<and> init_method (call_init a) = None"
  using with_query [of "js ''/v1/snapshots''" "js ''host='' @ e" for e]
  by (auto simp: listSnapshots_def bind_result_Inr_iff set_js js_Cons)

lemma query_of_events: "fst (path_query (call_path (listEvents f))) = js ''/v1/events'' \<and> init_method (call_init (listEvents f)) = None"
  by (simp add: listEvents_def Let_def no_query with_query set_js)

lemma mux_literal:
  "mux (js ''GET'') (map Some [[], js ''v1'', js ''hosts'']) = Some EpHosts"
  "mux (js ''GET'') (map Some [[], js ''v1'', js ''jobs'']) = Some EpJobs"
  "mux (js ''GET'') (map Some [[], js ''v1'', js ''snapshots'']) = Some EpSnapshots"
  "mux (js ''GET'') (map Some [[], js ''v1'', js ''events'']) = Some EpEvents"
  "mux (js ''POST'') (map Some [[], js ''v1'', js ''backups'']) = Some EpBackups"
  "i \<noteq> [] \<Longrightarrow> mux (js ''GET'') (map Some [[], js ''v1'', js ''jobs'', i]) = Some (EpJob i)"
  "h \<noteq> [] \<Longrightarrow> p \<noteq> [] \<Longrightarrow> mux (js ''GET'') (map Some [[], js ''v1'', js ''hosts'', h, js ''plugins'', p, js ''config''])
     = Some (EpGetConfig h p)"
  "h \<noteq> [] \<Longrightarrow> p \<noteq> [] \<Longrightarrow> mux (js ''PUT'') (map Some [[], js ''v1'', js ''hosts'', h, js ''plugins'', p, js ''config''])
     = Some (EpSetConfig h p)"
  by (simp_all add: mux_def Let_def)

lemma served_reads:
  "send c listHosts = Inr r \<Longrightarrow> served r = Some EpHosts"
  "listJobs status = Inr a \<Longrightarrow> send c a = Inr r \<Longrightarrow> served r = Some EpJobs"
  "listSnapshots h = Inr a \<Longrightarrow> send c a = Inr r \<Longrightarrow> served r = Some EpSnapshots"
  "send c (listEvents f) = Inr r \<Longrightarrow> served r = Some EpEvents"
  "send c (triggerBackup t) = Inr r \<Longrightarrow> served r = Some EpBackups"
proof -
  show "send c listHosts = Inr r \<Longrightarrow> served r = Some EpHosts"
    by (drule served_eq [OF _ _ route_literal(1)]) (simp_all add: listHosts_def no_query set_js mux_literal [simplified])
  show "listJobs status = Inr a \<Longrightarrow> send c a = Inr r \<Longrightarrow> served r = Some EpJobs"
    using query_of_jobs [of status a] served_eq [of c a r, OF _ _ route_literal(2)] mux_literal(2) by simp
  show "listSnapshots h = Inr a \<Longrightarrow> send c a = Inr r \<Longrightarrow> served r = Some EpSnapshots"
    using query_of_snapshots [of h a] served_eq [of c a r, OF _ _ route_literal(3)] mux_literal(3) by simp
  show "send c (listEvents f) = Inr r \<Longrightarrow> served r = Some EpEvents"
    using query_of_events [of f] served_eq [of c "listEvents f" r, OF _ _ route_literal(4)] mux_literal(4) by simp
  show "send c (triggerBackup t) = Inr r \<Longrightarrow> served r = Some EpBackups"
    by (drule served_eq [OF _ _ route_literal(5)]) (simp_all add: triggerBackup_def no_query set_js mux_literal [simplified])
qed

text \<open>A name that is empty or a dot name leads nowhere: its path matches no pattern of the API.\<close>

lemma mux_config:
  assumes "meth = js ''GET'' \<or> meth = js ''PUT''"
  shows "mux meth (map Some (without_dots h p)) =
    (if h = [] \<or> p = [] \<or> dot_name h \<or> dot_name p then None
     else Some (if meth = js ''GET'' then EpGetConfig h p else EpSetConfig h p))"
  using assms by (auto simp: mux_def without_dots_def dot_name_def Let_def)

lemma served_config:
  "getPluginConfig h p = Inr a \<Longrightarrow> send c a = Inr r
    \<Longrightarrow> served r = (if h = [] \<or> p = [] \<or> dot_name h \<or> dot_name p then None else Some (EpGetConfig h p))"
  "setPluginConfig h p cfg = Inr b \<Longrightarrow> send c b = Inr r
    \<Longrightarrow> served r = (if h = [] \<or> p = [] \<or> dot_name h \<or> dot_name p then None else Some (EpSetConfig h p))"
proof -
  have path: "route (fst (path_query path)) = map Some (without_dots h p)" if "config_path h p = Inr path" for path
    using config_path_route [OF that] no_query [OF config_path_plain(1) [OF that]] by simp
  show "served r = (if h = [] \<or> p = [] \<or> dot_name h \<or> dot_name p then None else Some (EpGetConfig h p))"
    if "getPluginConfig h p = Inr a" "send c a = Inr r"
    using that(1) path served_eq [OF that(2) refl] mux_config [of "js ''GET''" h p]
    by (auto simp: getPluginConfig_def bind_result_Inr_iff)
  show "served r = (if h = [] \<or> p = [] \<or> dot_name h \<or> dot_name p then None else Some (EpSetConfig h p))"
    if "setPluginConfig h p cfg = Inr b" "send c b = Inr r"
    using that(1) path served_eq [OF that(2) refl] mux_config [of "js ''PUT''" h p]
    by (auto simp: setPluginConfig_def bind_result_Inr_iff)
qed

lemma served_job:
  assumes "getJob i = Inr a" "send c a = Inr r"
  shows "served r = (if i = [] \<or> dot_name i then None else Some (EpJob i))"
proof -
  obtain e where e: "encoded i = Inr e" and a: "a = read_call (js ''/v1/jobs/'' @ e)"
    using assms(1) by (auto simp: getJob_def bind_result_Inr_iff)
  have "ch CHR ''?'' \<notin> set (call_path a)"
    using encoded_no_separator(2) [OF e] by (simp add: a set_js)
  then have "served r = mux (js ''GET'') (Some [] # resolve_dots [] (map Some [js ''v1'', js ''jobs'', i]))"
    using served_eq [OF assms(2) refl] route_getJob_resolved [OF assms(1)] by (simp add: no_query a)
  also have "\<dots> = (if i = [] \<or> dot_name i then None else Some (EpJob i))"
    by (auto simp: mux_def dot_name_def Let_def)
  finally show ?thesis .
qed

lemma served_job_id:
  "getJob i = Inr a \<Longrightarrow> send c a = Inr r \<Longrightarrow> i \<noteq> [] \<Longrightarrow> \<not> dot_name i \<Longrightarrow> served r = Some (EpJob i)"
  by (simp add: served_job)

lemma Enqueue_queue: "set (ct_queue (Enqueue j st)) \<subseteq> insert j (set (ct_queue st))"
  by (auto simp: Enqueue_def)

lemma NewJob_simps [simp]:
  "job_host (NewJob rq h p pol) = h" "job_plugin (NewJob rq h p pol) = p"
  "job_state (NewJob rq h p pol) = Queued" "job_id (NewJob rq h p pol) \<noteq> []"
  by (simp_all add: NewJob_def js_Cons)

text \<open>The column \<open>config_json\<close> as a codec, one for each plugin with a form.\<close>

definition stored_config :: "plugin_config \<Rightarrow> json" where
  "stored_config c = marshal (GMap (toRawConfig (dto_of c)))"

definition read_stored :: "jsstr \<Rightarrow> json \<Rightarrow> plugin_config option" where
  "read_stored plugin j = Option.bind (pluginConfigDTOs plugin) (\<lambda>zero.
     Option.bind (unmarshal_map j) (\<lambda>raw. console_config (fromRawConfig raw zero)))"

interpretation settings_column: codec stored_config "read_stored plugin"
  "\<lambda>c. small_port c \<and> plugin_name c = plugin" for plugin
proof
  fix c assume c: "small_port c \<and> plugin_name c = plugin"
  obtain zero where "pluginConfigDTOs plugin = Some zero" using dto_zero [of c] c by auto
  with stored_back [of c zero] c show "read_stored plugin (stored_config c) = Some c"
    by (auto simp: read_stored_def stored_config_def simp del: toRawConfig.simps)
qed

section \<open>Properties\<close>

text \<open>
  C32. Where every call of the console arrives: the path it builds, after the browser and the
  multiplexer have read it. The calls without a name in their path arrive at their endpoint, whatever
  they ask for. A job, host or plugin that is not empty and not \<open>.\<close> or \<open>..\<close> arrives at its endpoint as
  the very name; with a name that is one of these, no pattern of the API matches, so the call meets
  none of its handlers, neither that of its own endpoint nor another.
\<close>

theorem calls_reach_endpoints:
  assumes "send c a = Inr r"
  shows "(a = listHosts \<longrightarrow> served r = Some EpHosts)
    \<and> (listJobs status = Inr a \<longrightarrow> served r = Some EpJobs)
    \<and> (listSnapshots h = Inr a \<longrightarrow> served r = Some EpSnapshots)
    \<and> (a = listEvents f \<longrightarrow> served r = Some EpEvents)
    \<and> (a = triggerBackup t \<longrightarrow> served r = Some EpBackups)
    \<and> (getJob i = Inr a \<longrightarrow> served r = (if i \<in> {[], js ''.'', js ''..''} then None else Some (EpJob i)))
    \<and> (getPluginConfig h p = Inr a \<longrightarrow> served r =
        (if h \<in> {[], js ''.'', js ''..''} \<or> p \<in> {[], js ''.'', js ''..''} then None else Some (EpGetConfig h p)))
    \<and> (setPluginConfig h p cfg = Inr a \<longrightarrow> served r =
        (if h \<in> {[], js ''.'', js ''..''} \<or> p \<in> {[], js ''.'', js ''..''} then None else Some (EpSetConfig h p)))"
proof -
  have name: "n \<in> {[], js ''.'', js ''..''} \<longleftrightarrow> n = [] \<or> dot_name n" for n by (auto simp: dot_name_def)
  show ?thesis
    unfolding name using assms
    by (intro conjI impI) (auto intro: served_reads simp: served_job served_config)
qed

theorem calls_reach_endpoints_witness:
  "\<exists>a r. setPluginConfig (js ''db/1'') (js ''postgres'') (Postgres \<lparr>pg_username = js ''u'', pg_passwordEnv = js ''P'',
       pg_databases = [js ''d''], pg_container = []\<rparr>) = Inr a
     \<and> send (setToken (js ''abc'') (module_load (\<lambda>_. None))) a = Inr r
     \<and> served r = Some (EpSetConfig (js ''db/1'') (js ''postgres''))"
proof -
  let ?c = "setToken (js ''abc'') (module_load (\<lambda>_. None))"
  let ?cfg = "Postgres \<lparr>pg_username = js ''u'', pg_passwordEnv = js ''P'', pg_databases = [js ''d''], pg_container = []\<rparr>"
  obtain eh ep where "encoded (js ''db/1'') = Inr eh" "encoded (js ''postgres'') = Inr ep"
    using encoded_well_formed well_formed_js by blast
  then obtain a where a: "setPluginConfig (js ''db/1'') (js ''postgres'') ?cfg = Inr a"
    and ini: "init_headers (call_init a) = []"
    by (auto simp: setPluginConfig_def config_path_def)
  have "header_token (js ''abc'')" by (simp add: header_token_def js_Cons unat_ch http_space_def)
  then obtain r where r: "send ?c a = Inr r" using send_leaves [of ?c "js ''abc''" a] ini by auto
  from calls_reach_endpoints [OF r, of _ "js ''db/1''" _ _ _ "js ''postgres''" ?cfg] a r
  show ?thesis by auto
qed

text \<open>
  What a token may do. The token the console holds is let through to an endpoint exactly when
  the operator listed it: a write token everywhere, a read token at every endpoint that does not
  write; and no request without a token gets anywhere. (The comparison is of hashes; that no listed
  token collides with the one presented is an assumption.)
\<close>

theorem token_scopes:
  assumes "send c a = Inr req" "init_headers (call_init a) = []"
    and "\<forall>t. token c = Some t \<longrightarrow> header_token t \<and> no_collision sha (read_tokens ts @ write_tokens ts) (wire_bytes t)"
  shows "authMiddleware sha (endpoint_hashes sha ts e) req = None \<longleftrightarrow>
    (\<exists>t. token c = Some t \<and> (wire_bytes t \<in> set (write_tokens ts)
        \<or> \<not> needs_write e \<and> wire_bytes t \<in> set (read_tokens ts)))"
proof (cases "token c")
  case None
  then have "headers_get (js ''Authorization'') (http_headers req) = None"
    using send_authorization [OF assms(1,2)] by simp
  from authMiddleware_absent [OF this] None show ?thesis by (metis option.distinct(1))
next
  case (Some t)
  with assms(3) have t: "header_token t" "no_collision sha (read_tokens ts @ write_tokens ts) (wire_bytes t)"
    by simp_all
  then have ne: "t \<noteq> []" by (simp add: header_token_def)
  with Some have "headers_get (js ''Authorization'') (http_headers req) = Some (js ''Bearer '' @ t)"
    using send_authorization [OF assms(1,2)] header_value_bearer [OF t(1)] by simp
  note auth = authMiddleware_bearer [OF this ne]
  have w: "no_collision sha (write_tokens ts) (wire_bytes t)" using t(2) by (simp add: no_collision_def)
  show ?thesis
    using Some known_hash [OF t(2)] known_hash [OF w]
    by (auto simp: auth endpoint_hashes_def readHashes_def writeHashes_def)
qed

theorem token_scopes_witness:
  "\<exists>req. send (setToken (js ''abc'') (module_load (\<lambda>_. None))) listHosts = Inr req
     \<and> (authMiddleware id (endpoint_hashes id \<lparr>read_tokens = [wire_bytes (js ''abc'')], write_tokens = []\<rparr> EpHosts) req
         :: unit api_answer option) = None
     \<and> (authMiddleware id (endpoint_hashes id \<lparr>read_tokens = [wire_bytes (js ''abc'')], write_tokens = []\<rparr> EpBackups) req
         :: unit api_answer option) \<noteq> None"
proof -
  let ?c = "setToken (js ''abc'') (module_load (\<lambda>_. None))"
  let ?ts = "\<lparr>read_tokens = [wire_bytes (js ''abc'')], write_tokens = []\<rparr>"
  have t: "header_token (js ''abc'')" by (simp add: header_token_def js_Cons unat_ch http_space_def)
  have ini: "init_headers (call_init listHosts) = []" by (simp add: listHosts_def)
  obtain req where req: "send ?c listHosts = Inr req" using send_leaves [of ?c "js ''abc''" listHosts] t ini by auto
  have ok: "\<forall>s. token ?c = Some s \<longrightarrow> header_token s
      \<and> no_collision id (read_tokens ?ts @ write_tokens ?ts) (wire_bytes s)"
    using t by (auto simp: no_collision_def)
  show ?thesis
    using req token_scopes [OF req ini ok, of EpHosts] token_scopes [OF req ini ok, of EpBackups]
    by (auto simp: needs_write_def)
qed

text \<open>
  A configuration sent by the console is stored exactly when what the controller reads of it is
  acceptable (and the database works): then the answer is that configuration, a later load is
  answered with it too, and no other host or plugin is touched. Otherwise the answer is an error and
  nothing changes.
\<close>

theorem saved_config_loads_back:
  assumes "small_port c"
    and "setPluginConfigHandler q env failing h (plugin_name c) (Some (config_json c)) store = (a, store')"
  shows "if acceptable env (go_config c) \<and> failing = None
    then ans_status a = 200 \<and> Option.bind (ans_value a) console_config = Some (go_config c)
      \<and> ans_status (getPluginConfigHandler me None store' h (plugin_name c)) = 200
      \<and> Option.bind (ans_value (getPluginConfigHandler me None store' h (plugin_name c))) console_config = Some (go_config c)
      \<and> (\<forall>k. k \<noteq> (h, plugin_name c) \<longrightarrow> store' k = store k)
    else ans_status a \<in> {400, 500} \<and> ans_error a \<noteq> None \<and> store' = store"
proof (cases "acceptable env (go_config c) \<and> failing = None")
  case True
  then have "validate q env (dto_of (go_config c)) = None" by (simp add: validate_iff)
  with True have a: "a = writeJSON 200 (dto_of (go_config c))"
    and s: "store' = store((h, plugin_name c) \<mapsto> marshal (GMap (toRawConfig (dto_of (go_config c)))))"
    using assms(2) unfolding setPluginConfigHandler_sent [OF assms(1)] by auto
  have "getPluginConfigHandler me None store' h (plugin_name (go_config c)) = writeJSON 200 (dto_of (go_config c))"
    by (rule getPluginConfigHandler_stored) (simp_all add: s assms(1))
  with True show ?thesis by (simp add: a s writeJSON_def)
next
  case False
  then show ?thesis
    using assms(2) validate_iff [of q env "go_config c"] unfolding setPluginConfigHandler_sent [OF assms(1)]
    by (auto simp: writeError_def split: option.splits)
qed

theorem saved_config_loads_back_witness:
  "let c = Informix \<lparr>ifx_host = js ''h'', ifx_port = 9088, ifx_username = js ''u'', ifx_passwordEnv = js ''P'',
       ifx_serverName = js ''s'', ifx_database = js ''d'', ifx_tables = [js ''own.customers''], ifx_agentPath = js ''/a''\<rparr>
   in acceptable (\<lambda>_. js ''secret'') c
     \<and> Option.bind (ans_value (getPluginConfigHandler (\<lambda>_. []) None
         (snd (setPluginConfigHandler id (\<lambda>_. js ''secret'') None (js ''h'') (plugin_name c) (Some (config_json c)) (\<lambda>_. None)))
         (js ''h'') (plugin_name c))) console_config = Some c"
proof -
  let ?c = "Informix \<lparr>ifx_host = js ''h'', ifx_port = 9088, ifx_username = js ''u'', ifx_passwordEnv = js ''P'',
       ifx_serverName = js ''s'', ifx_database = js ''d'', ifx_tables = [js ''own.customers''], ifx_agentPath = js ''/a''\<rparr>"
  have "valid_table (js ''own.customers'')"
    by (simp add: valid_table_def js_Cons plain_ident_def ident_start_def ident_part_def unat_ch)
  then have ok: "acceptable (\<lambda>_. js ''secret'') ?c" by simp
  have "small_port ?c" "go_config ?c = ?c" by simp_all
  from saved_config_loads_back [OF \<open>small_port ?c\<close> surjective_pairing, unfolded \<open>go_config ?c = ?c\<close>] ok show ?thesis
    by (simp only: Let_def if_True simp_thms)
qed

text \<open>
  A backup the console asks for is queued as one new job of that host and plugin, answered and
  announced with its id; it is refused, with a message and without any change, when the host is not
  in the inventory or nothing configures the plugin for it, and whenever the answer is an error.
\<close>

theorem trigger_creates_one_job:
  assumes "req_host r \<noteq> []" "req_plugin r \<noteq> []"
    and "triggerBackupHandler rq servers factories (Some (trigger_json r)) st = (a, st')"
  shows "(case ans_value a of
      Some j \<Rightarrow> ans_status a = 202 \<and> ct_jobs st' = ct_jobs st @ [j]
        \<and> job_host j = go_text (req_host r) \<and> job_plugin j = go_text (req_plugin r) \<and> job_state j = Queued \<and> job_id j \<noteq> []
        \<and> (\<exists>e. ct_events st' = ct_events st @ [e] \<and> event_kind e = BackupRequested \<and> event_jobId e = job_id j)
        \<and> set (ct_queue st') \<subseteq> insert j (set (ct_queue st)) \<and> ct_settings st' = ct_settings st
    | None \<Rightarrow> ans_status a \<in> {404, 500} \<and> ans_error a \<noteq> None \<and> st' = st)
    \<and> (ans_value a \<noteq> None \<longrightarrow> (\<exists>srv. servers (go_text (req_host r)) = Some srv
        \<and> (ct_settings st (go_text (req_host r), go_text (req_plugin r)) \<noteq> None \<or> go_text (req_plugin r) \<in> fst ` set (inv_plugins srv))))"
proof (cases "BuildPlugin rq servers factories (ct_settings st) (go_text (req_host r)) (go_text (req_plugin r))")
  case (Some e)
  then have "a = writeError 404 e" "st' = st"
    using assms by (simp_all add: triggerBackupHandler_def decode_trigger)
  then show ?thesis by (simp add: writeError_def)
next
  case None
  from BuildPlugin_known [OF this] obtain srv where srv: "servers (go_text (req_host r)) = Some srv"
    "ct_settings st (go_text (req_host r), go_text (req_plugin r)) \<noteq> None \<or> go_text (req_plugin r) \<in> fst ` set (inv_plugins srv)" by blast
  from assms(3) show ?thesis
    unfolding triggerBackupHandler_sent [of r servers srv, OF assms(1,2) srv(1)] None
    using srv Enqueue_queue
    by (fastforce simp: Let_def writeError_def writeJSON_def split: option.splits)
qed

definition sample_servers :: inventory where
  "sample_servers = [js ''db1'' \<mapsto> \<lparr>inv_plugins = [(js ''postgres'', Some [])],
     inv_retention = \<lparr>policy_daily = 7, policy_weekly = 0, policy_monthly = 0, policy_yearly = 0\<rparr>,
     inv_storage = [], inv_verification = None\<rparr>]"

definition sample_request :: request_env where
  "sample_request = \<lparr>rq_quote = id, rq_read_error = None, rq_create_error = None, rq_map_error = (\<lambda>_. []),
     rq_nanos = 1, rq_now = []\<rparr>"

theorem trigger_creates_one_job_witness:
  "let st = \<lparr>ct_settings = (\<lambda>_. None), ct_jobs = [], ct_events = [], ct_queue = [], ct_capacity = 1\<rparr>;
       (a, st') = triggerBackupHandler sample_request sample_servers (\<lambda>_. Some (\<lambda>_ _. None))
         (Some (trigger_json \<lparr>req_host = js ''db1'', req_plugin = js ''postgres''\<rparr>)) st
   in ans_status a = 202 \<and> length (ct_jobs st') = 1"
proof -
  let ?r = "\<lparr>req_host = js ''db1'', req_plugin = js ''postgres''\<rparr>"
  let ?st = "\<lparr>ct_settings = (\<lambda>_. None), ct_jobs = [], ct_events = [], ct_queue = [], ct_capacity = 1\<rparr>"
  obtain a st' where h: "triggerBackupHandler sample_request sample_servers (\<lambda>_. Some (\<lambda>_ _. None))
      (Some (trigger_json ?r)) ?st = (a, st')" by fastforce
  have ne: "req_host ?r \<noteq> []" "req_plugin ?r \<noteq> []" by (simp_all add: js_Cons)
  have srv: "sample_servers (req_host ?r) \<noteq> None" by (simp add: sample_servers_def)
  have "BuildPlugin sample_request sample_servers (\<lambda>_. Some (\<lambda>_ _. None)) (\<lambda>_. None) (js ''db1'') (js ''postgres'') = None"
    by (simp add: BuildPlugin_def resolvePluginConfig_def sample_servers_def sample_request_def)
  then have "ans_value a \<noteq> None"
    using h srv triggerBackupHandler_sent [of ?r sample_servers, OF ne]
    by (auto simp: sample_request_def Let_def writeJSON_def)
  then show ?thesis unfolding h Let_def
    using trigger_creates_one_job [OF ne h] by auto
qed

end
