(* ===== verification/Settings.thy ===== *)
theory Settings
  imports Server
begin

text \<open>
  The settings table as a typed store: whatever configurations are put, with whatever bodies, what is
  stored for a host and a plugin is an object the console can show and the plugin accepts. Rows are
  typed by their plugin (\<open>usable\<close>); the handler keeps every row typed, and typed rows are safe to
  read, for \<open>getPluginConfigHandler\<close> and for \<open>resolvePluginConfig\<close> before a run.
\<close>

section \<open>Putting configurations\<close>

text \<open>A request as the handler sees it, with the error of the database if it fails.\<close>

record put_request =
  put_host :: jsstr
  put_plugin :: jsstr
  put_body :: "json option"
  put_failing :: "jsstr option"

inductive settings_step :: "(jsstr \<Rightarrow> jsstr) \<Rightarrow> (jsstr \<Rightarrow> jsstr) \<Rightarrow> settings \<Rightarrow> put_request \<Rightarrow> settings \<Rightarrow> bool"
  for q env where
  put: "setPluginConfigHandler q env (put_failing r) (put_host r) (put_plugin r) (put_body r) st = (a, st')
    \<Longrightarrow> settings_step q env st r st'"

text \<open>\<open>ParseConfig\<close> of a plugin, as its factory calls it.\<close>

definition accepted_config :: "(jsstr \<Rightarrow> jsstr) \<Rightarrow> (jsstr \<Rightarrow> jsstr) \<Rightarrow> jsstr \<Rightarrow> gomap option \<Rightarrow> bool" where
  "accepted_config q env plugin cfg =
     (if plugin = js ''informix'' then error_of (ParseInformix q env cfg) = None
      else if plugin = js ''postgres'' then error_of (ParsePostgres q env cfg) = None
      else if plugin = js ''filesystem'' then error_of (ParseFilesystem q cfg) = None
      else False)"

definition usable :: "(jsstr \<Rightarrow> jsstr) \<Rightarrow> (jsstr \<Rightarrow> jsstr) \<Rightarrow> jsstr \<Rightarrow> json \<Rightarrow> bool" where
  "usable q env plugin j = (case (pluginConfigDTOs plugin, unmarshal_map j) of
     (Some zero, Some raw) \<Rightarrow> accepted_config q env plugin (Some raw)
       \<and> (case console_config (fromRawConfig raw zero) of None \<Rightarrow> False | Some c \<Rightarrow> plugin_name c = plugin)
   | _ \<Rightarrow> False)"

definition settings_typed :: "(jsstr \<Rightarrow> jsstr) \<Rightarrow> (jsstr \<Rightarrow> jsstr) \<Rightarrow> settings \<Rightarrow> bool" where
  "settings_typed q env st \<longleftrightarrow> (\<forall>h p j. st (h, p) = Some j \<longrightarrow> usable q env p j)"

section \<open>A port survives\<close>

text \<open>A whole number that is not zero is not zero as a \<open>float64\<close> either, however large.\<close>

lemma excess_bits_le: "0 < m \<Longrightarrow> 2 ^ excess_bits m \<le> m"
proof (induction m rule: excess_bits.induct)
  case (1 n)
  show ?case
  proof (cases "n < 9007199254740992")
    case False
    then have "2 ^ excess_bits (n div 2) \<le> n div 2" using 1 by simp
    with False show ?thesis by (subst excess_bits.simps) simp
  qed (use 1 in \<open>simp add: excess_small\<close>)
qed

lemma half_even_pos: "0 < d \<Longrightarrow> d \<le> n \<Longrightarrow> 0 < half_even n d"
  using pos_imp_zdiv_pos_iff [of d n] by (auto simp: half_even_def Let_def)

lemma float64_zero_iff: "float64 n = 0 \<longleftrightarrow> n = 0"
proof (cases "n = 0")
  case False
  let ?e = "excess_bits (nat (abs n))"
  have "(2::nat) ^ ?e \<le> nat (abs n)" using False by (intro excess_bits_le) simp
  then have "int (2 ^ ?e) \<le> int (nat (abs n))" by (simp only: of_nat_le_iff)
  then have "(2::int) ^ ?e \<le> abs n" by simp
  then have "0 < half_even (abs n) (2 ^ ?e)" by (intro half_even_pos) simp_all
  with False show ?thesis by (simp add: float64_def Let_def sgn_0_0)
qed (simp add: float64_def)

lemma stored_port_zero_iff [simp]: "int_of_float (float64 n) = 0 \<longleftrightarrow> n = 0"
  using float64_zero_iff [of n] by (auto simp: int_of_float_def)

section \<open>What is stored\<close>

text \<open>The raw map of a DTO, read back: as it was, but for the port.\<close>

lemma decode_same_plugin:
  assumes "pluginConfigDTOs plugin = Some zero" "decode body zero = Some d"
  obtains (informix) x where "plugin = js ''informix''" "d = InformixDTO x"
  | (postgres) x where "plugin = js ''postgres''" "d = PostgresDTO x"
  | (filesystem) x where "plugin = js ''filesystem''" "d = FilesystemDTO x"
  using assms by (auto simp: pluginConfigDTOs_def split: if_splits)

lemma stored_usable:
  assumes "pluginConfigDTOs plugin = Some zero" "decode body zero = Some d" "validate q env d = None"
  shows "usable q env plugin (marshal (GMap (toRawConfig d)))"
  using assms(1,2)
proof (cases rule: decode_same_plugin)
  case (informix x)
  then show ?thesis using assms(3)
    by (auto simp: usable_def unmarshal_map_def pluginConfigDTOs_def accepted_config_def error_of_def ParseInformix_def
        Let_def toInt_def split: option.splits sum.splits if_splits)
next
  case (postgres x)
  then show ?thesis using assms(3)
    by (auto simp: usable_def unmarshal_map_def pluginConfigDTOs_def accepted_config_def error_of_def ParsePostgres_def
        Let_def split: option.splits sum.splits if_splits)
next
  case (filesystem x)
  then show ?thesis using assms(3)
    by (auto simp: usable_def unmarshal_map_def pluginConfigDTOs_def accepted_config_def error_of_def ParseFilesystem_def
        split: option.splits sum.splits if_splits)
qed

lemma settings_typed_step:
  assumes "settings_step q env st r st'" "settings_typed q env st"
  shows "settings_typed q env st'"
  using assms
proof (induction rule: settings_step.induct)
  case (put r st a st')
  show ?case
  proof (cases "st' = st")
    case False
    then obtain zero body d where "pluginConfigDTOs (put_plugin r) = Some zero" "decode body zero = Some d"
      "validate q env d = None" "st' = st((put_host r, put_plugin r) \<mapsto> marshal (GMap (toRawConfig d)))"
      using put.hyps unfolding setPluginConfigHandler_def
      by (auto split: option.splits bind_split_asm simp del: marshal.simps)
    with stored_usable [OF this(1-3)] put.prems show ?thesis by (simp add: settings_typed_def)
  qed (use put.prems in simp)
qed

interpretation settings: transition_system "settings_step q env" "settings_typed q env" "\<lambda>st. st = (\<lambda>_. None)" for q env
  by unfold_locales (auto intro: settings_typed_step, simp add: settings_typed_def)

section \<open>Properties\<close>

text \<open>
  C25. Stored settings are well typed. Whatever was put before, for whatever hosts and plugins, well
  formed or not: a configuration that is stored is answered to the console as an object of that
  plugin's type, and the run that reads it gets a map its plugin accepts. So no stored row makes a
  form fail to load or a job fail to be configured.
\<close>

theorem stored_settings_usable:
  assumes "run (settings_step q env) (\<lambda>_. None) rs st" "st (h, p) = Some j"
  shows "\<exists>d c raw. getPluginConfigHandler me None st h p = writeJSON 200 d \<and> console_config d = Some c \<and> plugin_name c = p
    \<and> accepted_config q env p (Some raw) \<and> (rq_read_error rq = None \<longrightarrow> resolvePluginConfig rq st h p srv = Inr (Some raw))"
proof -
  have "usable q env p j"
    using settings.run_inv [OF refl assms(1)] assms(2) by (simp add: settings_typed_def)
  then obtain zero raw c where u: "pluginConfigDTOs p = Some zero" "unmarshal_map j = Some raw"
    "accepted_config q env p (Some raw)" "console_config (fromRawConfig raw zero) = Some c" "plugin_name c = p"
    by (auto simp: usable_def split: option.splits)
  then show ?thesis
    using assms(2) by (intro exI [of _ "fromRawConfig raw zero"] exI [of _ c] exI [of _ raw])
      (simp add: getPluginConfigHandler_def resolvePluginConfig_def)
qed

text \<open>A body with a list left out and a key in capitals is stored; one with a number for a name is not.\<close>

definition sample_puts :: "put_request list" where
  "sample_puts = [\<lparr>put_host = js ''h'', put_plugin = js ''filesystem'',
       put_body = Some (JObj [(js ''PATHS'', JArr [JStr (js ''/etc'')])]), put_failing = None\<rparr>,
     \<lparr>put_host = js ''h'', put_plugin = js ''postgres'',
       put_body = Some (JObj [(js ''username'', JNum 7)]), put_failing = None\<rparr>]"

definition sample_settings :: settings where
  "sample_settings = (\<lambda>_. None)((js ''h'', js ''filesystem'') \<mapsto>
     JObj [(js ''paths'', JArr [JStr (js ''/etc'')]), (js ''excludes'', JArr [])])"

lemma names_in_capitals: "names (js ''PATHS'') ''paths''"
  by (simp add: names_eval) (simp add: ch_def)

lemma sample_puts_run: "run (settings_step id (\<lambda>_. [])) (\<lambda>_. None) sample_puts sample_settings"
proof -
  have slash: "absolute (js ''/etc'')" by (simp add: absolute_def js_Cons)
  have "setPluginConfigHandler id (\<lambda>_. []) None (js ''h'') (js ''filesystem'')
      (Some (JObj [(js ''PATHS'', JArr [JStr (js ''/etc'')])])) (\<lambda>_. None)
    = (writeJSON 200 (FilesystemDTO \<lparr>fd_paths = Some [js ''/etc''], fd_excludes = None\<rparr>), sample_settings)"
    by (simp add: setPluginConfigHandler_def pluginConfigDTOs_def unmarshal_into_def filesystem_field_def names_in_capitals
        ParseFilesystem_def toStringSlice_def raw_strings_def slice_def slash error_of_def sample_settings_def)
  moreover have "setPluginConfigHandler id (\<lambda>_. []) None (js ''h'') (js ''postgres'')
      (Some (JObj [(js ''username'', JNum 7)])) sample_settings
    = (writeError 400 (js ''invalid JSON body''), sample_settings)"
    by (simp add: setPluginConfigHandler_def pluginConfigDTOs_def unmarshal_into_def postgres_field_def)
  ultimately show ?thesis
    unfolding sample_puts_def by (auto simp: run_Cons_iff intro!: exI [of _ sample_settings] put run_Nil)
qed

theorem stored_settings_usable_witness:
  "\<exists>d c. getPluginConfigHandler (\<lambda>_. []) None sample_settings (js ''h'') (js ''filesystem'') = writeJSON 200 d
     \<and> console_config d = Some c \<and> plugin_name c = js ''filesystem''"
proof -
  have "sample_settings (js ''h'', js ''filesystem'') = Some (JObj [(js ''paths'', JArr [JStr (js ''/etc'')]), (js ''excludes'', JArr [])])"
    by (simp add: sample_settings_def)
  from stored_settings_usable [OF sample_puts_run this, of "\<lambda>_. []"] show ?thesis by blast
qed

end
