(* ===== verification/Metadata.thy ===== *)
theory Metadata
  imports Server
begin

text \<open>
  The metadata store (\<open>internal/metadata\<close>, in Go) over its tables: one function for each method of
  \<open>Store\<close>, with the SQL statement it runs written out on the rows. Errors of the database and
  its order of a timestamp column are arguments. Rows with the same time come in the order they were
  inserted here; SQL leaves it open, and no statement below depends on it.
\<close>

section \<open>Tables\<close>

text \<open>A row of \<open>events\<close>: the event, its fields as JSON.\<close>

record stored_event =
  row_event :: bop_event
  row_fields :: json

record tables =
  tb_jobs :: "job list"
  tb_snapshots :: "snapshot list"
  tb_events :: "stored_event list"

text \<open>
  The database at one statement: its error, if it fails; the errors it and \<open>encoding/json\<close> give
  for a primary key that is taken and for a text that is no object of strings; and when a timestamp
  is.
\<close>

record db_env =
  db_error :: "jsstr option"
  db_unique :: "jsstr \<Rightarrow> jsstr"
  db_json :: "json \<Rightarrow> jsstr"
  db_time :: "jsstr \<Rightarrow> int"

datatype store_error = JobNotFound | StoreError jsstr

fun error_text_of :: "store_error \<Rightarrow> jsstr" where
  "error_text_of JobNotFound = js ''metadata: job not found''"
| "error_text_of (StoreError e) = e"

text \<open>\<open>ORDER BY col\<close>, \<open>ORDER BY col DESC\<close>.\<close>

definition order_by :: "(jsstr \<Rightarrow> int) \<Rightarrow> ('r \<Rightarrow> jsstr) \<Rightarrow> bool \<Rightarrow> 'r list \<Rightarrow> 'r list" where
  "order_by time col desc rows = sort_key (\<lambda>r. if desc then - time (col r) else time (col r)) rows"

section \<open>Jobs\<close>

definition CreateJob :: "db_env \<Rightarrow> job \<Rightarrow> tables \<Rightarrow> jsstr option \<times> tables" where
  "CreateJob db j tb =
     (let context = js ''metadata: create job '' @ job_id j @ js '': '' in
      case db_error db of
        Some e \<Rightarrow> (Some (context @ e), tb)
      | None \<Rightarrow> if job_id j \<in> job_id ` set (tb_jobs tb) then (Some (context @ db_unique db (job_id j)), tb)
          else (None, tb\<lparr>tb_jobs := tb_jobs tb @ [j]\<rparr>))"

definition UpdateJobStatus :: "db_env \<Rightarrow> jsstr \<Rightarrow> job_status \<Rightarrow> tables \<Rightarrow> store_error option \<times> tables" where
  "UpdateJobStatus db i st tb =
     (case db_error db of
        Some e \<Rightarrow> (Some (StoreError (js ''metadata: update job '' @ i @ js '': '' @ e)), tb)
      | None \<Rightarrow> if i \<notin> job_id ` set (tb_jobs tb) then (Some JobNotFound, tb)
          else (None, tb\<lparr>tb_jobs := map (\<lambda>j. if job_id j = i then j\<lparr>job_state := st\<rparr> else j) (tb_jobs tb)\<rparr>))"

definition GetJob :: "db_env \<Rightarrow> jsstr \<Rightarrow> tables \<Rightarrow> store_error + job" where
  "GetJob db i tb =
     (case db_error db of
        Some e \<Rightarrow> Inl (StoreError (js ''metadata: get job '' @ i @ js '': '' @ e))
      | None \<Rightarrow> (case List.find (\<lambda>j. job_id j = i) (tb_jobs tb) of None \<Rightarrow> Inl JobNotFound | Some j \<Rightarrow> Inr j))"

definition ListJobsByStatus :: "db_env \<Rightarrow> job_status \<Rightarrow> tables \<Rightarrow> jsstr + job list" where
  "ListJobsByStatus db st tb =
     (case db_error db of
        Some e \<Rightarrow> Inl (js ''metadata: list jobs by status '' @ job_status_str st @ js '': '' @ e)
      | None \<Rightarrow> Inr (order_by (db_time db) job_queuedAt False (filter (\<lambda>j. job_state j = st) (tb_jobs tb))))"

definition ListJobs :: "db_env \<Rightarrow> tables \<Rightarrow> jsstr + job list" where
  "ListJobs db tb =
     (case db_error db of
        Some e \<Rightarrow> Inl (js ''metadata: list jobs: '' @ e)
      | None \<Rightarrow> Inr (order_by (db_time db) job_queuedAt True (tb_jobs tb)))"

definition FailOrphanedJobs :: "db_env \<Rightarrow> tables \<Rightarrow> (jsstr + nat) \<times> tables" where
  "FailOrphanedJobs db tb =
     (case db_error db of
        Some e \<Rightarrow> (Inl (js ''metadata: fail orphaned jobs: '' @ e), tb)
      | None \<Rightarrow> (Inr (length (filter (\<lambda>j. job_state j = In_progress) (tb_jobs tb))),
          tb\<lparr>tb_jobs := map (\<lambda>j. if job_state j = In_progress then j\<lparr>job_state := Failed\<rparr> else j) (tb_jobs tb)\<rparr>))"

section \<open>Snapshots\<close>

definition RecordSnapshot :: "db_env \<Rightarrow> snapshot \<Rightarrow> tables \<Rightarrow> jsstr option \<times> tables" where
  "RecordSnapshot db s tb =
     (let context = js ''metadata: record snapshot '' @ snap_id s @ js '': '' in
      case db_error db of
        Some e \<Rightarrow> (Some (context @ e), tb)
      | None \<Rightarrow> if snap_id s \<in> snap_id ` set (tb_snapshots tb) then (Some (context @ db_unique db (snap_id s)), tb)
          else (None, tb\<lparr>tb_snapshots := tb_snapshots tb @ [s]\<rparr>))"

definition ListSnapshots :: "db_env \<Rightarrow> jsstr \<Rightarrow> tables \<Rightarrow> jsstr + snapshot list" where
  "ListSnapshots db h tb =
     (case db_error db of
        Some e \<Rightarrow> Inl (js ''metadata: list snapshots for '' @ h @ js '': '' @ e)
      | None \<Rightarrow> Inr (order_by (db_time db) snap_createdAt True (filter (\<lambda>s. snap_host s = h) (tb_snapshots tb))))"

section \<open>Events\<close>

text \<open>
  \<open>Fields\<close> as JSON and back into a \<open>map[string]string\<close>. The publishers give no fields as a
  \<open>nil\<close> map, which is \<open>null\<close>. A map is the list of its entries in the order of its keys,
  in which \<open>encoding/json\<close> writes it, and the publishers' fields are given in that order.
\<close>

definition fields_json :: "(jsstr \<times> jsstr) list \<Rightarrow> json" where
  "fields_json ps = (if ps = [] then JNull else JObj (map (\<lambda>(k, v). (k, JStr v)) ps))"

definition read_fields :: "json \<Rightarrow> (jsstr \<times> jsstr) list option" where
  "read_fields j = (case j of
     JNull \<Rightarrow> Some []
   | JObj ps \<Rightarrow> those (map (\<lambda>(k, v). map_option (Pair k) (into_string v [])) ps)
   | _ \<Rightarrow> None)"

definition RecordEvent :: "db_env \<Rightarrow> bop_event \<Rightarrow> tables \<Rightarrow> jsstr option \<times> tables" where
  "RecordEvent db e tb =
     (case db_error db of
        Some msg \<Rightarrow> (Some (js ''metadata: record event: '' @ msg), tb)
      | None \<Rightarrow> (None, tb\<lparr>tb_events := tb_events tb
          @ [\<lparr>row_event = e\<lparr>event_fields := []\<rparr>, row_fields = fields_json (event_fields e)\<rparr>]\<rparr>))"

record row_filter =
  rf_jobId :: jsstr
  rf_host :: jsstr
  rf_limit :: int

text \<open>\<open>rows.Scan\<close> and the fields; the first row that cannot be read is the error.\<close>

fun scan_events :: "db_env \<Rightarrow> stored_event list \<Rightarrow> jsstr + bop_event list" where
  "scan_events db [] = Inr []"
| "scan_events db (r # rs) =
     (case read_fields (row_fields r) of
        None \<Rightarrow> Inl (js ''metadata: unmarshal event fields: '' @ db_json db (row_fields r))
      | Some ps \<Rightarrow> (case scan_events db rs of
          Inl e \<Rightarrow> Inl e | Inr es \<Rightarrow> Inr ((row_event r)\<lparr>event_fields := ps\<rparr> # es)))"

definition row_matches :: "row_filter \<Rightarrow> bop_event \<Rightarrow> bool" where
  "row_matches f e \<longleftrightarrow> (rf_jobId f \<noteq> [] \<longrightarrow> event_jobId e = rf_jobId f) \<and> (rf_host f \<noteq> [] \<longrightarrow> event_host e = rf_host f)"

definition ListEventsPage :: "db_env \<Rightarrow> row_filter \<Rightarrow> tables \<Rightarrow> jsstr + bop_event list" where
  "ListEventsPage db f tb =
     (case db_error db of
        Some e \<Rightarrow> Inl (js ''metadata: list events: '' @ e)
      | None \<Rightarrow>
        (let rows = order_by (db_time db) (\<lambda>r. event_timestamp (row_event r)) True
               (filter (\<lambda>r. row_matches f (row_event r)) (tb_events tb))
         in scan_events db (if rf_limit f > 0 then take (nat (rf_limit f)) rows else rows)))"

definition ListEvents :: "db_env \<Rightarrow> tables \<Rightarrow> jsstr + bop_event list" where
  "ListEvents db tb = ListEventsPage db \<lparr>rf_jobId = [], rf_host = [], rf_limit = 0\<rparr> tb"

definition PruneEventsOlderThan :: "db_env \<Rightarrow> int \<Rightarrow> tables \<Rightarrow> (jsstr + nat) \<times> tables" where
  "PruneEventsOlderThan db cutoff tb =
     (case db_error db of
        Some e \<Rightarrow> (Inl (js ''metadata: prune events: '' @ e), tb)
      | None \<Rightarrow>
        (let old = (\<lambda>r. db_time db (event_timestamp (row_event r)) < cutoff)
         in (Inr (length (filter old (tb_events tb))), tb\<lparr>tb_events := filter (\<lambda>r. \<not> old r) (tb_events tb)\<rparr>)))"

text \<open>\<open>EventPublisher.Publish\<close>: an event that cannot be stored is only logged.\<close>

definition Publish :: "db_env \<Rightarrow> bop_event \<Rightarrow> tables \<Rightarrow> tables" where
  "Publish db e tb = snd (RecordEvent db e tb)"

section \<open>Rows in order\<close>

lemma mset_order_by [simp]: "mset (order_by time col desc rows) = mset rows"
  by (simp add: order_by_def)

lemma set_order_by [simp]: "set (order_by time col desc rows) = set rows"
  by (simp add: order_by_def)

lemma length_order_by [simp]: "length (order_by time col desc rows) = length rows"
  by (simp add: order_by_def)

lemma newest_first_order_by: "sorted_wrt (\<lambda>a b. time (col b) \<le> time (col a)) (order_by time col True rows)"
  using sorted_sort_key [of "\<lambda>r. - time (col r)" rows] by (simp add: order_by_def sorted_map)

lemma oldest_first_order_by: "sorted_wrt (\<lambda>a b. time (col a) \<le> time (col b)) (order_by time col False rows)"
  using sorted_sort_key [of "\<lambda>r. time (col r)" rows] by (simp add: order_by_def sorted_map)

lemma map_insort_key: "map f (insort_key (\<lambda>x. k (f x)) a xs) = insort_key k (f a) (map f xs)"
  by (induction xs) simp_all

lemma map_sort_key: "map f (sort_key (\<lambda>x. k (f x)) xs) = sort_key k (map f xs)"
  by (induction xs) (simp_all add: map_insort_key)

lemma map_order_by: "map f (order_by time (\<lambda>x. col (f x)) desc xs) = order_by time col desc (map f xs)"
  unfolding order_by_def
  using map_sort_key [of f "\<lambda>r. if desc then - time (col r) else time (col r)"] by simp

text \<open>A page of rows: so many of them, and none left out is newer than one that is shown.\<close>

definition newest_page :: "('r \<Rightarrow> int) \<Rightarrow> nat \<Rightarrow> 'r list \<Rightarrow> 'r list \<Rightarrow> bool" where
  "newest_page when n rows page \<longleftrightarrow> length page = min n (length rows) \<and> mset page \<subseteq># mset rows
     \<and> sorted_wrt (\<lambda>a b. when b \<le> when a) page
     \<and> (\<forall>x\<in>set page. \<forall>y\<in>#mset rows - mset page. when y \<le> when x)"

lemma newest_page_all: "newest_page when n rows page \<Longrightarrow> length rows \<le> n \<Longrightarrow> mset page = mset rows"
  by (auto simp: newest_page_def dest!: mset_subset_eq_exists_conv [THEN iffD1])
    (metis add_cancel_right_right min.absorb2 size_eq_0_iff_empty size_mset size_union)

lemma newest_page_take: "newest_page (\<lambda>r. time (col r)) n rows (take n (order_by time col True rows))"
proof -
  let ?o = "order_by time col True rows"
  have split: "mset rows = mset (take n ?o) + mset (drop n ?o)"
    by (metis append_take_drop_id mset_append mset_order_by)
  have sorted: "sorted_wrt (\<lambda>a b. time (col b) \<le> time (col a)) (take n ?o @ drop n ?o)"
    by (simp add: newest_first_order_by)
  then show ?thesis
    unfolding newest_page_def split sorted_wrt_append by auto
qed

section \<open>The store's invariant\<close>

definition tables_ok :: "tables \<Rightarrow> bool" where
  "tables_ok tb \<longleftrightarrow> distinct (map job_id (tb_jobs tb)) \<and> distinct (map snap_id (tb_snapshots tb))
     \<and> (\<forall>r\<in>set (tb_events tb). read_fields (row_fields r) \<noteq> None)"

datatype store_op = OpCreate job | OpStatus jsstr job_status | OpOrphans | OpSnapshot snapshot
  | OpEvent bop_event | OpPrune int

fun store_apply :: "db_env \<Rightarrow> store_op \<Rightarrow> tables \<Rightarrow> tables" where
  "store_apply db (OpCreate j) tb = snd (CreateJob db j tb)"
| "store_apply db (OpStatus i st) tb = snd (UpdateJobStatus db i st tb)"
| "store_apply db OpOrphans tb = snd (FailOrphanedJobs db tb)"
| "store_apply db (OpSnapshot s) tb = snd (RecordSnapshot db s tb)"
| "store_apply db (OpEvent e) tb = Publish db e tb"
| "store_apply db (OpPrune cutoff) tb = snd (PruneEventsOlderThan db cutoff tb)"

inductive store_step :: "tables \<Rightarrow> db_env \<times> store_op \<Rightarrow> tables \<Rightarrow> bool" where
  "store_step tb (db, op) (store_apply db op tb)"

inductive_cases store_step_cases: "store_step tb (db, op) tb'"

definition no_rows :: tables where
  "no_rows = \<lparr>tb_jobs = [], tb_snapshots = [], tb_events = []\<rparr>"

lemmas store_defs = CreateJob_def UpdateJobStatus_def FailOrphanedJobs_def RecordSnapshot_def
  RecordEvent_def PruneEventsOlderThan_def Publish_def

lemma those_fields: "those (map (\<lambda>(k, v). map_option (Pair k) (into_string v [])) (map (\<lambda>(k, v). (k, JStr v)) ps)) = Some ps"
  by (induction ps) auto

lemma read_fields_json [simp]: "read_fields (fields_json ps) = Some ps"
  using those_fields [of ps] by (simp add: read_fields_def fields_json_def del: map_map)

lemma map_job_id_keep: "(\<And>j. job_id (f j) = job_id j) \<Longrightarrow> map job_id (map f jobs) = map job_id jobs"
  by simp

lemma tables_ok_apply: "tables_ok tb \<Longrightarrow> tables_ok (store_apply db op tb)"
proof (cases op)
  case (OpStatus i st)
  assume "tables_ok tb"
  moreover have "map job_id (map (\<lambda>j. if job_id j = i then j\<lparr>job_state := st\<rparr> else j) (tb_jobs tb)) = map job_id (tb_jobs tb)"
    by (rule map_job_id_keep) simp
  ultimately show ?thesis unfolding OpStatus
    by (simp add: store_defs tables_ok_def split: option.splits del: map_map)
next
  case OpOrphans
  assume "tables_ok tb"
  moreover have "map job_id (map (\<lambda>j. if job_state j = In_progress then j\<lparr>job_state := Failed\<rparr> else j) (tb_jobs tb))
      = map job_id (tb_jobs tb)"
    by (rule map_job_id_keep) simp
  ultimately show ?thesis unfolding OpOrphans
    by (simp add: store_defs tables_ok_def split: option.splits del: map_map)
qed (auto simp: store_defs tables_ok_def Let_def split: option.splits)

lemma tables_ok_step: "store_step tb op tb' \<Longrightarrow> tables_ok tb \<Longrightarrow> tables_ok tb'"
  by (erule store_step.cases) (simp add: tables_ok_apply)

interpretation store: transition_system store_step tables_ok "\<lambda>tb. tb = no_rows"
  by unfold_locales (auto intro: tables_ok_step, simp add: tables_ok_def no_rows_def)

section \<open>Events, recorded and listed\<close>

definition event_of :: "stored_event \<Rightarrow> bop_event" where
  "event_of r = (row_event r)\<lparr>event_fields := the (read_fields (row_fields r))\<rparr>"

definition stored_events :: "tables \<Rightarrow> bop_event list" where
  "stored_events tb = map event_of (tb_events tb)"

lemma event_of_simps [simp]:
  "event_jobId (event_of r) = event_jobId (row_event r)" "event_host (event_of r) = event_host (row_event r)"
  "event_timestamp (event_of r) = event_timestamp (row_event r)"
  by (simp_all add: event_of_def)

lemma row_matches_event_of [simp]: "row_matches f (event_of r) = row_matches f (row_event r)"
  by (simp add: row_matches_def)

lemma scan_events_ok: "\<forall>r\<in>set rs. read_fields (row_fields r) \<noteq> None \<Longrightarrow> scan_events db rs = Inr (map event_of rs)"
  by (induction rs) (auto simp: event_of_def)

lemma ListEventsPage_ok:
  assumes "tables_ok tb" "db_error db = None"
  shows "ListEventsPage db f tb =
    Inr (let rows = order_by (db_time db) event_timestamp True (filter (row_matches f) (stored_events tb))
         in if rf_limit f > 0 then take (nat (rf_limit f)) rows else rows)"
proof -
  let ?rows = "order_by (db_time db) (\<lambda>r. event_timestamp (row_event r)) True
      (filter (\<lambda>r. row_matches f (row_event r)) (tb_events tb))"
  have events: "map event_of ?rows = order_by (db_time db) event_timestamp True (filter (row_matches f) (stored_events tb))"
    using map_order_by [of event_of "db_time db" event_timestamp True]
    by (simp add: stored_events_def filter_map comp_def)
  have "\<forall>r\<in>set ?rows. read_fields (row_fields r) \<noteq> None"
    using assms(1) by (simp add: tables_ok_def)
  then have ok: "scan_events db ?rows = Inr (map event_of ?rows)"
    "scan_events db (take n ?rows) = Inr (map event_of (take n ?rows))" for n
    by (auto intro!: scan_events_ok dest: in_set_takeD)
  show ?thesis
    unfolding ListEventsPage_def using assms(2) ok
    by (simp add: Let_def events [symmetric] take_map)
qed

lemma stored_events_Publish:
  "db_error db = None \<Longrightarrow> stored_events (Publish db e tb) = stored_events tb @ [e]"
  by (simp add: stored_events_def store_defs event_of_def)

lemma Publish_keeps [simp]:
  "tb_jobs (Publish db e tb) = tb_jobs tb" "tb_snapshots (Publish db e tb) = tb_snapshots tb"
  by (simp_all add: store_defs split: option.splits)

end
