(* ===== verification/Reads.thy ===== *)
theory Reads
  imports Metadata Pages "HOL-Library.List_Lexorder"
begin

text \<open>
  The handlers behind the pages (\<open>internal/api/handlers.go\<close>, in Go), on the tables of
  \<open>Metadata\<close> and the inventory, and what the pages get from them. The summaries the handlers
  write have the fields of the console's types, so a row and its summary are the same record here.
\<close>

section \<open>Handlers\<close>

text \<open>\<open>r.URL.Query().Get(key)\<close>, for a query without malformed pairs.\<close>

definition query_get :: "http_request \<Rightarrow> string \<Rightarrow> jsstr" where
  "query_get r key = (case snd (path_query (http_path r)) of
     None \<Rightarrow> []
   | Some ps \<Rightarrow> (case map_of ps (js key) of None \<Rightarrow> [] | Some v \<Rightarrow> v))"

text \<open>A server of the inventory, its plugins in the order the map is ranged over.\<close>

record server_entry =
  se_name :: jsstr
  se_host :: jsstr
  se_plugins :: "jsstr list"
  se_schedule :: jsstr

text \<open>Go compares strings by their bytes.\<close>

definition go_bytes :: "jsstr \<Rightarrow> nat list" where
  "go_bytes s = concat (map (\<lambda>c. utf8 (case c of None \<Rightarrow> 65533 | Some n \<Rightarrow> n)) (code_points s))"

definition host_summary :: "server_entry \<Rightarrow> host" where
  "host_summary srv = \<lparr>host_name = se_name srv, host_host = se_host srv,
     host_plugins = sort_key go_bytes (se_plugins srv), host_schedule = se_schedule srv\<rparr>"

definition listHostsHandler :: "server_entry list \<Rightarrow> host list api_answer" where
  "listHostsHandler servers = writeJSON 200 (sort_key (\<lambda>h. go_bytes (host_name h)) (map host_summary servers))"

text \<open>A list of the store, or its error.\<close>

definition list_answer :: "jsstr + 'a list \<Rightarrow> 'a list api_answer" where
  "list_answer r = (case r of Inl e \<Rightarrow> writeError 500 e | Inr xs \<Rightarrow> writeJSON 200 xs)"

definition listJobsHandler :: "db_env \<Rightarrow> tables \<Rightarrow> http_request \<Rightarrow> job list api_answer" where
  "listJobsHandler db tb r =
     (let statusParam = query_get r ''status'' in
      if statusParam \<noteq> [] then
        (case read_job_status statusParam of
           None \<Rightarrow> writeError 400 (js ''status: unsupported value '' @ statusParam)
         | Some st \<Rightarrow> list_answer (ListJobsByStatus db st tb))
      else list_answer (ListJobs db tb))"

definition getJobHandler :: "db_env \<Rightarrow> tables \<Rightarrow> jsstr \<Rightarrow> job api_answer" where
  "getJobHandler db tb i =
     (case GetJob db i tb of
        Inl JobNotFound \<Rightarrow> writeError 404 (js ''job not found'')
      | Inl (StoreError e) \<Rightarrow> writeError 500 e
      | Inr j \<Rightarrow> writeJSON 200 j)"

definition listSnapshotsHandler :: "db_env \<Rightarrow> tables \<Rightarrow> http_request \<Rightarrow> snapshot list api_answer" where
  "listSnapshotsHandler db tb r =
     (let host = query_get r ''host'' in
      if host = [] then writeError 400 (js ''host query parameter is required'')
      else list_answer (ListSnapshots db host tb))"

definition defaultEventsLimit :: int where "defaultEventsLimit = 100"

definition maxEventsLimit :: int where "maxEventsLimit = 1000"

definition events_limit :: "jsstr \<Rightarrow> int option" where
  "events_limit raw =
     (if raw = [] then Some defaultEventsLimit
      else (case atoi raw of
          None \<Rightarrow> None
        | Some n \<Rightarrow> if n \<le> 0 then None else Some (if n > maxEventsLimit then maxEventsLimit else n)))"

definition listEventsHandler :: "db_env \<Rightarrow> tables \<Rightarrow> http_request \<Rightarrow> bop_event list api_answer" where
  "listEventsHandler db tb r =
     (case events_limit (query_get r ''limit'') of
        None \<Rightarrow> writeError 400 (js ''limit: must be a positive integer'')
      | Some limit \<Rightarrow> list_answer (ListEventsPage db
          \<lparr>rf_jobId = query_get r ''job_id'', rf_host = query_get r ''host'', rf_limit = limit\<rparr> tb))"

section \<open>Numbers in a query\<close>

lemma digits_value_append: "digits_value (s @ [u]) = 10 * digits_value s + (int (unat u) - 48)"
  by (simp add: digits_value_def)

lemma unat_digit: "d < 10 \<Longrightarrow> unat (digit_unit d) = 48 + d"
  by (simp add: digit_unit_def unat_cu)

lemma nat_str_digits: "nat_str n \<noteq> [] \<and> list_all (\<lambda>u. 48 \<le> unat u \<and> unat u \<le> 57) (nat_str n)
    \<and> digits_value (nat_str n) = int n"
proof (induction n rule: nat_str.induct)
  case (1 n)
  show ?case
  proof (cases "n < 10")
    case True
    then have "nat_str n = [digit_unit n]" by (subst nat_str.simps) simp
    moreover have "digits_value [digit_unit n] = int n"
      using digits_value_append [of "[]" "digit_unit n"] unat_digit [OF True] by (simp add: digits_value_def)
    ultimately show ?thesis using unat_digit [OF True] True by simp
  next
    case False
    have d: "n mod 10 < 10" by simp
    have "int n = 10 * int (n div 10) + int (n mod 10)" by presburger
    with 1 False show ?thesis
      by (subst (1 2 3) nat_str.simps) (simp add: digits_value_append unat_digit [OF d])
  qed
qed

lemma atoi_nat_str: "int n < 9223372036854775808 \<Longrightarrow> atoi (nat_str n) = Some (int n)"
proof -
  assume n: "int n < 9223372036854775808"
  note d = nat_str_digits [of n]
  have "hd (nat_str n) \<noteq> ch CHR ''-''" "hd (nat_str n) \<noteq> ch CHR ''+''"
    using d by (cases "nat_str n"; auto simp: unat_ch)+
  with d n show ?thesis by (simp add: atoi_def Let_def)
qed

lemma events_limit_nat_str: "0 < n \<Longrightarrow> n \<le> 1000 \<Longrightarrow> events_limit (nat_str n) = Some (int n)"
  using nat_str_digits [of n] atoi_nat_str [of n] by (simp add: events_limit_def maxEventsLimit_def)

section \<open>What a request asks for\<close>

lemma query_get_sent: "send c a = Inr r \<Longrightarrow> path_query (call_path a) = (p, Some ps) \<Longrightarrow>
    query_get r key = (case map_of ps (js key) of None \<Rightarrow> [] | Some v \<Rightarrow> v)"
  by (simp add: query_get_def send_fields(1))

lemma asked_status:
  assumes "jobs_fetcher s = Inr a" "send c a = Inr r"
  shows "query_get r ''status'' = s"
proof (cases "s = []")
  case True
  then have "a = read_call (js ''/v1/jobs'')" using assms(1) by (simp add: jobs_fetcher_def listJobs_def)
  then have "path_query (call_path a) = (js ''/v1/jobs'', Some [])"
    by (simp add: path_query_plain set_js)
  from query_get_sent [OF assms(2) this] True show ?thesis by simp
next
  case False
  with assms(1) have "listJobs (Some s) = Inr a" by (simp add: jobs_fetcher_def)
  from query_get_sent [OF assms(2) path_query_listJobs [OF this False]] show ?thesis by simp
qed

lemma asked_host: "listSnapshots h = Inr a \<Longrightarrow> send c a = Inr r \<Longrightarrow> query_get r ''host'' = h"
  using query_get_sent [OF _ path_query_listSnapshots] by simp

lemma asked_events:
  assumes "params_ok (event_params (Some f))" "send c (listEvents (Some f)) = Inr r" "filter_limit f = Some n" "n \<noteq> 0"
  shows "query_get r ''job_id'' = (if truthy (filter_jobId f) then the (filter_jobId f) else [])"
    and "query_get r ''host'' = (if truthy (filter_host f) then the (filter_host f) else [])"
    and "query_get r ''limit'' = nat_str n"
  using query_get_sent [OF assms(2) path_query_listEvents [OF assms(1)]] assms(3,4)
  unfolding event_params_alt by simp_all

section \<open>Answers that arrive\<close>

text \<open>The hook after its current request was answered by the controller.\<close>

definition delivered :: "(nat \<Rightarrow> jsstr) \<Rightarrow> client \<Rightarrow> request_kind \<Rightarrow> 'd api_answer \<Rightarrow> ('d, 'k) hook \<Rightarrow> ('d, 'k) hook" where
  "delivered reason c kind ans h =
     settle kind (requestId h) (fst (request_finish c False (received reason ans))) h"

lemma delivered_value [simp]: "hook_data (delivered reason c kind (writeJSON 200 v) h) = Some v"
  by (cases kind) (simp_all add: delivered_def request_finish_def received_def writeJSON_def res_ok_def)

lemma rows_of_delivered [simp]: "rows_of (delivered reason c kind (writeJSON 200 v) h) = v"
  by (simp add: rows_of_def)

lemma status_option_read: "s \<in> fst ` set STATUS_OPTIONS \<Longrightarrow> s = [] \<or> (\<exists>st. s = job_status_str st)"
  by (auto simp: STATUS_OPTIONS_def)

lemma job_status_str_inj [simp]: "job_status_str a = job_status_str b \<longleftrightarrow> a = b"
  using job_status_wire.dec_enc by (metis option.inject)

lemma listJobsHandler_asked:
  assumes "jobs_fetcher s = Inr a" "send c a = Inr r" "s \<in> fst ` set STATUS_OPTIONS" "db_error db = None"
  shows "listJobsHandler db tb r = writeJSON 200 (order_by (db_time db) job_queuedAt (s = [])
    (filter (\<lambda>j. s = [] \<or> job_status_str (job_state j) = s) (tb_jobs tb)))"
proof -
  have st: "read_job_status (job_status_str x) = Some x" for x by (rule job_status_wire.dec_enc) simp
  have ne: "job_status_str x \<noteq> []" for x by (cases x) (simp_all add: job_status_str_def js_Cons)
  consider "s = []" | x where "s = job_status_str x" using status_option_read [OF assms(3)] by blast
  then show ?thesis
    using asked_status [OF assms(1,2)] assms(4) st ne
    by cases (auto simp: listJobsHandler_def list_answer_def ListJobs_def ListJobsByStatus_def)
qed

lemma listEventsHandler_asked:
  assumes "tables_ok tb" "db_error db = None" "params_ok (event_params (Some f))"
    and "send c (listEvents (Some f)) = Inr r" "filter_limit f = Some n" "0 < n" "n \<le> 1000"
  shows "listEventsHandler db tb r = writeJSON 200 (take n (order_by (db_time db) event_timestamp True
    (filter (\<lambda>e. (truthy (filter_jobId f) \<longrightarrow> event_jobId e = the (filter_jobId f))
        \<and> (truthy (filter_host f) \<longrightarrow> event_host e = the (filter_host f))) (stored_events tb))))"
proof -
  let ?f = "\<lparr>rf_jobId = query_get r ''job_id'', rf_host = query_get r ''host'', rf_limit = int n\<rparr>"
  have q: "query_get r ''job_id'' = (if truthy (filter_jobId f) then the (filter_jobId f) else [])"
    "query_get r ''host'' = (if truthy (filter_host f) then the (filter_host f) else [])"
    "query_get r ''limit'' = nat_str n"
    using asked_events [OF assms(3-5)] assms(6) by simp_all
  have "row_matches ?f = (\<lambda>e. (truthy (filter_jobId f) \<longrightarrow> event_jobId e = the (filter_jobId f))
        \<and> (truthy (filter_host f) \<longrightarrow> event_host e = the (filter_host f)))"
    by (rule ext) (auto simp: row_matches_def q truthy_def split: option.splits)
  then show ?thesis
    using ListEventsPage_ok [OF assms(1,2), of ?f] events_limit_nat_str [OF assms(6,7)] assms(6)
    by (simp add: listEventsHandler_def q(3) list_answer_def)
qed

lemma listSnapshotsHandler_asked:
  assumes "listSnapshots h = Inr a" "send c a = Inr r" "h \<noteq> []" "db_error db = None"
  shows "listSnapshotsHandler db tb r = writeJSON 200
    (order_by (db_time db) snap_createdAt True (filter (\<lambda>s. snap_host s = h) (tb_snapshots tb)))"
  using asked_host [OF assms(1,2)] assms(3,4)
  by (simp add: listSnapshotsHandler_def list_answer_def ListSnapshots_def)

lemma find_distinct: "distinct (map f xs) \<Longrightarrow> x \<in> set xs \<Longrightarrow> List.find (\<lambda>y. f y = f x) xs = Some x"
  by (induction xs) (auto simp: image_iff)

lemma GetJob_known:
  "tables_ok tb \<Longrightarrow> db_error db = None \<Longrightarrow> j \<in> set (tb_jobs tb) \<Longrightarrow> GetJob db (job_id j) tb = Inr j"
  using find_distinct [of job_id "tb_jobs tb" j] by (simp add: GetJob_def tables_ok_def)

section \<open>Rows on screen\<close>

lemma map_result_rows: "map_result f xs = Inr ys \<Longrightarrow> list_all2 (\<lambda>x y. f x = Inr y) xs ys"
  by (induction xs arbitrary: ys) (auto simp: bind_result_Inr_iff)

text \<open>The rows of a page, one for each item of its list, in its order.\<close>

lemma indexed_rows:
  assumes "map_result f (indexed xs) = Inr rows" "\<And>x i y. f (x, i) = Inr y \<Longrightarrow> g y = h x"
  shows "map g rows = map h xs"
proof -
  have "list_all2 (\<lambda>p y. f p = Inr y) (indexed xs) rows" by (rule map_result_rows) (rule assms(1))
  then have "map g rows = map (\<lambda>p. h (fst p)) (indexed xs)"
    by (induction rule: list_all2_induct) (auto dest: assms(2))
  also have "\<dots> = map h (map fst (indexed xs))" by simp
  also have "map fst (indexed xs) = xs" by (simp add: indexed_def)
  finally show ?thesis .
qed

section \<open>Maps ranged over\<close>

lemma host_summary_name [simp]: "host_name (host_summary srv) = se_name srv"
  by (simp add: host_summary_def)

text \<open>The same server, its plugins in another order.\<close>

definition same_server :: "server_entry \<Rightarrow> server_entry \<Rightarrow> bool" where
  "same_server s t \<longleftrightarrow> s\<lparr>se_plugins := se_plugins t\<rparr> = t \<and> mset (se_plugins s) = mset (se_plugins t)"

lemma same_server_summary:
  assumes "same_server s t" "distinct (map go_bytes (se_plugins s))"
  shows "host_summary s = host_summary t"
proof -
  have "sort_key go_bytes (se_plugins s) = sort_key go_bytes (se_plugins t)"
    using assms by (intro sort_key_inj_key_eq) (simp_all add: same_server_def distinct_map)
  moreover have "t = s\<lparr>se_plugins := se_plugins t\<rparr>" using assms(1) by (simp add: same_server_def)
  ultimately show ?thesis by (cases s; cases t) (simp add: host_summary_def)
qed

section \<open>Samples\<close>

text \<open>A client with a token, a database that works, and tables, for the witnesses.\<close>

definition sample_db :: db_env where
  "sample_db = \<lparr>db_error = None, db_unique = (\<lambda>_. []), db_json = (\<lambda>_. []), db_time = (\<lambda>s. int (length s))\<rparr>"

abbreviation sample_client :: client where
  "sample_client \<equiv> setToken (js ''abc'') (module_load (\<lambda>_. None))"

definition sample_event :: bop_event where
  "sample_event = \<lparr>event_kind = BackupRequested, event_jobId = js ''j1'', event_host = js ''db1'',
     event_plugin = js ''postgres'', event_resource = [], event_fields = [(js ''k'', js ''v'')], event_timestamp = js ''t''\<rparr>"

definition sample_snapshot :: snapshot where
  "sample_snapshot = \<lparr>snap_id = js ''s1'', snap_jobId = js ''j1'', snap_host = js ''db1'', snap_plugin = js ''postgres'',
     snap_size = 1, snap_checksum = js ''c'', snap_createdAt = js ''t''\<rparr>"

definition sample_tables :: tables where
  "sample_tables = Publish sample_db sample_event (store_apply sample_db (OpSnapshot sample_snapshot)
     (store_apply sample_db (OpCreate sample_job) no_rows))"

lemma reach_sample_tables: "reach (\<lambda>tb. tb = no_rows) store_step sample_tables"
proof -
  have step: "reach (\<lambda>tb. tb = no_rows) store_step (store_apply sample_db op tb)"
    if "reach (\<lambda>tb. tb = no_rows) store_step tb" for op tb
    using reach_step [OF that store_step.intros] by blast
  have "reach (\<lambda>tb. tb = no_rows) store_step no_rows" by (rule reach_init) simp
  from step [OF step [OF step [OF this, of "OpCreate sample_job"], of "OpSnapshot sample_snapshot"], of "OpEvent sample_event"]
  show ?thesis by (simp only: sample_tables_def store_apply.simps)
qed

lemma sample_tables_simps [simp]:
  "tb_jobs sample_tables = [sample_job]" "tb_snapshots sample_tables = [sample_snapshot]"
  "stored_events sample_tables = [sample_event]" "db_error sample_db = None"
  by (simp_all add: sample_tables_def store_defs no_rows_def sample_db_def Let_def stored_events_def event_of_def)

lemma sample_send: "init_headers (call_init a) = [] \<Longrightarrow> \<exists>r. send sample_client a = Inr r"
  by (rule send_leaves [of _ "js ''abc''"]) (simp_all add: header_token_def js_Cons unat_ch http_space_def)

lemma sample_relative: "\<exists>r. relative sample_browser s = Inr r"
  by (simp add: relative_def sample_browser_def formatRelative_def split: option.split)

section \<open>Properties\<close>

text \<open>
  C26. The jobs page shows what the database holds: for every choice of the status filter, one row
  for each job of the table with that status (every job without a filter), none twice, each with
  the host, the plugin and the status of its job and a link to its id.
\<close>

theorem jobs_page_shows_table:
  assumes "jobs_fetcher s = Inr a" "send c a = Inr r" "s \<in> fst ` set STATUS_OPTIONS" "db_error db = None"
    and "JobsPage br rm (delivered reason c kind (listJobsHandler db tb r) h) = Inr (notices, rows)"
  shows "mset (map (\<lambda>w. (Inr (jr_link w), jr_host w, jr_plugin w, jr_status w)) rows)
    = image_mset (\<lambda>j. (job_link (job_id j), job_host j, job_plugin j, StatusPill (job_state j)))
        (mset (filter (\<lambda>j. s = [] \<or> job_status_str (job_state j) = s) (tb_jobs tb)))"
proof -
  let ?jobs = "order_by (db_time db) job_queuedAt (s = [])
    (filter (\<lambda>j. s = [] \<or> job_status_str (job_state j) = s) (tb_jobs tb))"
  have "map_result (job_row br rm) (indexed (sorted_jobs br ?jobs)) = Inr rows"
    using assms(5) unfolding listJobsHandler_asked [OF assms(1-4)]
    by (auto simp: JobsPage_def Let_def bind_result_Inr_iff)
  then have "map (\<lambda>w. (Inr (jr_link w), jr_host w, jr_plugin w, jr_status w)) rows
      = map (\<lambda>j. (job_link (job_id j), job_host j, job_plugin j, StatusPill (job_state j))) (sorted_jobs br ?jobs)"
    by (rule indexed_rows) (auto simp: job_row_def bind_result_Inr_iff)
  then have "mset (map (\<lambda>w. (Inr (jr_link w), jr_host w, jr_plugin w, jr_status w)) rows)
      = image_mset (\<lambda>j. (job_link (job_id j), job_host j, job_plugin j, StatusPill (job_state j))) (mset (sorted_jobs br ?jobs))"
    by (simp only: mset_map)
  then show ?thesis by (simp add: sorted_jobs_def)
qed

theorem jobs_page_shows_table_witness:
  "\<exists>a r notices rows. jobs_fetcher [] = Inr a \<and> send sample_client a = Inr r
     \<and> JobsPage sample_browser False (delivered (\<lambda>_. []) sample_client Load
         (listJobsHandler sample_db sample_tables r) (mount [] None False)) = Inr (notices, rows)
     \<and> mset (map jr_host rows) = {#job_host sample_job#}"
proof -
  let ?h = "mount [] None False"
  have a: "jobs_fetcher [] = Inr (read_call (js ''/v1/jobs''))" by (simp add: jobs_fetcher_def listJobs_def)
  obtain r where r: "send sample_client (read_call (js ''/v1/jobs'')) = Inr r"
    using sample_send [of "read_call (js ''/v1/jobs'')"] by auto
  have s: "[] \<in> fst ` set STATUS_OPTIONS" by (simp add: STATUS_OPTIONS_def)
  note db = sample_tables_simps(4)
  have l: "listJobsHandler sample_db sample_tables r = writeJSON 200 [sample_job]"
    using listJobsHandler_asked [OF a r s db, of sample_tables] by (simp add: order_by_def)
  obtain link where "job_link (job_id sample_job) = Inr link"
    using encoded_well_formed [of "job_id sample_job"] by (auto simp: job_link_def sample_job_def well_formed_js)
  then have "\<exists>rows. map_result (job_row sample_browser False) (indexed [sample_job]) = Inr rows"
    using sample_relative [of "job_queuedAt sample_job"] by (auto simp: indexed_def job_row_def)
  then obtain notices rows where p: "JobsPage sample_browser False
      (delivered (\<lambda>_. []) sample_client Load (listJobsHandler sample_db sample_tables r) ?h) = Inr (notices, rows)"
    unfolding l by (auto simp: JobsPage_def sorted_jobs_def js_sort_def Let_def)
  have "mset (map (\<lambda>w. (Inr (jr_link w) :: jsstr result, jr_host w, jr_plugin w, jr_status w)) rows)
      = {#(job_link (job_id sample_job), job_host sample_job, job_plugin sample_job, StatusPill (job_state sample_job))#}"
    using jobs_page_shows_table [OF a r s db p] by simp
  from arg_cong [OF this, of "image_mset (\<lambda>(l, h, p, s). h)"] a r p show ?thesis
    by (auto simp: image_mset.compositionality comp_def)
qed

text \<open>
  C27. What the pages see of the events, with every filter and with each of their limits (8 on the
  dashboard, 200 elsewhere): of the events recorded for that job and host the newest so many, newest
  first; all of them if there are no more than that.
\<close>

theorem events_pages_show_newest:
  assumes "reach (\<lambda>tb. tb = no_rows) store_step tb" "db_error db = None" "params_ok (event_params (Some f))"
    and "send c (listEvents (Some f)) = Inr r" "filter_limit f = Some n" "0 < n" "n \<le> 1000"
  shows "newest_page (\<lambda>e. db_time db (event_timestamp e)) n
    (filter (\<lambda>e. (truthy (filter_jobId f) \<longrightarrow> event_jobId e = the (filter_jobId f))
        \<and> (truthy (filter_host f) \<longrightarrow> event_host e = the (filter_host f))) (stored_events tb))
    (rows_of (delivered reason c kind (listEventsHandler db tb r) h))"
  unfolding listEventsHandler_asked [OF store.reach_inv [OF assms(1)] assms(2-7)] rows_of_delivered
  by (rule newest_page_take)

theorem events_pages_show_newest_witness:
  "\<exists>r. send sample_client dashboard_events_call = Inr r
     \<and> newest_page (\<lambda>e. db_time sample_db (event_timestamp e)) 8 [sample_event]
         (rows_of (delivered (\<lambda>_. []) sample_client Load (listEventsHandler sample_db sample_tables r) (mount () None False)))"
proof -
  let ?f = "\<lparr>filter_jobId = None, filter_host = None, filter_limit = Some 8\<rparr>"
  have ok: "params_ok (event_params (Some ?f))"
    unfolding event_params_alt by (simp add: params_ok_def)
  obtain r where r: "send sample_client (listEvents (Some ?f)) = Inr r"
    using sample_send [of "listEvents (Some ?f)"] by (auto simp: listEvents_def Let_def)
  from events_pages_show_newest [OF reach_sample_tables sample_tables_simps(4) ok r, of 8] r
  show ?thesis by (simp add: dashboard_events_call_def)
qed

text \<open>
  The snapshots page shows exactly the snapshots of the host that is selected, newest first.
\<close>

theorem snapshots_page_shows_host:
  assumes "snapshots_fetcher host = Some (Inr a)" "send c a = Inr r" "db_error db = None"
    and "SnapshotsPage br rm hosts (delivered reason c kind (listSnapshotsHandler db tb r) h) = Inr (notices, rows)"
  shows "\<exists>snaps. mset snaps = mset (filter (\<lambda>s. snap_host s = host) (tb_snapshots tb))
    \<and> sorted_wrt (\<lambda>s t. db_time db (snap_createdAt t) \<le> db_time db (snap_createdAt s)) snaps
    \<and> map (\<lambda>w. (sr_plugin w, sr_size w, fst (sr_checksum w))) rows
        = map (\<lambda>s. (snap_plugin s, formatBytes (snap_size s), snap_checksum s)) snaps"
proof -
  let ?snaps = "order_by (db_time db) snap_createdAt True (filter (\<lambda>s. snap_host s = host) (tb_snapshots tb))"
  have host: "host \<noteq> []" "listSnapshots host = Inr a"
    using assms(1) by (auto simp: snapshots_fetcher_def split: if_splits)
  have "map_result (snapshot_row br rm) (indexed ?snaps) = Inr rows"
    using assms(4) unfolding listSnapshotsHandler_asked [OF host(2) assms(2) host(1) assms(3)]
    by (auto simp: SnapshotsPage_def bind_result_Inr_iff)
  then have "map (\<lambda>w. (sr_plugin w, sr_size w, fst (sr_checksum w))) rows
      = map (\<lambda>s. (snap_plugin s, formatBytes (snap_size s), snap_checksum s)) ?snaps"
    by (rule indexed_rows) (auto simp: snapshot_row_def bind_result_Inr_iff)
  moreover have "sorted_wrt (\<lambda>s t. db_time db (snap_createdAt t) \<le> db_time db (snap_createdAt s)) ?snaps"
    by (rule newest_first_order_by)
  ultimately show ?thesis by (intro exI [of _ ?snaps]) simp
qed

theorem snapshots_page_shows_host_witness:
  "\<exists>a r notices rows. snapshots_fetcher (js ''db1'') = Some (Inr a) \<and> send sample_client a = Inr r
     \<and> SnapshotsPage sample_browser False (mount () None False) (delivered (\<lambda>_. []) sample_client Load
         (listSnapshotsHandler sample_db sample_tables r) (mount (js ''db1'') None False)) = Inr (notices, rows)
     \<and> map sr_plugin rows = [js ''postgres'']"
proof -
  let ?h = "mount (js ''db1'') None False"
  obtain e where "encoded (js ''db1'') = Inr e" using encoded_well_formed well_formed_js by blast
  then obtain a where call: "listSnapshots (js ''db1'') = Inr a" and a: "snapshots_fetcher (js ''db1'') = Some (Inr a)"
    and ini: "init_headers (call_init a) = []"
    by (auto simp: snapshots_fetcher_def listSnapshots_def)
  obtain r where r: "send sample_client a = Inr r" using sample_send [OF ini] by blast
  note db = sample_tables_simps(4)
  have l: "listSnapshotsHandler sample_db sample_tables r = writeJSON 200 [sample_snapshot]"
    using listSnapshotsHandler_asked [OF call r _ db, of sample_tables] by (simp add: order_by_def sample_snapshot_def)
  have "\<exists>rows. map_result (snapshot_row sample_browser False) (indexed [sample_snapshot]) = Inr rows"
    using sample_relative [of "snap_createdAt sample_snapshot"] by (auto simp: indexed_def snapshot_row_def)
  then obtain notices rows where p: "SnapshotsPage sample_browser False (mount () None False)
      (delivered (\<lambda>_. []) sample_client Load (listSnapshotsHandler sample_db sample_tables r) ?h) = Inr (notices, rows)"
    unfolding l by (auto simp: SnapshotsPage_def)
  obtain snaps where "mset snaps = {#sample_snapshot#}"
      "map (\<lambda>w. (sr_plugin w, sr_size w, fst (sr_checksum w))) rows
        = map (\<lambda>s. (snap_plugin s, formatBytes (snap_size s), snap_checksum s)) snaps"
    using snapshots_page_shows_host [OF a r db p] by (auto simp: sample_snapshot_def)
  then have "map sr_plugin rows = [js ''postgres'']"
    by (auto simp: sample_snapshot_def)
  with a r p show ?thesis by (intro exI conjI)
qed

text \<open>
  The page of a job asks for that job and gets it: whatever has happened to the tables, the path
  of the call made for a job's id leads to the endpoint of that id, and the handler answers with
  that job and no other.
\<close>

theorem job_page_finds_job:
  assumes "reach (\<lambda>tb. tb = no_rows) store_step tb" "db_error db = None" "j \<in> set (tb_jobs tb)"
    and "job_id j \<noteq> []" "\<not> dot_name (job_id j)" "getJob (job_id j) = Inr a" "send c a = Inr r"
  shows "\<exists>i. served r = Some (EpJob i)
    \<and> hook_data (delivered reason c kind (getJobHandler db tb i) h) = Some j"
  using served_job_id [OF assms(6,7,4,5)] GetJob_known [OF store.reach_inv [OF assms(1)] assms(2,3)]
  by (simp add: getJobHandler_def)

theorem job_page_finds_job_witness:
  "\<exists>a r. getJob (js ''j1'') = Inr a \<and> send sample_client a = Inr r
     \<and> (\<exists>i. served r = Some (EpJob i) \<and> hook_data (delivered (\<lambda>_. []) sample_client Load
          (getJobHandler sample_db sample_tables i) (mount () None False)) = Some sample_job)"
proof -
  have j: "job_id sample_job = js ''j1''" by (simp add: sample_job_def)
  obtain e where "encoded (js ''j1'') = Inr e" using encoded_well_formed well_formed_js by blast
  then obtain a where a: "getJob (js ''j1'') = Inr a" and ini: "init_headers (call_init a) = []"
    by (auto simp: getJob_def)
  obtain r where r: "send sample_client a = Inr r" using sample_send [OF ini] by blast
  from job_page_finds_job [OF reach_sample_tables sample_tables_simps(4), of sample_job a, unfolded j, OF _ _ _ a r] a r
  show ?thesis by (auto simp: dot_name_def)
qed

text \<open>
  C28. The hosts answer does not depend on the order in which the inventory's maps are ranged over,
  which the language leaves open: two listings of the same servers, each with the same plugins, give
  the same answer, with one entry for each server in the order of the names.
\<close>

theorem hosts_answer_canonical:
  assumes "distinct (map (\<lambda>s. go_bytes (se_name s)) xs)" "\<forall>s\<in>set xs. distinct (map go_bytes (se_plugins s))"
    and "mset xs = mset zs" "list_all2 same_server zs ys"
  shows "listHostsHandler xs = listHostsHandler ys
    \<and> (\<exists>hs. listHostsHandler xs = writeJSON 200 hs \<and> sorted (map (\<lambda>h. go_bytes (host_name h)) hs)
      \<and> mset (map host_name hs) = mset (map se_name xs))"
proof -
  have "\<forall>s\<in>set zs. distinct (map go_bytes (se_plugins s))" using assms(2,3) by (metis set_mset_mset)
  with assms(4) have sum: "map host_summary zs = map host_summary ys"
    by (induction rule: list_all2_induct) (auto intro: same_server_summary)
  have m: "mset (map host_summary xs) = mset (map host_summary zs)" using assms(3) by simp
  have "inj_on (\<lambda>h. go_bytes (host_name h)) (set (map host_summary xs))"
    using assms(1) by (auto simp: distinct_map inj_on_def host_summary_def)
  with m have "sort_key (\<lambda>h. go_bytes (host_name h)) (map host_summary xs) = sort_key (\<lambda>h. go_bytes (host_name h)) (map host_summary ys)"
    unfolding sum by (intro sort_key_inj_key_eq) simp_all
  moreover have "mset (map host_name (sort_key (\<lambda>h. go_bytes (host_name h)) (map host_summary xs))) = mset (map se_name xs)"
    by (simp add: image_mset.compositionality comp_def)
  ultimately show ?thesis unfolding listHostsHandler_def
    by (intro conjI exI [of _ "sort_key (\<lambda>h. go_bytes (host_name h)) (map host_summary xs)"]) simp_all
qed

theorem hosts_answer_canonical_witness:
  "let a = \<lparr>se_name = js ''a'', se_host = [], se_plugins = [js ''p'', js ''q''], se_schedule = []\<rparr>;
       b = \<lparr>se_name = js ''b'', se_host = [], se_plugins = [], se_schedule = []\<rparr>
   in listHostsHandler [a, b] = listHostsHandler [b, a\<lparr>se_plugins := [js ''q'', js ''p'']\<rparr>]"
proof -
  let ?a = "\<lparr>se_name = js ''a'', se_host = [], se_plugins = [js ''p'', js ''q''], se_schedule = []\<rparr>"
    and ?b = "\<lparr>se_name = js ''b'', se_host = [], se_plugins = [], se_schedule = []\<rparr>"
  have "list_all2 same_server [?b, ?a] [?b, ?a\<lparr>se_plugins := [js ''q'', js ''p'']\<rparr>]"
    by (simp add: same_server_def)
  moreover have "go_bytes (js ''a'') \<noteq> go_bytes (js ''b'')" "go_bytes (js ''p'') \<noteq> go_bytes (js ''q'')"
    by (simp_all add: go_bytes_def js_Cons unat_ch utf8_def is_high_def is_low_def)
  ultimately show ?thesis
    using hosts_answer_canonical [of "[?a, ?b]" "[?b, ?a]"] by (simp add: Let_def add_mset_commute)
qed

end
