(* ===== verification/Pipeline.thy ===== *)
theory Pipeline
  imports Metadata Seal
begin

text \<open>
  The backup pipeline of the controller (\<open>internal/controller/controller.go\<close>, in Go): \<open>RunJob\<close>,
  \<open>runPipeline\<close> and \<open>backupResource\<close> with the events they publish, the rows they write and the
  artifacts they leave on disk. The plugin, the storage provider and the hash of a file are
  arguments: what each of their calls returns, a function of the call's own arguments during one
  run. So is what the database does, statement by statement
  (\<open>re_db\<close>, by the number of statements run so far), so that any of them may fail.
\<close>

section \<open>Ports\<close>

record resource =
  res_id :: jsstr
  res_name :: jsstr

record artifact =
  art_resource :: jsstr
  art_host :: jsstr
  art_plugin :: jsstr
  art_path :: jsstr
  art_size :: nat
  art_checksum :: jsstr

record backup_plugin =
  bp_discover :: "jsstr + resource list"
  bp_backup :: "resource \<Rightarrow> jsstr + artifact"
  bp_verify :: "artifact \<Rightarrow> jsstr option"
  bp_restore :: "artifact \<Rightarrow> jsstr option"

record storage_provider =
  sp_store :: "artifact \<Rightarrow> jsstr + jsstr"
  sp_verify :: "jsstr \<Rightarrow> jsstr option"
  sp_retention :: "jsstr \<Rightarrow> policy \<Rightarrow> jsstr option"

type_synonym plugin_factory = "inventory_server \<Rightarrow> gomap option \<Rightarrow> jsstr + backup_plugin"

record controller =
  cn_servers :: inventory
  cn_factories :: "jsstr \<Rightarrow> plugin_factory option"
  cn_storage :: storage_provider
  cn_storages :: "jsstr \<Rightarrow> storage_provider option"
  cn_verification :: verification

text \<open>What the run depends on beside the controller: settings, database, clock, files.\<close>

record run_env =
  re_request :: request_env
  re_settings :: settings
  re_db :: "nat \<Rightarrow> db_env"
  re_now :: "nat \<Rightarrow> jsstr"
  re_checksum :: "jsstr \<Rightarrow> jsstr + jsstr"
  re_remove :: "jsstr \<Rightarrow> jsstr option"

text \<open>The tables, the artifacts on disk, the statements run, and every event published.\<close>

record world =
  w_tables :: tables
  w_temp :: "jsstr list"
  w_clock :: nat
  w_log :: "bop_event list"

definition db_now :: "run_env \<Rightarrow> world \<Rightarrow> db_env" where
  "db_now env w = re_db env (w_clock w)"

definition publish :: "run_env \<Rightarrow> job \<Rightarrow> event_type \<Rightarrow> jsstr \<Rightarrow> (jsstr \<times> jsstr) list \<Rightarrow> world \<Rightarrow> world" where
  "publish env j kind res fs w =
     (let e = \<lparr>event_kind = kind, event_jobId = job_id j, event_host = job_host j, event_plugin = job_plugin j,
        event_resource = res, event_fields = fs, event_timestamp = re_now env (w_clock w)\<rparr>
      in w\<lparr>w_tables := Publish (db_now env w) e (w_tables w), w_log := w_log w @ [e], w_clock := Suc (w_clock w)\<rparr>)"

section \<open>One resource\<close>

definition wrapped :: "string \<Rightarrow> jsstr \<Rightarrow> jsstr option" where
  "wrapped context e = Some (js context @ js '': '' @ e)"

definition cleanupArtifact :: "run_env \<Rightarrow> artifact \<Rightarrow> world \<Rightarrow> world" where
  "cleanupArtifact env a w =
     (if art_path a = [] \<or> re_remove env (art_path a) \<noteq> None then w
      else w\<lparr>w_temp := removeAll (art_path a) (w_temp w)\<rparr>)"

definition RestoreTestSuffix :: jsstr where
  "RestoreTestSuffix = js ''-bop-verify''"

definition restore_test ::
  "run_env \<Rightarrow> job \<Rightarrow> backup_plugin \<Rightarrow> resource \<Rightarrow> verification \<Rightarrow> artifact \<Rightarrow> world \<Rightarrow> jsstr option \<times> world" where
  "restore_test env j p res v a w =
     (if \<not> vf_enabled v then (None, w)
      else (let w1 = publish env j RestoreVerificationStarted (res_id res) [] w in
        case bp_restore p (a\<lparr>art_resource := res_id res @ RestoreTestSuffix\<rparr>) of
          Some e \<Rightarrow> (wrapped ''restore test'' e, w1)
        | None \<Rightarrow> (None, publish env j RestoreVerificationCompleted (res_id res) [] w1)))"

definition record_snapshot :: "run_env \<Rightarrow> job \<Rightarrow> artifact \<Rightarrow> jsstr \<Rightarrow> world \<Rightarrow> jsstr option \<times> world" where
  "record_snapshot env j a i w =
     (let (err, tb) = RecordSnapshot (db_now env w)
        \<lparr>snap_id = i, snap_jobId = job_id j, snap_host = job_host j, snap_plugin = job_plugin j, snap_size = art_size a,
         snap_checksum = art_checksum a, snap_createdAt = re_now env (w_clock w)\<rparr> (w_tables w)
      in (Option.bind err (wrapped ''record snapshot''), w\<lparr>w_tables := tb, w_clock := Suc (w_clock w)\<rparr>))"

text \<open>From the checksum on: store, verify in storage, record, restore test.\<close>

definition store_artifact ::
  "run_env \<Rightarrow> job \<Rightarrow> backup_plugin \<Rightarrow> storage_provider \<Rightarrow> resource \<Rightarrow> verification \<Rightarrow> artifact \<Rightarrow> world
    \<Rightarrow> jsstr option \<times> world" where
  "store_artifact env j p sp res v a w =
     (let w1 = publish env j ArtifactCreated (res_id res)
            [(js ''checksum'', art_checksum a), (js ''size'', nat_str (art_size a))] w;
          w2 = publish env j ArtifactUploadStarted (res_id res) [] w1
      in case sp_store sp a of
           Inl e \<Rightarrow> (wrapped ''store'' e, w2)
         | Inr i \<Rightarrow>
           (let w3 = publish env j ArtifactUploadCompleted (res_id res) [(js ''snapshot_id'', i)] w2;
                w4 = publish env j RepositoryVerificationStarted (res_id res) [] w3
            in case sp_verify sp i of
                 Some e \<Rightarrow> (wrapped ''storage verify'' e, w4)
               | None \<Rightarrow>
                 (let w5 = publish env j RepositoryVerificationCompleted (res_id res) [] w4 in
                  case record_snapshot env j a i w5 of
                    (Some e, w6) \<Rightarrow> (Some e, w6)
                  | (None, w6) \<Rightarrow> restore_test env j p res v a w6)))"

text \<open>\<open>backupResource\<close>; the artifact the plugin wrote is cleaned up on every way out.\<close>

definition backupResource ::
  "run_env \<Rightarrow> job \<Rightarrow> backup_plugin \<Rightarrow> storage_provider \<Rightarrow> resource \<Rightarrow> verification \<Rightarrow> world \<Rightarrow> jsstr option \<times> world" where
  "backupResource env j p sp res v w =
     (case bp_backup p res of
        Inl e \<Rightarrow> (wrapped ''backup'' e, w)
      | Inr a0 \<Rightarrow>
        (let a = a0\<lparr>art_host := job_host j, art_plugin := job_plugin j\<rparr>;
             w1 = w\<lparr>w_temp := art_path a # w_temp w\<rparr>
         in apsnd (cleanupArtifact env a)
           (case bp_verify p a of
              Some e \<Rightarrow> (wrapped ''verify artifact'' e, w1)
            | None \<Rightarrow>
              (case re_checksum env (art_path a) of
                 Inl e \<Rightarrow> (wrapped ''checksum'' e, w1)
               | Inr c \<Rightarrow> store_artifact env j p sp res v (a\<lparr>art_checksum := c\<rparr>) w1))))"

section \<open>A job\<close>

text \<open>The loop over the resources, with the errors it collects. \<open>%q\<close> is \<open>rq_quote\<close>.\<close>

fun backup_all ::
  "run_env \<Rightarrow> job \<Rightarrow> backup_plugin \<Rightarrow> storage_provider \<Rightarrow> verification \<Rightarrow> resource list \<Rightarrow> world
    \<Rightarrow> jsstr list \<times> world" where
  "backup_all env j p sp v [] w = ([], w)"
| "backup_all env j p sp v (res # rs) w =
     (let (err, w1) = backupResource env j p sp res v w;
          (errs, w2) = backup_all env j p sp v rs w1
      in ((case err of None \<Rightarrow> errs
           | Some e \<Rightarrow> (js ''resource '' @ rq_quote (re_request env) (res_id res) @ js '': '' @ e) # errs), w2))"

definition resolveVerification :: "verification \<Rightarrow> verification option \<Rightarrow> verification" where
  "resolveVerification global override = (case override of Some v \<Rightarrow> v | None \<Rightarrow> global)"

text \<open>\<open>fmt.Errorf\<close> of \<open>errors.Join\<close>: the errors on lines of their own.\<close>

definition joined_errors :: "jsstr list \<Rightarrow> jsstr option" where
  "joined_errors errs = (if errs = [] then None
     else Some (nat_str (length errs) @ js '' error(s): '' @ js_join [cu 10] errs))"

definition runPipeline ::
  "controller \<Rightarrow> run_env \<Rightarrow> job \<Rightarrow> inventory_server \<Rightarrow> plugin_factory \<Rightarrow> storage_provider \<Rightarrow> world
    \<Rightarrow> jsstr option \<times> world" where
  "runPipeline cn env j srv factory sp w =
     (case resolvePluginConfig (re_request env) (re_settings env) (job_host j) (job_plugin j) srv of
        Inl e \<Rightarrow> (Some e, w)
      | Inr cfg \<Rightarrow>
        (case factory srv cfg of
           Inl e \<Rightarrow> (Some (js ''instantiate plugin '' @ rq_quote (re_request env) (job_plugin j) @ js '': '' @ e), w)
         | Inr p \<Rightarrow>
           (let w1 = publish env j PluginDiscoveryStarted [] [] w in
            case bp_discover p of
              Inl e \<Rightarrow> (Some (js ''discover on '' @ rq_quote (re_request env) (job_host j) @ js '': '' @ e), w1)
            | Inr resources \<Rightarrow>
              (let w2 = publish env j PluginDiscoveryCompleted [] [(js ''resource_count'', nat_str (length resources))] w1;
                   (errs, w3) = backup_all env j p sp (resolveVerification (cn_verification cn) (inv_verification srv)) resources w2
               in case sp_retention sp (job_host j) (job_policy j) of
                    Some e \<Rightarrow> (joined_errors (errs @ [js ''apply retention: '' @ e]), w3)
                  | None \<Rightarrow> (joined_errors errs, publish env j RetentionApplied [] [] w3)))))"

definition StorageFor :: "controller \<Rightarrow> (jsstr \<Rightarrow> jsstr) \<Rightarrow> jsstr \<Rightarrow> jsstr + storage_provider" where
  "StorageFor cn q host =
     (case cn_servers cn host of
        None \<Rightarrow> Inl (js ''controller: host '' @ q host @ js '' not found in inventory'')
      | Some srv \<Rightarrow>
        if inv_storage srv = [] then Inr (cn_storage cn)
        else (case cn_storages cn (inv_storage srv) of
          None \<Rightarrow> Inl (js ''controller: host '' @ q host @ js '': storage '' @ q (inv_storage srv)
            @ js '' is not defined in config.yaml storage.repositories'')
        | Some sp \<Rightarrow> Inr sp))"

definition set_status :: "run_env \<Rightarrow> job \<Rightarrow> job_status \<Rightarrow> world \<Rightarrow> store_error option \<times> world" where
  "set_status env j st w =
     (let (err, tb) = UpdateJobStatus (db_now env w) (job_id j) st (w_tables w)
      in (err, w\<lparr>w_tables := tb, w_clock := Suc (w_clock w)\<rparr>))"

text \<open>\<open>RunJob\<close> up to the pipeline: the job is picked up, or it is not and stays as it is.\<close>

definition run_start :: "controller \<Rightarrow> run_env \<Rightarrow> job \<Rightarrow> world
    \<Rightarrow> (jsstr + inventory_server \<times> plugin_factory \<times> storage_provider) \<times> world" where
  "run_start cn env j w =
     (let q = rq_quote (re_request env) in
      case cn_servers cn (job_host j) of
        None \<Rightarrow> (Inl (js ''controller: host '' @ q (job_host j) @ js '' not found in inventory''), w)
      | Some srv \<Rightarrow>
        (case cn_factories cn (job_plugin j) of
           None \<Rightarrow> (Inl (js ''controller: no plugin registered for '' @ q (job_plugin j)), w)
         | Some factory \<Rightarrow>
           (case StorageFor cn q (job_host j) of
              Inl e \<Rightarrow> (Inl e, w)
            | Inr sp \<Rightarrow>
              (case set_status env j In_progress w of
                 (Some e, w1) \<Rightarrow>
                   (Inl (js ''controller: mark job '' @ job_id j @ js '' in_progress: '' @ error_text_of e), w1)
               | (None, w1) \<Rightarrow> (Inr (srv, factory, sp), publish env j BackupStarted [] [] w1)))))"

text \<open>\<open>RunJob\<close> from the outcome of the pipeline on.\<close>

definition run_finish :: "run_env \<Rightarrow> job \<Rightarrow> jsstr option \<Rightarrow> world \<Rightarrow> jsstr option \<times> world" where
  "run_finish env j pipelineErr w =
     (let w1 = (case pipelineErr of
            None \<Rightarrow> publish env j BackupCompleted [] [] w
          | Some e \<Rightarrow> publish env j BackupFailed [] [(js ''error'', e)] w);
          (err, w2) = set_status env j (if pipelineErr = None then Completed else Failed) w1
      in (case (pipelineErr, err) of
            (None, None) \<Rightarrow> None
          | (None, Some s) \<Rightarrow> Some (js ''controller: mark job '' @ job_id j @ js '' completed: '' @ error_text_of s)
          | (Some e, None) \<Rightarrow> Some (js ''controller: job '' @ job_id j @ js '' failed: '' @ e)
          | (Some e, Some s) \<Rightarrow> Some (js ''controller: job '' @ job_id j @ js '' failed ('' @ e
              @ js ''); additionally failed to record failure: '' @ error_text_of s), w2))"

definition RunJob :: "controller \<Rightarrow> run_env \<Rightarrow> job \<Rightarrow> world \<Rightarrow> jsstr option \<times> world" where
  "RunJob cn env j w =
     (case run_start cn env j w of
        (Inl e, w1) \<Rightarrow> (Some e, w1)
      | (Inr (srv, factory, sp), w1) \<Rightarrow>
        (case runPipeline cn env j srv factory sp w1 of (err, w2) \<Rightarrow> run_finish env j err w2))"

section \<open>What a run adds\<close>

text \<open>
  From one world to a later one of the same job: its events were published, in this order, and these
  snapshots recorded; jobs are as they were, and with a working database the events are in the table.
\<close>

definition works :: "run_env \<Rightarrow> bool" where
  "works env \<longleftrightarrow> (\<forall>n. db_error (re_db env n) = None)"

definition adds :: "run_env \<Rightarrow> job \<Rightarrow> bop_event list \<Rightarrow> snapshot list \<Rightarrow> world \<Rightarrow> world \<Rightarrow> bool" where
  "adds env j es snaps w w' \<longleftrightarrow> w_log w' = w_log w @ es
     \<and> (\<forall>e\<in>set es. event_jobId e = job_id j \<and> event_host e = job_host j \<and> event_plugin e = job_plugin j)
     \<and> tb_jobs (w_tables w') = tb_jobs (w_tables w)
     \<and> tb_snapshots (w_tables w') = tb_snapshots (w_tables w) @ snaps
     \<and> (works env \<longrightarrow> stored_events (w_tables w') = stored_events (w_tables w) @ es)"

lemma adds_refl: "adds env j [] [] w w"
  by (simp add: adds_def)

lemma adds_trans: "adds env j es ss w w1 \<Longrightarrow> adds env j fs ts w1 w2 \<Longrightarrow> adds env j (es @ fs) (ss @ ts) w w2"
  by (auto simp: adds_def)

lemma adds_temp [simp]:
  "adds env j es ss (w\<lparr>w_temp := t\<rparr>) w' = adds env j es ss w w'"
  "adds env j es ss w (w'\<lparr>w_temp := t\<rparr>) = adds env j es ss w w'"
  by (simp_all add: adds_def)

lemma adds_cleanup [simp]: "adds env j es ss w (cleanupArtifact env a w') = adds env j es ss w w'"
  by (simp add: cleanupArtifact_def)

lemma db_now_works [simp]: "works env \<Longrightarrow> db_error (db_now env w) = None"
  by (simp add: works_def db_now_def)

definition event_now :: "run_env \<Rightarrow> job \<Rightarrow> event_type \<Rightarrow> jsstr \<Rightarrow> (jsstr \<times> jsstr) list \<Rightarrow> world \<Rightarrow> bop_event" where
  "event_now env j kind res fs w = \<lparr>event_kind = kind, event_jobId = job_id j, event_host = job_host j,
     event_plugin = job_plugin j, event_resource = res, event_fields = fs, event_timestamp = re_now env (w_clock w)\<rparr>"

lemma event_now_simps [simp]:
  "event_kind (event_now env j kind res fs w) = kind" "event_resource (event_now env j kind res fs w) = res"
  by (simp_all add: event_now_def)

lemma adds_publish: "adds env j [event_now env j kind res fs w] [] w (publish env j kind res fs w)"
  by (simp add: adds_def publish_def event_now_def Let_def stored_events_Publish)

lemma publish_temp [simp]: "w_temp (publish env j kind res fs w) = w_temp w"
  by (simp add: publish_def Let_def)

text \<open>A list of event kinds, each published in turn.\<close>

lemma adds_publish_then:
  assumes "adds env j es ss (publish env j kind res fs w) w'"
  shows "adds env j (event_now env j kind res fs w # es) ss w w'"
  using adds_trans [OF adds_publish assms] by simp

abbreviation taken_ids :: "world \<Rightarrow> jsstr list" where
  "taken_ids w \<equiv> map snap_id (tb_snapshots (w_tables w))"

definition snapshot_of :: "job \<Rightarrow> artifact \<Rightarrow> jsstr \<Rightarrow> snapshot \<Rightarrow> bool" where
  "snapshot_of j a i s \<longleftrightarrow> snap_id s = i \<and> snap_jobId s = job_id j \<and> snap_host s = job_host j \<and> snap_plugin s = job_plugin j
     \<and> snap_size s = art_size a \<and> snap_checksum s = art_checksum a"

lemma adds_record:
  assumes "record_snapshot env j a i w = (err, w')"
  shows "\<exists>s. snapshot_of j a i s \<and> adds env j [] (if err = None then [s] else []) w w'"
    and "w_temp w' = w_temp w"
    and "err = None \<Longrightarrow> i \<notin> set (taken_ids w)"
    and "works env \<Longrightarrow> i \<notin> set (taken_ids w) \<Longrightarrow> err = None"
proof -
  let ?s = "\<lparr>snap_id = i, snap_jobId = job_id j, snap_host = job_host j, snap_plugin = job_plugin j,
    snap_size = art_size a, snap_checksum = art_checksum a, snap_createdAt = re_now env (w_clock w)\<rparr>"
  have "adds env j [] (if err = None then [?s] else []) w w'"
    using assms
    by (auto simp: record_snapshot_def RecordSnapshot_def adds_def stored_events_def wrapped_def Let_def
        split: option.splits if_splits)
  then show "\<exists>s. snapshot_of j a i s \<and> adds env j [] (if err = None then [s] else []) w w'"
    by (intro exI [of _ ?s]) (simp add: snapshot_of_def)
  show "w_temp w' = w_temp w"
    "err = None \<Longrightarrow> i \<notin> set (taken_ids w)"
    "works env \<Longrightarrow> i \<notin> set (taken_ids w) \<Longrightarrow> err = None"
    using assms
    by (auto simp: record_snapshot_def RecordSnapshot_def wrapped_def Let_def split: option.splits if_splits)
qed

section \<open>One resource, seen from outside\<close>

text \<open>
  What becomes of a resource, whatever the world: the artifact and the id it is stored under, if the
  backup, its check, the checksum, the upload and the check in storage all succeed.
\<close>

definition verified_copy :: "run_env \<Rightarrow> job \<Rightarrow> backup_plugin \<Rightarrow> storage_provider \<Rightarrow> resource \<Rightarrow> (artifact \<times> jsstr) option" where
  "verified_copy env j p sp res = (case bp_backup p res of
     Inl e \<Rightarrow> None
   | Inr a0 \<Rightarrow>
     (let a = a0\<lparr>art_host := job_host j, art_plugin := job_plugin j\<rparr> in
      if bp_verify p a \<noteq> None then None
      else (case re_checksum env (art_path a) of
        Inl e \<Rightarrow> None
      | Inr c \<Rightarrow> (case sp_store sp (a\<lparr>art_checksum := c\<rparr>) of
          Inl e \<Rightarrow> None
        | Inr i \<Rightarrow> if sp_verify sp i = None then Some (a\<lparr>art_checksum := c\<rparr>, i) else None))))"

definition restorable :: "backup_plugin \<Rightarrow> resource \<Rightarrow> verification \<Rightarrow> artifact \<Rightarrow> bool" where
  "restorable p res v a \<longleftrightarrow> (vf_enabled v \<longrightarrow> bp_restore p (a\<lparr>art_resource := res_id res @ RestoreTestSuffix\<rparr>) = None)"

text \<open>The events of a resource that went through.\<close>

definition success_kinds :: "verification \<Rightarrow> event_type list" where
  "success_kinds v = [ArtifactCreated, ArtifactUploadStarted, ArtifactUploadCompleted,
     RepositoryVerificationStarted, RepositoryVerificationCompleted]
     @ (if vf_enabled v then [RestoreVerificationStarted, RestoreVerificationCompleted] else [])"

lemma restore_test_adds:
  assumes "restore_test env j p res v a w = (err, w')"
  shows "\<exists>es. adds env j es [] w w' \<and> w_temp w' = w_temp w \<and> (err = None \<longleftrightarrow> restorable p res v a)
    \<and> (err = None \<longrightarrow> map event_kind es = (if vf_enabled v then [RestoreVerificationStarted, RestoreVerificationCompleted] else []))
    \<and> set (map event_kind es) \<subseteq> set (success_kinds v)"
proof (cases "vf_enabled v")
  case False
  then show ?thesis using assms adds_refl by (fastforce simp: restore_test_def restorable_def)
next
  case True
  let ?w1 = "publish env j RestoreVerificationStarted (res_id res) [] w"
  show ?thesis
  proof (cases "bp_restore p (a\<lparr>art_resource := res_id res @ RestoreTestSuffix\<rparr>)")
    case None
    then have "err = None" "w' = publish env j RestoreVerificationCompleted (res_id res) [] ?w1"
      using assms True by (simp_all add: restore_test_def Let_def)
    moreover from this have "adds env j [event_now env j RestoreVerificationStarted (res_id res) [] w,
        event_now env j RestoreVerificationCompleted (res_id res) [] ?w1] [] w w'"
      by (simp add: adds_publish_then adds_publish)
    ultimately show ?thesis using None True
      by - (intro exI conjI, assumption, simp_all add: restorable_def success_kinds_def)
  next
    case (Some e)
    then have "err \<noteq> None" "w' = ?w1" using assms True by (auto simp: restore_test_def wrapped_def Let_def)
    moreover from this have "adds env j [event_now env j RestoreVerificationStarted (res_id res) [] w] [] w w'"
      by (simp add: adds_publish)
    ultimately show ?thesis using Some True
      by - (intro exI conjI, assumption, simp_all add: restorable_def success_kinds_def)
  qed
qed

text \<open>
  A resource that was taken through the pipeline: its events and at most one snapshot were added, the
  snapshot is that of a verified copy, and a run without an error has all the events of success.
\<close>

definition resource_run :: "run_env \<Rightarrow> job \<Rightarrow> backup_plugin \<Rightarrow> storage_provider \<Rightarrow> verification \<Rightarrow> resource
    \<Rightarrow> jsstr list \<Rightarrow> bop_event list \<Rightarrow> snapshot list \<Rightarrow> jsstr option \<Rightarrow> bool" where
  "resource_run env j p sp v res taken es ss err \<longleftrightarrow> set (map event_kind es) \<subseteq> set (success_kinds v)
     \<and> (err = None \<longrightarrow> map event_kind es = success_kinds v \<and> ss \<noteq> []
          \<and> (\<exists>a i. verified_copy env j p sp res = Some (a, i) \<and> restorable p res v a))
     \<and> (ss \<noteq> [] \<longrightarrow> (\<exists>a i s. ss = [s] \<and> verified_copy env j p sp res = Some (a, i) \<and> snapshot_of j a i s
          \<and> i \<notin> set taken))
     \<and> (works env \<longrightarrow> (\<forall>a i. verified_copy env j p sp res = Some (a, i) \<longrightarrow> i \<notin> set taken
          \<longrightarrow> ss \<noteq> [] \<and> (restorable p res v a \<longrightarrow> err = None)))"

lemma store_artifact_adds:
  assumes "store_artifact env j p sp res v a w = (err, w')"
    and copy: "verified_copy env j p sp res = (case sp_store sp a of Inl e \<Rightarrow> None
      | Inr i \<Rightarrow> if sp_verify sp i = None then Some (a, i) else None)"
  shows "\<exists>es ss. adds env j es ss w w' \<and> w_temp w' = w_temp w \<and> resource_run env j p sp v res (taken_ids w) es ss err"
proof -
  let ?c1 = "[(js ''checksum'', art_checksum a), (js ''size'', nat_str (art_size a))]"
  let ?w1 = "publish env j ArtifactCreated (res_id res) ?c1 w"
  let ?w2 = "publish env j ArtifactUploadStarted (res_id res) [] ?w1"
  let ?es2 = "[event_now env j ArtifactCreated (res_id res) ?c1 w, event_now env j ArtifactUploadStarted (res_id res) [] ?w1]"
  have w2: "adds env j ?es2 [] w ?w2" "w_temp ?w2 = w_temp w"
    by (simp_all add: adds_publish_then adds_publish)
  show ?thesis
  proof (cases "sp_store sp a")
    case (Inl e)
    then have "err \<noteq> None" "w' = ?w2" using assms(1) by (auto simp: store_artifact_def Let_def wrapped_def)
    with Inl copy show ?thesis using w2
      by (intro exI [of _ ?es2] exI [of _ "[]"]) (simp add: resource_run_def success_kinds_def)
  next
    case (Inr i)
    let ?c3 = "[(js ''snapshot_id'', i)]"
    let ?w3 = "publish env j ArtifactUploadCompleted (res_id res) ?c3 ?w2"
    let ?w4 = "publish env j RepositoryVerificationStarted (res_id res) [] ?w3"
    let ?es4 = "?es2 @ [event_now env j ArtifactUploadCompleted (res_id res) ?c3 ?w2,
      event_now env j RepositoryVerificationStarted (res_id res) [] ?w3]"
    have w4: "adds env j ?es4 [] w ?w4" "w_temp ?w4 = w_temp w"
      by (simp_all add: adds_publish_then adds_publish)
    show ?thesis
    proof (cases "sp_verify sp i")
      case (Some e)
      then have "err \<noteq> None" "w' = ?w4" using assms(1) Inr by (auto simp: store_artifact_def Let_def wrapped_def)
      with Inr Some copy show ?thesis using w4
        by (intro exI [of _ ?es4] exI [of _ "[]"]) (simp add: resource_run_def success_kinds_def)
    next
      case None
      let ?w5 = "publish env j RepositoryVerificationCompleted (res_id res) [] ?w4"
      let ?k5 = "[ArtifactCreated, ArtifactUploadStarted, ArtifactUploadCompleted,
        RepositoryVerificationStarted, RepositoryVerificationCompleted]"
      have "adds env j (?es4 @ [event_now env j RepositoryVerificationCompleted (res_id res) [] ?w4]) [] w ?w5"
        by (simp add: adds_publish_then adds_publish)
      moreover have "map event_kind (?es4 @ [event_now env j RepositoryVerificationCompleted (res_id res) [] ?w4]) = ?k5"
        by simp
      ultimately obtain es5 w5 where w5: "adds env j es5 [] w w5" "w_temp w5 = w_temp w"
        and k5: "map event_kind es5 = ?k5" and w5_eq: "?w5 = w5" by auto
      then have rows: "tb_snapshots (w_tables w5) = tb_snapshots (w_tables w)" by (simp add: adds_def)
      have vc: "verified_copy env j p sp res = Some (a, i)" using copy Inr None by simp
      obtain rerr w6 where rec: "record_snapshot env j a i w5 = (rerr, w6)" by fastforce
      obtain s where s: "snapshot_of j a i s" "adds env j [] (if rerr = None then [s] else []) w5 w6"
        using adds_record(1) [OF rec] by blast
      have r: "w_temp w6 = w_temp w5" "rerr = None \<Longrightarrow> i \<notin> set (taken_ids w)"
        "works env \<Longrightarrow> i \<notin> set (taken_ids w) \<Longrightarrow> rerr = None"
        using adds_record(2-4) [OF rec] rows by auto
      have w6: "adds env j es5 (if rerr = None then [s] else []) w w6" "w_temp w6 = w_temp w"
        using adds_trans [OF w5(1) s(2)] w5(2) r(1) by simp_all
      show ?thesis
      proof (cases rerr)
        case (Some e)
        then have "err = Some e" "w' = w6" using assms(1) Inr None rec w5_eq by (simp_all add: store_artifact_def Let_def)
        then have "resource_run env j p sp v res (taken_ids w) es5 [] err"
          using k5 r(3) Some vc by (auto simp: resource_run_def success_kinds_def)
        with w6 Some \<open>w' = w6\<close> show ?thesis by (intro exI [of _ es5] exI [of _ "[]"]) simp
      next
        case rnone: None
        then have "restore_test env j p res v a w6 = (err, w')"
          using assms(1) Inr None rec w5_eq by (simp add: store_artifact_def Let_def)
        from restore_test_adds [OF this] obtain es where es: "adds env j es [] w6 w'" "w_temp w' = w_temp w6"
          "err = None \<longleftrightarrow> restorable p res v a"
          "err = None \<longrightarrow> map event_kind es = (if vf_enabled v then [RestoreVerificationStarted, RestoreVerificationCompleted] else [])"
          "set (map event_kind es) \<subseteq> set (success_kinds v)" by blast
        have "adds env j (es5 @ es) [s] w w'" using adds_trans [OF w6(1) es(1)] rnone by simp
        moreover have "resource_run env j p sp v res (taken_ids w) (es5 @ es) [s] err"
          unfolding resource_run_def
        proof (intro conjI)
          show "set (map event_kind (es5 @ es)) \<subseteq> set (success_kinds v)"
            using k5 es(5) by (auto simp: success_kinds_def)
          show "err = None \<longrightarrow> map event_kind (es5 @ es) = success_kinds v \<and> [s] \<noteq> []
              \<and> (\<exists>a i. verified_copy env j p sp res = Some (a, i) \<and> restorable p res v a)"
            using k5 es(3,4) vc by (simp add: success_kinds_def)
        qed (use es(3) r(2) s(1) rnone vc in auto)
        ultimately show ?thesis using es(2) w6(2)
          by (intro exI [of _ "es5 @ es"] exI [of _ "[s]"]) simp
      qed
    qed
  qed
qed

lemma backupResource_adds:
  assumes "backupResource env j p sp res v w = (err, w')"
  shows "\<exists>es ss. adds env j es ss w w' \<and> resource_run env j p sp v res (taken_ids w) es ss err"
proof (cases "bp_backup p res")
  case (Inl e)
  then have "err \<noteq> None" "w' = w" using assms by (auto simp: backupResource_def wrapped_def)
  with Inl adds_refl show ?thesis
    by (intro exI [of _ "[]"]) (auto simp: resource_run_def verified_copy_def)
next
  case (Inr a0)
  let ?a = "a0\<lparr>art_host := job_host j, art_plugin := job_plugin j\<rparr>"
  let ?w1 = "w\<lparr>w_temp := art_path ?a # w_temp w\<rparr>"
  show ?thesis
  proof (cases "bp_verify p ?a = None \<and> (\<exists>c. re_checksum env (art_path ?a) = Inr c)")
    case False
    then have "err \<noteq> None \<and> w' = cleanupArtifact env ?a ?w1"
      using assms Inr by (auto simp: backupResource_def wrapped_def Let_def split: option.splits sum.splits)
    moreover have "verified_copy env j p sp res = None"
      using False Inr by (auto simp: verified_copy_def Let_def split: sum.splits)
    ultimately show ?thesis using adds_refl
      by (intro exI [of _ "[]"]) (simp add: resource_run_def)
  next
    case True
    then obtain c where c: "bp_verify p ?a = None" "re_checksum env (art_path ?a) = Inr c" by blast
    obtain w2 where s: "store_artifact env j p sp res v (?a\<lparr>art_checksum := c\<rparr>) ?w1 = (err, w2)"
      and w': "w' = cleanupArtifact env ?a w2"
      using assms Inr c by (auto simp: backupResource_def Let_def apsnd_def map_prod_def split: prod.splits)
    have "verified_copy env j p sp res = (case sp_store sp (?a\<lparr>art_checksum := c\<rparr>) of Inl e \<Rightarrow> None
        | Inr i \<Rightarrow> if sp_verify sp i = None then Some (?a\<lparr>art_checksum := c\<rparr>, i) else None)"
      using Inr c by (simp add: verified_copy_def Let_def)
    from store_artifact_adds [OF s this] show ?thesis by (auto simp: w')
  qed
qed

text \<open>No artifact stays behind, whatever happens to the resource.\<close>

lemma store_artifact_temp: "store_artifact env j p sp res v a w = (err, w') \<Longrightarrow> w_temp w' = w_temp w"
  by (auto simp: store_artifact_def restore_test_def Let_def adds_record(2)
      split: sum.splits option.splits prod.splits if_splits)

lemma backupResource_temp:
  assumes "backupResource env j p sp res v w = (err, w')" "\<And>f. re_remove env f = None"
    and "\<And>a. bp_backup p res = Inr a \<Longrightarrow> art_path a \<noteq> [] \<and> art_path a \<notin> set (w_temp w)"
  shows "w_temp w' = w_temp w"
proof (cases "bp_backup p res")
  case (Inl e)
  then show ?thesis using assms(1) by (auto simp: backupResource_def)
next
  case (Inr a0)
  with assms(3) have path: "art_path a0 \<noteq> []" "art_path a0 \<notin> set (w_temp w)" by auto
  let ?a = "a0\<lparr>art_host := job_host j, art_plugin := job_plugin j\<rparr>"
  let ?w1 = "w\<lparr>w_temp := art_path ?a # w_temp w\<rparr>"
  obtain r w2 where body: "(case bp_verify p ?a of
      Some e \<Rightarrow> (wrapped ''verify artifact'' e, ?w1)
    | None \<Rightarrow> (case re_checksum env (art_path ?a) of
        Inl e \<Rightarrow> (wrapped ''checksum'' e, ?w1)
      | Inr c \<Rightarrow> store_artifact env j p sp res v (?a\<lparr>art_checksum := c\<rparr>) ?w1)) = (r, w2)" by fastforce
  have "w_temp w2 = art_path a0 # w_temp w"
    using body by (auto split: option.splits sum.splits dest: store_artifact_temp)
  moreover have "w' = cleanupArtifact env ?a w2"
    using assms(1) unfolding backupResource_def Inr by (simp add: Let_def body)
  ultimately show ?thesis using path assms(2) by (simp add: cleanupArtifact_def)
qed

section \<open>All resources\<close>

text \<open>The resources one after the other, whatever became of those before.\<close>

inductive resource_runs :: "run_env \<Rightarrow> job \<Rightarrow> backup_plugin \<Rightarrow> storage_provider \<Rightarrow> verification \<Rightarrow> jsstr list
    \<Rightarrow> resource list \<Rightarrow> bop_event list \<Rightarrow> snapshot list \<Rightarrow> bool list \<Rightarrow> bool"
  for env j p sp v where
  runs_Nil: "resource_runs env j p sp v taken [] [] [] []"
| runs_Cons: "resource_run env j p sp v res taken es ss err
    \<Longrightarrow> resource_runs env j p sp v (taken @ map snap_id ss) rs es' ss' oks
    \<Longrightarrow> resource_runs env j p sp v taken (res # rs) (es @ es') (ss @ ss') ((err = None) # oks)"

lemma backup_all_adds:
  assumes "backup_all env j p sp v rs w = (errs, w')"
  shows "\<exists>es ss oks. adds env j es ss w w' \<and> length errs = length (filter Not oks)
    \<and> resource_runs env j p sp v (taken_ids w) rs es ss oks"
  using assms
proof (induction rs arbitrary: w errs)
  case Nil
  with adds_refl show ?case by (intro exI [of _ "[]"]) (simp add: runs_Nil)
next
  case (Cons res rs)
  obtain err w1 where b: "backupResource env j p sp res v w = (err, w1)" by fastforce
  obtain errs2 where rest: "backup_all env j p sp v rs w1 = (errs2, w')"
    and errs: "length errs = (if err = None then 0 else 1) + length errs2"
    using Cons.prems b by (auto split: prod.splits option.splits)
  obtain es1 ss1 where one: "adds env j es1 ss1 w w1" "resource_run env j p sp v res (taken_ids w) es1 ss1 err"
    using backupResource_adds [OF b] by blast
  have ids: "taken_ids w1 = taken_ids w @ map snap_id ss1" using one(1) by (simp add: adds_def)
  obtain es2 ss2 oks2 where two: "adds env j es2 ss2 w1 w'" "length errs2 = length (filter Not oks2)"
    "resource_runs env j p sp v (taken_ids w @ map snap_id ss1) rs es2 ss2 oks2"
    using Cons.IH [OF rest] unfolding ids by blast
  from errs two(2) have "length errs = length (filter Not ((err = None) # oks2))" by simp
  with adds_trans [OF one(1) two(1)] runs_Cons [OF one(2) two(3)] show ?case by blast
qed

lemma backup_all_temp:
  assumes "backup_all env j p sp v rs w = (errs, w')" "\<And>f. re_remove env f = None"
    and "\<And>res a. bp_backup p res = Inr a \<Longrightarrow> art_path a \<noteq> [] \<and> art_path a \<notin> set (w_temp w)"
  shows "w_temp w' = w_temp w"
  using assms(1,3)
proof (induction rs arbitrary: w errs)
  case (Cons res rs)
  obtain err w1 where b: "backupResource env j p sp res v w = (err, w1)" by fastforce
  have t: "w_temp w1 = w_temp w" by (rule backupResource_temp [OF b assms(2)]) (rule Cons.prems(2))
  obtain errs2 where "backup_all env j p sp v rs w1 = (errs2, w')"
    using Cons.prems(1) b by (auto split: prod.splits)
  from Cons.IH [OF this] Cons.prems(2) show ?case by (simp add: t)
qed simp

text \<open>A resource that is fine, and what a list of runs says of its resources.\<close>

definition fine :: "run_env \<Rightarrow> job \<Rightarrow> backup_plugin \<Rightarrow> storage_provider \<Rightarrow> verification \<Rightarrow> resource \<Rightarrow> bool" where
  "fine env j p sp v res \<longleftrightarrow> (\<exists>a i. verified_copy env j p sp res = Some (a, i) \<and> restorable p res v a)"

definition copy_id :: "run_env \<Rightarrow> job \<Rightarrow> backup_plugin \<Rightarrow> storage_provider \<Rightarrow> resource \<Rightarrow> jsstr list" where
  "copy_id env j p sp res = (case verified_copy env j p sp res of None \<Rightarrow> [] | Some (a, i) \<Rightarrow> [i])"

definition recorded :: "run_env \<Rightarrow> job \<Rightarrow> backup_plugin \<Rightarrow> storage_provider \<Rightarrow> resource list \<Rightarrow> snapshot \<Rightarrow> bool" where
  "recorded env j p sp rs s \<longleftrightarrow> (\<exists>res\<in>set rs. \<exists>a i. verified_copy env j p sp res = Some (a, i) \<and> snapshot_of j a i s)"

lemma recorded_iff: "recorded env j p sp rs s \<longleftrightarrow> (\<exists>res\<in>set rs. \<exists>a c. bp_backup p res = Inr a
    \<and> bp_verify p (a\<lparr>art_host := job_host j, art_plugin := job_plugin j\<rparr>) = None
    \<and> re_checksum env (art_path a) = Inr c
    \<and> sp_store sp (a\<lparr>art_host := job_host j, art_plugin := job_plugin j, art_checksum := c\<rparr>) = Inr (snap_id s)
    \<and> sp_verify sp (snap_id s) = None
    \<and> snap_jobId s = job_id j \<and> snap_host s = job_host j \<and> snap_plugin s = job_plugin j
    \<and> snap_size s = art_size a \<and> snap_checksum s = c)"
  unfolding recorded_def snapshot_of_def
  by (rule bex_cong [OF refl])
    (auto simp: verified_copy_def Let_def split: sum.splits if_splits option.splits)

lemma runs_snapshots: "resource_runs env j p sp v taken rs es ss oks \<Longrightarrow> s \<in> set ss \<Longrightarrow> recorded env j p sp rs s"
proof (induction rule: resource_runs.induct)
  case (runs_Cons res taken es ss' err rs es' ss'' oks)
  then show ?case by (auto simp: recorded_def resource_run_def)
qed (simp add: recorded_def)

lemma runs_kinds: "resource_runs env j p sp v taken rs es ss oks \<Longrightarrow> set (map event_kind es) \<subseteq> set (success_kinds v)"
  by (induction rule: resource_runs.induct) (auto simp: resource_run_def)

lemma runs_success:
  "resource_runs env j p sp v taken rs es ss oks \<Longrightarrow> filter Not oks = [] \<Longrightarrow>
    map event_kind es = concat (replicate (length rs) (success_kinds v)) \<and> length ss = length rs
    \<and> (\<forall>res\<in>set rs. fine env j p sp v res) \<and> map snap_id ss = concat (map (copy_id env j p sp) rs)"
proof (induction rule: resource_runs.induct)
  case (runs_Cons res taken es ss err rs es' ss' oks)
  then have "err = None" by (cases err) simp_all
  with runs_Cons show ?case by (auto simp: resource_run_def fine_def copy_id_def snapshot_of_def)
qed simp

lemma runs_all_fine:
  "resource_runs env j p sp v taken rs es ss oks \<Longrightarrow> works env \<Longrightarrow> \<forall>res\<in>set rs. fine env j p sp v res \<Longrightarrow>
    distinct (taken @ concat (map (copy_id env j p sp) rs)) \<Longrightarrow> filter Not oks = []"
proof (induction rule: resource_runs.induct)
  case (runs_Cons res taken es ss err rs es' ss' oks)
  obtain a i where c: "verified_copy env j p sp res = Some (a, i)" "restorable p res v a"
    using runs_Cons.prems(2) by (auto simp: fine_def)
  then have i: "copy_id env j p sp res = [i]" by (simp add: copy_id_def)
  with runs_Cons.prems(3) have "i \<notin> set taken" by auto
  with runs_Cons.hyps(1) runs_Cons.prems(1) c have "err = None" "map snap_id ss = [i]"
    by (auto simp: resource_run_def snapshot_of_def)
  with runs_Cons.IH runs_Cons.prems i show ?case by simp
qed simp

text \<open>With a working database a list of resources succeeds exactly if every one is fine and no snapshot id comes up twice.\<close>

lemma runs_success_iff:
  assumes "resource_runs env j p sp v taken rs es ss oks" "works env"
  shows "filter Not oks = [] \<longleftrightarrow> (\<forall>res\<in>set rs. fine env j p sp v res)
    \<and> distinct (concat (map (copy_id env j p sp) rs)) \<and> set (concat (map (copy_id env j p sp) rs)) \<inter> set taken = {}"
  using assms(1)
proof (induction rule: resource_runs.induct)
  case (runs_Cons res taken es ss err rs es' ss' oks)
  show ?case
  proof (cases err)
    case None
    with runs_Cons.hyps(1) obtain a i s where "verified_copy env j p sp res = Some (a, i)" "restorable p res v a"
      "ss = [s]" "snap_id s = i" "i \<notin> set taken"
      by (auto simp: resource_run_def snapshot_of_def)
    then have "fine env j p sp v res" "copy_id env j p sp res = [i]" "map snap_id ss = [i]" "i \<notin> set taken"
      by (simp_all add: fine_def copy_id_def)
    with None runs_Cons.IH show ?thesis by auto
  next
    case (Some e)
    have "\<not> fine env j p sp v res \<or> set (copy_id env j p sp res) \<inter> set taken \<noteq> {}"
      using runs_Cons.hyps(1) Some assms(2) by (auto simp: resource_run_def fine_def copy_id_def)
    with Some show ?thesis by auto
  qed
qed simp

section \<open>The pipeline of a job\<close>

text \<open>What a job works on, if the plugin can be configured and made, and lists its resources.\<close>

definition prepared :: "controller \<Rightarrow> run_env \<Rightarrow> job \<Rightarrow> inventory_server \<Rightarrow> plugin_factory
    \<Rightarrow> (backup_plugin \<times> resource list \<times> verification) option" where
  "prepared cn env j srv factory =
     (case resolvePluginConfig (re_request env) (re_settings env) (job_host j) (job_plugin j) srv of
        Inl e \<Rightarrow> None
      | Inr cfg \<Rightarrow> (case factory srv cfg of
          Inl e \<Rightarrow> None
        | Inr p \<Rightarrow> (case bp_discover p of
            Inl e \<Rightarrow> None
          | Inr rs \<Rightarrow> Some (p, rs, resolveVerification (cn_verification cn) (inv_verification srv)))))"

lemma joined_errors_None [simp]: "joined_errors errs = None \<longleftrightarrow> errs = []"
  by (simp add: joined_errors_def)

lemma runPipeline_unprepared:
  assumes "runPipeline cn env j srv factory sp w = (err, w')" "prepared cn env j srv factory = None"
  shows "err \<noteq> None \<and> w_temp w' = w_temp w
    \<and> (\<exists>es. adds env j es [] w w' \<and> set (map event_kind es) \<subseteq> {PluginDiscoveryStarted})"
  using assms adds_refl [of env j w] adds_publish [of env j PluginDiscoveryStarted "[]" "[]" w]
  by (fastforce simp: runPipeline_def prepared_def Let_def split: sum.splits)

lemma runPipeline_prepared:
  assumes "runPipeline cn env j srv factory sp w = (err, w')" "prepared cn env j srv factory = Some (p, rs, v)"
  shows "\<exists>new es ss oks. adds env j new ss w w'
      \<and> map event_kind new = [PluginDiscoveryStarted, PluginDiscoveryCompleted] @ map event_kind es
          @ (if sp_retention sp (job_host j) (job_policy j) = None then [RetentionApplied] else [])
      \<and> resource_runs env j p sp v (taken_ids w) rs es ss oks
      \<and> (err = None \<longleftrightarrow> filter Not oks = [] \<and> sp_retention sp (job_host j) (job_policy j) = None)
      \<and> ((\<forall>f. re_remove env f = None) \<longrightarrow> (\<forall>res a. bp_backup p res = Inr a \<longrightarrow> art_path a \<noteq> [] \<and> art_path a \<notin> set (w_temp w))
          \<longrightarrow> w_temp w' = w_temp w)"
proof -
  let ?w1 = "publish env j PluginDiscoveryStarted [] [] w"
  let ?c = "[(js ''resource_count'', nat_str (length rs))]"
  let ?w2 = "publish env j PluginDiscoveryCompleted [] ?c ?w1"
  let ?es2 = "[event_now env j PluginDiscoveryStarted [] [] w, event_now env j PluginDiscoveryCompleted [] ?c ?w1]"
  have w2: "adds env j ?es2 [] w ?w2" "w_temp ?w2 = w_temp w" by (simp_all add: adds_publish_then adds_publish)
  then have ids: "taken_ids ?w2 = taken_ids w" by (simp add: adds_def)
  obtain errs w3 where b: "backup_all env j p sp v rs ?w2 = (errs, w3)" by fastforce
  obtain es ss oks where r: "adds env j es ss ?w2 w3" "length errs = length (filter Not oks)"
    "resource_runs env j p sp v (taken_ids w) rs es ss oks"
    using backup_all_adds [OF b] unfolding ids by blast
  have w3: "adds env j (?es2 @ es) ss w w3" using adds_trans [OF w2(1) r(1)] by simp
  have errs: "errs = [] \<longleftrightarrow> filter Not oks = []" using r(2) by (metis length_0_conv)
  have temp: "w_temp w3 = w_temp w" if "\<forall>f. re_remove env f = None"
    "\<forall>res a. bp_backup p res = Inr a \<longrightarrow> art_path a \<noteq> [] \<and> art_path a \<notin> set (w_temp w)"
    using backup_all_temp [OF b] that w2(2) by simp
  have run: "(err, w') = (case sp_retention sp (job_host j) (job_policy j) of
      Some e \<Rightarrow> (joined_errors (errs @ [js ''apply retention: '' @ e]), w3)
    | None \<Rightarrow> (joined_errors errs, publish env j RetentionApplied [] [] w3))"
    using assms b by (auto simp: runPipeline_def prepared_def Let_def split: sum.splits)
  show ?thesis
  proof (cases "sp_retention sp (job_host j) (job_policy j)")
    case (Some e)
    with run have "err \<noteq> None" "w' = w3" by auto
    with Some w3 r(3) temp show ?thesis
      by (intro exI [of _ "?es2 @ es"] exI [of _ es] exI [of _ ss] exI [of _ oks]) simp
  next
    case None
    with run have e: "err = joined_errors errs" and w': "w' = publish env j RetentionApplied [] [] w3" by auto
    have "adds env j (?es2 @ es @ [event_now env j RetentionApplied [] [] w3]) ss w w'"
      using adds_trans [OF w3 adds_publish] by (simp add: w')
    with None r(3) temp errs e show ?thesis
      by (intro exI [of _ "?es2 @ es @ [event_now env j RetentionApplied [] [] w3]"] exI [of _ es] exI [of _ ss]
          exI [of _ oks]) (simp add: w')
  qed
qed

section \<open>The whole of RunJob\<close>

definition with_status :: "jsstr \<Rightarrow> job_status \<Rightarrow> job list \<Rightarrow> job list" where
  "with_status i st rows = map (\<lambda>r. if job_id r = i then r\<lparr>job_state := st\<rparr> else r) rows"

lemma with_status_again [simp]: "with_status i st (with_status i st' rows) = with_status i st rows"
  by (simp add: with_status_def)

lemma with_status_map [simp]: "map job_id (with_status i st rows) = map job_id rows"
  by (simp add: with_status_def)

lemma with_status_ids [simp]: "job_id ` set (with_status i st rows) = job_id ` set rows"
  using with_status_map by (metis set_map)

lemma set_status_effect:
  assumes "set_status env j st w = (err, w')"
  shows "w_log w' = w_log w" "w_temp w' = w_temp w" "tb_snapshots (w_tables w') = tb_snapshots (w_tables w)"
    "stored_events (w_tables w') = stored_events (w_tables w)"
    "tb_jobs (w_tables w') = (if err = None then with_status (job_id j) st (tb_jobs (w_tables w)) else tb_jobs (w_tables w))"
    "works env \<Longrightarrow> job_id j \<in> job_id ` set (tb_jobs (w_tables w)) \<Longrightarrow> err = None"
  using assms
  by (auto simp: set_status_def UpdateJobStatus_def with_status_def stored_events_def split: option.splits if_splits)

lemma publish_tables [simp]:
  "tb_jobs (w_tables (publish env j kind res fs w)) = tb_jobs (w_tables w)"
  "tb_snapshots (w_tables (publish env j kind res fs w)) = tb_snapshots (w_tables w)"
  "w_log (publish env j kind res fs w) = w_log w @ [event_now env j kind res fs w]"
  by (simp_all add: publish_def Let_def event_now_def)

lemma run_start_unfold:
  "run_start cn env j w = (let q = rq_quote (re_request env); (serr, w1) = set_status env j In_progress w in
     case (cn_servers cn (job_host j), cn_factories cn (job_plugin j), StorageFor cn q (job_host j)) of
       (Some srv, Some factory, Inr sp) \<Rightarrow> (case serr of
           Some e \<Rightarrow> (Inl (js ''controller: mark job '' @ job_id j @ js '' in_progress: '' @ error_text_of e), w1)
         | None \<Rightarrow> (Inr (srv, factory, sp), publish env j BackupStarted [] [] w1))
     | (None, _, _) \<Rightarrow> (Inl (js ''controller: host '' @ q (job_host j) @ js '' not found in inventory''), w)
     | (_, None, _) \<Rightarrow> (Inl (js ''controller: no plugin registered for '' @ q (job_plugin j)), w)
     | (_, _, Inl e) \<Rightarrow> (Inl e, w))"
  unfolding run_start_def Let_def by (auto split: option.split sum.split prod.split)

lemma run_start_refused:
  assumes "run_start cn env j w = (Inl e, w')"
  shows "w_log w' = w_log w" "w_temp w' = w_temp w" "tb_snapshots (w_tables w') = tb_snapshots (w_tables w)"
    "tb_jobs (w_tables w') = tb_jobs (w_tables w)"
proof -
  obtain serr w1 where s: "set_status env j In_progress w = (serr, w1)" by fastforce
  have "w' = w \<or> w' = w1 \<and> serr \<noteq> None"
    using assms unfolding run_start_unfold s Let_def by (auto split: option.splits sum.splits)
  with set_status_effect(1-3,5) [OF s]
  show "w_log w' = w_log w" "w_temp w' = w_temp w" "tb_snapshots (w_tables w') = tb_snapshots (w_tables w)"
    "tb_jobs (w_tables w') = tb_jobs (w_tables w)" by auto
qed

lemma run_start_taken:
  assumes "run_start cn env j w = (Inr (srv, factory, sp), w')"
  shows "cn_servers cn (job_host j) = Some srv" "cn_factories cn (job_plugin j) = Some factory"
    "StorageFor cn (rq_quote (re_request env)) (job_host j) = Inr sp"
    "w_temp w' = w_temp w" "tb_snapshots (w_tables w') = tb_snapshots (w_tables w)"
    "tb_jobs (w_tables w') = with_status (job_id j) In_progress (tb_jobs (w_tables w))"
    "\<exists>e. w_log w' = w_log w @ [e] \<and> event_kind e = BackupStarted"
proof -
  obtain serr w1 where s: "set_status env j In_progress w = (serr, w1)" by fastforce
  have *: "cn_servers cn (job_host j) = Some srv \<and> cn_factories cn (job_plugin j) = Some factory
      \<and> StorageFor cn (rq_quote (re_request env)) (job_host j) = Inr sp \<and> serr = None
      \<and> w' = publish env j BackupStarted [] [] w1"
    using assms unfolding run_start_unfold s Let_def by (auto split: option.splits sum.splits)
  then show "cn_servers cn (job_host j) = Some srv" "cn_factories cn (job_plugin j) = Some factory"
    "StorageFor cn (rq_quote (re_request env)) (job_host j) = Inr sp" by simp_all
  show "w_temp w' = w_temp w" "tb_snapshots (w_tables w') = tb_snapshots (w_tables w)"
    "tb_jobs (w_tables w') = with_status (job_id j) In_progress (tb_jobs (w_tables w))"
    "\<exists>e. w_log w' = w_log w @ [e] \<and> event_kind e = BackupStarted"
    using * set_status_effect(1-3,5) [OF s] by simp_all
qed

lemma run_finish_effect:
  assumes "run_finish env j err w = (r, w')"
  shows "w_temp w' = w_temp w" "tb_snapshots (w_tables w') = tb_snapshots (w_tables w)"
    "\<exists>e. w_log w' = w_log w @ [e] \<and> event_kind e = (if err = None then BackupCompleted else BackupFailed)"
    "r = None \<Longrightarrow> err = None \<and> tb_jobs (w_tables w') = with_status (job_id j) Completed (tb_jobs (w_tables w))"
    "works env \<Longrightarrow> job_id j \<in> job_id ` set (tb_jobs (w_tables w)) \<Longrightarrow> (r = None \<longleftrightarrow> err = None)
      \<and> tb_jobs (w_tables w') = with_status (job_id j) (if err = None then Completed else Failed) (tb_jobs (w_tables w))"
proof -
  let ?w1 = "(case err of None \<Rightarrow> publish env j BackupCompleted [] [] w
      | Some e \<Rightarrow> publish env j BackupFailed [] [(js ''error'', e)] w)"
  have w1: "w_temp ?w1 = w_temp w" "tb_snapshots (w_tables ?w1) = tb_snapshots (w_tables w)"
    "tb_jobs (w_tables ?w1) = tb_jobs (w_tables w)"
    "\<exists>e. w_log ?w1 = w_log w @ [e] \<and> event_kind e = (if err = None then BackupCompleted else BackupFailed)"
    by (simp_all split: option.split)
  obtain serr w2 where s: "set_status env j (if err = None then Completed else Failed) ?w1 = (serr, w2)" by fastforce
  note e = set_status_effect [OF s]
  have r: "w' = w2" "r = None \<longleftrightarrow> err = None \<and> serr = None"
    using assms s by (auto simp: run_finish_def Let_def split: option.splits)
  show "w_temp w' = w_temp w" "tb_snapshots (w_tables w') = tb_snapshots (w_tables w)"
    "\<exists>e. w_log w' = w_log w @ [e] \<and> event_kind e = (if err = None then BackupCompleted else BackupFailed)"
    using e(1-3) w1 by (simp_all only: r)
  show "err = None \<and> tb_jobs (w_tables w') = with_status (job_id j) Completed (tb_jobs (w_tables w))" if "r = None"
    using that e(5) w1(3) by (simp add: r)
  show "(r = None \<longleftrightarrow> err = None)
      \<and> tb_jobs (w_tables w') = with_status (job_id j) (if err = None then Completed else Failed) (tb_jobs (w_tables w))"
    if "works env" "job_id j \<in> job_id ` set (tb_jobs (w_tables w))"
    using that e(5,6) w1(3) by (simp add: r)
qed

text \<open>Either the job is refused, or it goes through its three phases.\<close>

lemma RunJob_cases:
  assumes "RunJob cn env j w = (r, w')"
  obtains (refused) e where "run_start cn env j w = (Inl e, w')" "r = Some e"
  | (run) srv factory sp w1 err w2 where "run_start cn env j w = (Inr (srv, factory, sp), w1)"
    "runPipeline cn env j srv factory sp w1 = (err, w2)" "run_finish env j err w2 = (r, w')"
  using assms by (auto simp: RunJob_def split: prod.splits sum.splits)

lemma runPipeline_jobs:
  assumes "runPipeline cn env j srv factory sp w = (err, w')"
  shows "\<exists>es ss. adds env j es ss w w'"
proof (cases "prepared cn env j srv factory")
  case None
  with runPipeline_unprepared [OF assms] show ?thesis by blast
next
  case (Some x)
  obtain p rs v where x: "x = (p, rs, v)" by (cases x)
  show ?thesis using runPipeline_prepared [OF assms Some [unfolded x]] by blast
qed

lemma RunJob_jobs:
  assumes "RunJob cn env j w = (r, w')" "run_start cn env j w = (Inr (srv, factory, sp), w1)"
    and "runPipeline cn env j srv factory sp w1 = (err, w2)"
  shows "run_finish env j err w2 = (r, w')"
    and "tb_jobs (w_tables w2) = with_status (job_id j) In_progress (tb_jobs (w_tables w))"
proof -
  show "run_finish env j err w2 = (r, w')" using assms by (simp add: RunJob_def)
  obtain es ss where "adds env j es ss w1 w2" using runPipeline_jobs [OF assms(3)] by blast
  then show "tb_jobs (w_tables w2) = with_status (job_id j) In_progress (tb_jobs (w_tables w))"
    using run_start_taken(6) [OF assms(2)] by (simp add: adds_def)
qed

lemma run_start_works:
  assumes "works env" "job_id j \<in> job_id ` set (tb_jobs (w_tables w))"
    and "cn_servers cn (job_host j) = Some srv" "cn_factories cn (job_plugin j) = Some factory"
    and "StorageFor cn (rq_quote (re_request env)) (job_host j) = Inr sp"
  shows "\<exists>w1. run_start cn env j w = (Inr (srv, factory, sp), w1)"
proof -
  obtain serr w1 where s: "set_status env j In_progress w = (serr, w1)" by fastforce
  then have "serr = None" by (rule set_status_effect(6)) (rule assms(1,2))+
  with s assms(3-5) show ?thesis by (simp add: run_start_unfold Let_def)
qed

lemma run_outcome:
  assumes "works env" "job_id j \<in> job_id ` set (tb_jobs (w_tables w))"
    and "cn_servers cn (job_host j) = Some srv" "cn_factories cn (job_plugin j) = Some factory"
    and "StorageFor cn (rq_quote (re_request env)) (job_host j) = Inr sp" "RunJob cn env j w = (r, w')"
  shows "r = None \<longleftrightarrow> (\<exists>p rs v. prepared cn env j srv factory = Some (p, rs, v) \<and> (\<forall>res\<in>set rs. fine env j p sp v res)
      \<and> distinct (concat (map (copy_id env j p sp) rs))
      \<and> set (concat (map (copy_id env j p sp) rs)) \<inter> set (taken_ids w) = {}
      \<and> sp_retention sp (job_host j) (job_policy j) = None)"
    and "tb_jobs (w_tables w') = with_status (job_id j) (if r = None then Completed else Failed) (tb_jobs (w_tables w))"
proof -
  obtain w1 where start: "run_start cn env j w = (Inr (srv, factory, sp), w1)"
    using run_start_works [OF assms(1-5)] by blast
  note t = run_start_taken [OF start]
  obtain err w2 where pipe: "runPipeline cn env j srv factory sp w1 = (err, w2)" by fastforce
  note fin = RunJob_jobs [OF assms(6) start pipe]
  have "job_id j \<in> job_id ` set (tb_jobs (w_tables w2))" using assms(2) by (simp add: fin(2))
  note f = run_finish_effect(5) [OF fin(1) assms(1) this]
  have "err = None \<longleftrightarrow> (\<exists>p rs v. prepared cn env j srv factory = Some (p, rs, v) \<and> (\<forall>res\<in>set rs. fine env j p sp v res)
      \<and> distinct (concat (map (copy_id env j p sp) rs))
      \<and> set (concat (map (copy_id env j p sp) rs)) \<inter> set (taken_ids w) = {}
      \<and> sp_retention sp (job_host j) (job_policy j) = None)"
  proof (cases "prepared cn env j srv factory")
    case None
    with runPipeline_unprepared [OF pipe] show ?thesis by simp
  next
    case (Some x)
    obtain p rs v where "x = (p, rs, v)" by (cases x)
    with Some have prep: "prepared cn env j srv factory = Some (p, rs, v)" by simp
    obtain es ss oks where runs: "resource_runs env j p sp v (taken_ids w1) rs es ss oks"
      and err: "err = None \<longleftrightarrow> filter Not oks = [] \<and> sp_retention sp (job_host j) (job_policy j) = None"
      using runPipeline_prepared [OF pipe prep] by blast
    from err runs_success_iff [OF runs assms(1)] show ?thesis by (auto simp: prep t(5))
  qed
  with f fin(2)
  show "r = None \<longleftrightarrow> (\<exists>p rs v. prepared cn env j srv factory = Some (p, rs, v) \<and> (\<forall>res\<in>set rs. fine env j p sp v res)
      \<and> distinct (concat (map (copy_id env j p sp) rs))
      \<and> set (concat (map (copy_id env j p sp) rs)) \<inter> set (taken_ids w) = {}
      \<and> sp_retention sp (job_host j) (job_policy j) = None)"
    and "tb_jobs (w_tables w') = with_status (job_id j) (if r = None then Completed else Failed) (tb_jobs (w_tables w))"
    by simp_all
qed

lemma run_unresolved:
  assumes "cn_servers cn (job_host j) = None \<or> cn_factories cn (job_plugin j) = None
      \<or> (\<exists>e. StorageFor cn (rq_quote (re_request env)) (job_host j) = Inl e)" "RunJob cn env j w = (r, w')"
  shows "r \<noteq> None \<and> w' = w"
  using assms by (auto simp: RunJob_def run_start_def Let_def split: option.splits sum.splits prod.splits)

section \<open>Samples\<close>

text \<open>A controller with one host whose plugin has one resource, and a job for it.\<close>

definition sample_plugin :: backup_plugin where
  "sample_plugin = \<lparr>bp_discover = Inr [\<lparr>res_id = js ''db'', res_name = js ''db''\<rparr>],
     bp_backup = (\<lambda>r. Inr \<lparr>art_resource = res_id r, art_host = [], art_plugin = [], art_path = js ''/tmp/x'',
       art_size = 1, art_checksum = []\<rparr>), bp_verify = (\<lambda>_. None), bp_restore = (\<lambda>_. None)\<rparr>"

definition sample_storage :: storage_provider where
  "sample_storage = \<lparr>sp_store = (\<lambda>_. Inr (js ''snap'')), sp_verify = (\<lambda>_. None), sp_retention = (\<lambda>_ _. None)\<rparr>"

definition sample_controller :: controller where
  "sample_controller = \<lparr>cn_servers = sample_servers, cn_factories = (\<lambda>_. Some (\<lambda>_ _. Inr sample_plugin)),
     cn_storage = sample_storage, cn_storages = (\<lambda>_. None), cn_verification = \<lparr>vf_enabled = True, vf_targetDir = []\<rparr>\<rparr>"

definition sample_env :: run_env where
  "sample_env = \<lparr>re_request = sample_request, re_settings = (\<lambda>_. None),
     re_db = (\<lambda>_. \<lparr>db_error = None, db_unique = (\<lambda>_. []), db_json = (\<lambda>_. []), db_time = (\<lambda>_. 0)\<rparr>),
     re_now = (\<lambda>_. []), re_checksum = (\<lambda>_. Inr (js ''sha256:0'')), re_remove = (\<lambda>_. None)\<rparr>"

definition queued_job :: job where
  "queued_job = NewJob sample_request (js ''db1'') (js ''postgres'')
     \<lparr>policy_daily = 7, policy_weekly = 0, policy_monthly = 0, policy_yearly = 0\<rparr>"

definition queued_world :: world where
  "queued_world = \<lparr>w_tables = no_rows\<lparr>tb_jobs := [queued_job]\<rparr>, w_temp = [], w_clock = 0, w_log = []\<rparr>"

lemma sample_run:
  "works sample_env" "job_id queued_job \<in> job_id ` set (tb_jobs (w_tables queued_world))"
  "StorageFor sample_controller (rq_quote (re_request sample_env)) (job_host queued_job) = Inr sample_storage"
  "\<exists>srv. cn_servers sample_controller (job_host queued_job) = Some srv \<and> inv_verification srv = None
     \<and> prepared sample_controller sample_env queued_job srv (\<lambda>_ _. Inr sample_plugin)
       = Some (sample_plugin, [\<lparr>res_id = js ''db'', res_name = js ''db''\<rparr>], \<lparr>vf_enabled = True, vf_targetDir = []\<rparr>)"
  "cn_factories sample_controller (job_plugin queued_job) = Some (\<lambda>_ _. Inr sample_plugin)"
  "taken_ids queued_world = []" "copy_id sample_env queued_job sample_plugin sample_storage res = [js ''snap'']"
  "fine sample_env queued_job sample_plugin sample_storage v res"
  "sp_retention sample_storage (job_host queued_job) (job_policy queued_job) = None"
  "w_temp queued_world = []" "re_remove sample_env f = None" "w_log queued_world = []"
  by (simp_all add: works_def sample_env_def queued_world_def no_rows_def StorageFor_def sample_controller_def
      sample_servers_def queued_job_def prepared_def resolvePluginConfig_def sample_request_def sample_plugin_def
      resolveVerification_def copy_id_def verified_copy_def sample_storage_def fine_def restorable_def Let_def)

lemma sample_RunJob: "\<exists>w'. RunJob sample_controller sample_env queued_job queued_world = (None, w')"
proof -
  obtain r w' where run: "RunJob sample_controller sample_env queued_job queued_world = (r, w')" by fastforce
  from sample_run(4) obtain srv where srv: "cn_servers sample_controller (job_host queued_job) = Some srv"
    "prepared sample_controller sample_env queued_job srv (\<lambda>_ _. Inr sample_plugin)
       = Some (sample_plugin, [\<lparr>res_id = js ''db'', res_name = js ''db''\<rparr>], \<lparr>vf_enabled = True, vf_targetDir = []\<rparr>)" by blast
  from run_outcome(1) [OF sample_run(1,2) srv(1) sample_run(5,3) run] run show ?thesis
    by (simp add: sample_run srv(2))
qed

lemma sample_recorded:
  assumes "RunJob sample_controller sample_env queued_job queued_world = (None, w')"
  shows "tb_snapshots (w_tables w') \<noteq> []"
proof (rule RunJob_cases [OF assms])
  fix srv factory sp w1 err w2
  assume start: "run_start sample_controller sample_env queued_job queued_world = (Inr (srv, factory, sp), w1)"
    and pipe: "runPipeline sample_controller sample_env queued_job srv factory sp w1 = (err, w2)"
    and fin: "run_finish sample_env queued_job err w2 = (None, w')"
  note t = run_start_taken [OF start] and f = run_finish_effect [OF fin]
  have err: "err = None" using f(4) by simp
  from t(1,2) sample_run(4,5) obtain v where prep: "prepared sample_controller sample_env queued_job srv factory
      = Some (sample_plugin, [\<lparr>res_id = js ''db'', res_name = js ''db''\<rparr>], v)" by auto
  obtain new es ss oks where "adds sample_env queued_job new ss w1 w2" "filter Not oks = []"
    "resource_runs sample_env queued_job sample_plugin sp v (taken_ids w1) [\<lparr>res_id = js ''db'', res_name = js ''db''\<rparr>] es ss oks"
    using runPipeline_prepared [OF pipe prep] err by blast
  with runs_success have "length ss = 1" "tb_snapshots (w_tables w2) = tb_snapshots (w_tables w1) @ ss"
    by (fastforce simp: adds_def)+
  then show ?thesis by (auto simp: f(2))
qed simp

text \<open>The same controller with a storage that takes every artifact and confirms none.\<close>

definition broken_controller :: controller where
  "broken_controller = sample_controller\<lparr>cn_storage := sample_storage\<lparr>sp_verify := (\<lambda>_. Some (js ''damaged''))\<rparr>\<rparr>"

section \<open>Seal of a run\<close>

definition run_tier :: "controller \<Rightarrow> run_env \<Rightarrow> job \<Rightarrow> inventory_server \<Rightarrow> plugin_factory \<Rightarrow> jsstr option \<Rightarrow> seal_tier" where
  "run_tier cn env j srv factory err =
     (if err \<noteq> None then FailedTier
      else (case prepared cn env j srv factory of
          None \<Rightarrow> NoTier
        | Some (p, rs, v) \<Rightarrow> if rs = [] then NoTier else if vf_enabled v then Restored else StorageTier))"

lemma success_kinds_set: "set (concat (replicate n (success_kinds v))) = (if n = 0 then {} else set (success_kinds v))"
  by (auto simp: set_replicate_conv_if)

lemma seal_of_run:
  assumes "runPipeline cn env j srv factory sp w1 = (err, w2)" "run_finish env j err w2 = (r, w')"
    and "w_log w1 = w_log w @ [b]" "event_kind b = BackupStarted"
  shows "\<exists>es. w_log w' = w_log w @ es \<and> sealTierForEvents es = run_tier cn env j srv factory err"
proof -
  obtain e where e: "w_log w' = w_log w2 @ [e]" "event_kind e = (if err = None then BackupCompleted else BackupFailed)"
    using run_finish_effect(3) [OF assms(2)] by blast
  obtain es ss where es: "adds env j es ss w1 w2" using runPipeline_jobs [OF assms(1)] by blast
  then have log: "w_log w' = w_log w @ ([b] @ es @ [e])" using assms(3) e(1) by (simp add: adds_def)
  show ?thesis
  proof (cases err)
    case (Some m)
    then have "BackupFailed \<in> event_kind ` set ([b] @ es @ [e])" using e(2) by simp
    then have "sealTierForEvents ([b] @ es @ [e]) = FailedTier" by (simp only: sealTierForEvents_def list.set_map Let_def if_True)
    with Some log show ?thesis by (auto simp: run_tier_def)
  next
    case None
    then obtain p rs v where prep: "prepared cn env j srv factory = Some (p, rs, v)"
      using runPipeline_unprepared [OF assms(1)] by (cases "prepared cn env j srv factory") auto
    obtain new fs ts oks where new: "adds env j new ts w1 w2"
      "map event_kind new = [PluginDiscoveryStarted, PluginDiscoveryCompleted] @ map event_kind fs
        @ (if sp_retention sp (job_host j) (job_policy j) = None then [RetentionApplied] else [])"
      "resource_runs env j p sp v (taken_ids w1) rs fs ts oks" "filter Not oks = []"
      using runPipeline_prepared [OF assms(1) prep] None by blast
    have "new = es" using new(1) es by (simp add: adds_def)
    with new(2) runs_success [OF new(3,4)] have kinds: "event_kind ` set es = {PluginDiscoveryStarted, PluginDiscoveryCompleted}
        \<union> (if rs = [] then {} else set (success_kinds v))
        \<union> (if sp_retention sp (job_host j) (job_policy j) = None then {RetentionApplied} else {})"
      unfolding list.set_map [symmetric]
      by (cases "sp_retention sp (job_host j) (job_policy j)") (auto simp: success_kinds_set)
    then have "sealTierForEvents ([b] @ es @ [e]) = (if rs = [] then NoTier else if vf_enabled v then Restored else StorageTier)"
      using e(2) assms(4) None by (simp add: sealTierForEvents_def success_kinds_def)
    with log None prep show ?thesis by (auto simp: run_tier_def)
  qed
qed

section \<open>Properties\<close>

text \<open>
  C18. What a completed job means. If \<open>RunJob\<close> ends without an error, then the plugin was configured
  and listed its resources, and every one of them was backed up, passed the plugin's check, was
  uploaded, passed the check in storage and, where restore tests are on, was restored; exactly one
  snapshot was recorded for each, in that order, retention was applied, and the job is marked
  completed.
\<close>

theorem completed_job_is_backed_up:
  assumes "RunJob cn env j w = (None, w')"
  shows "\<exists>srv factory sp p rs v ss. cn_servers cn (job_host j) = Some srv \<and> cn_factories cn (job_plugin j) = Some factory
    \<and> StorageFor cn (rq_quote (re_request env)) (job_host j) = Inr sp \<and> prepared cn env j srv factory = Some (p, rs, v)
    \<and> (\<forall>res\<in>set rs. fine env j p sp v res)
    \<and> tb_snapshots (w_tables w') = tb_snapshots (w_tables w) @ ss
    \<and> map snap_id ss = concat (map (copy_id env j p sp) rs) \<and> length ss = length rs
    \<and> (\<forall>s\<in>set ss. recorded env j p sp rs s)
    \<and> sp_retention sp (job_host j) (job_policy j) = None
    \<and> tb_jobs (w_tables w') = with_status (job_id j) Completed (tb_jobs (w_tables w))"
proof (rule RunJob_cases [OF assms])
  fix e
  assume "None = Some e"
  then show ?thesis by simp
next
  fix srv factory sp w1 err w2
  assume start: "run_start cn env j w = (Inr (srv, factory, sp), w1)"
    and pipe: "runPipeline cn env j srv factory sp w1 = (err, w2)" and fin: "run_finish env j err w2 = (None, w')"
  note t = run_start_taken [OF start] and f = run_finish_effect [OF fin]
  have err: "err = None" using f(4) by simp
  then obtain p rs v where prep: "prepared cn env j srv factory = Some (p, rs, v)"
    using runPipeline_unprepared [OF pipe] by (cases "prepared cn env j srv factory") auto
  obtain new es ss oks where a: "adds env j new ss w1 w2" and runs: "resource_runs env j p sp v (taken_ids w1) rs es ss oks"
    and ok: "filter Not oks = []" "sp_retention sp (job_host j) (job_policy j) = None"
    using runPipeline_prepared [OF pipe prep] err by blast
  note s = runs_success [OF runs ok(1)]
  have "\<forall>s\<in>set ss. recorded env j p sp rs s" using runs_snapshots [OF runs] by blast
  moreover have "tb_snapshots (w_tables w') = tb_snapshots (w_tables w) @ ss"
    using a f(2) t(5) by (simp add: adds_def)
  moreover have "tb_jobs (w_tables w') = with_status (job_id j) Completed (tb_jobs (w_tables w))"
    using f(4) RunJob_jobs(2) [OF assms start pipe] by simp
  ultimately show ?thesis using t(1-3) prep s ok(2) by blast
qed

theorem completed_job_is_backed_up_witness:
  "\<exists>w'. RunJob sample_controller sample_env queued_job queued_world = (None, w') \<and> length (tb_snapshots (w_tables w')) = 1"
proof -
  obtain w' where w': "RunJob sample_controller sample_env queued_job queued_world = (None, w')" using sample_RunJob by blast
  obtain srv where "cn_servers sample_controller (job_host queued_job) = Some srv"
    "prepared sample_controller sample_env queued_job srv (\<lambda>_ _. Inr sample_plugin)
       = Some (sample_plugin, [\<lparr>res_id = js ''db'', res_name = js ''db''\<rparr>], \<lparr>vf_enabled = True, vf_targetDir = []\<rparr>)"
    using sample_run(4) by blast
  with completed_job_is_backed_up [OF w'] have "length (tb_snapshots (w_tables w')) = length (tb_snapshots (w_tables queued_world)) + 1"
    by (auto simp: sample_run(5))
  with w' show ?thesis by (simp add: queued_world_def no_rows_def)
qed

text \<open>
  C19. Only verified snapshots are ever recorded. However a run ends, with whatever failures of the
  plugin, the storage or the database, every snapshot it added is of a resource whose artifact
  passed the plugin's check and whose stored copy passed the check in storage, under the id it was
  stored with and the checksum of that artifact; what was recorded before stays. A copy that is in
  storage but fails the check there has no row: the code checks before it records, where
  \<open>docs/02-architecture.md\<close> (steps 9 and 10) and the comment of \<open>backupResource\<close> name the two in the
  opposite order.
\<close>

theorem snapshots_are_verified:
  assumes "RunJob cn env j w = (r, w')"
  shows "\<exists>ss. tb_snapshots (w_tables w') = tb_snapshots (w_tables w) @ ss
    \<and> (ss \<noteq> [] \<longrightarrow> (\<exists>srv factory sp p rs v. cn_servers cn (job_host j) = Some srv
        \<and> StorageFor cn (rq_quote (re_request env)) (job_host j) = Inr sp
        \<and> prepared cn env j srv factory = Some (p, rs, v)
        \<and> (\<forall>s\<in>set ss. \<exists>res\<in>set rs. \<exists>a c. bp_backup p res = Inr a
            \<and> bp_verify p (a\<lparr>art_host := job_host j, art_plugin := job_plugin j\<rparr>) = None
            \<and> re_checksum env (art_path a) = Inr c
            \<and> sp_store sp (a\<lparr>art_host := job_host j, art_plugin := job_plugin j, art_checksum := c\<rparr>) = Inr (snap_id s)
            \<and> sp_verify sp (snap_id s) = None
            \<and> snap_jobId s = job_id j \<and> snap_host s = job_host j \<and> snap_plugin s = job_plugin j
            \<and> snap_size s = art_size a \<and> snap_checksum s = c)))"
proof (rule RunJob_cases [OF assms])
  fix e
  assume "run_start cn env j w = (Inl e, w')"
  from run_start_refused(3) [OF this] show ?thesis by (intro exI [of _ "[]"]) simp
next
  fix srv factory sp w1 err w2
  assume start: "run_start cn env j w = (Inr (srv, factory, sp), w1)"
    and pipe: "runPipeline cn env j srv factory sp w1 = (err, w2)" and fin: "run_finish env j err w2 = (r, w')"
  note t = run_start_taken [OF start] and f = run_finish_effect [OF fin]
  show ?thesis
  proof (cases "prepared cn env j srv factory")
    case None
    with runPipeline_unprepared [OF pipe] f(2) t(5) show ?thesis by (intro exI [of _ "[]"]) (auto simp: adds_def)
  next
    case (Some x)
    obtain p rs v where "x = (p, rs, v)" by (cases x)
    with Some have prep: "prepared cn env j srv factory = Some (p, rs, v)" by simp
    obtain new es ss oks where a: "adds env j new ss w1 w2" and runs: "resource_runs env j p sp v (taken_ids w1) rs es ss oks"
      using runPipeline_prepared [OF pipe prep] by blast
    have "\<forall>s\<in>set ss. recorded env j p sp rs s" using runs_snapshots [OF runs] by blast
    note rows = this [unfolded recorded_iff]
    have "tb_snapshots (w_tables w') = tb_snapshots (w_tables w) @ ss"
      using a f(2) t(5) by (simp add: adds_def)
    with rows t(1,3) prep show ?thesis by blast
  qed
qed

theorem snapshots_are_verified_witness:
  "(\<exists>w' s. RunJob sample_controller sample_env queued_job queued_world = (None, w')
     \<and> s \<in> set (tb_snapshots (w_tables w')) \<and> snap_id s = js ''snap'')
   \<and> (\<exists>r w'. RunJob broken_controller sample_env queued_job queued_world = (r, w') \<and> tb_snapshots (w_tables w') = [])"
proof -
  have none: "tb_snapshots (w_tables queued_world) = []" by (simp add: queued_world_def no_rows_def)
  obtain w' where ok: "RunJob sample_controller sample_env queued_job queued_world = (None, w')"
    using sample_RunJob by blast
  then obtain s where s: "s \<in> set (tb_snapshots (w_tables w'))" using sample_recorded by fastforce
  then have "\<exists>a. sp_store sample_storage a = Inr (snap_id s)"
    using snapshots_are_verified [OF ok] sample_run(3) unfolding none append_Nil by auto
  then have id: "snap_id s = js ''snap''" by (simp add: sample_storage_def)
  obtain r u where run: "RunJob broken_controller sample_env queued_job queued_world = (r, u)" by fastforce
  have "StorageFor broken_controller (rq_quote (re_request sample_env)) (job_host queued_job) = Inr sp
      \<Longrightarrow> sp_verify sp i \<noteq> None" for sp i
    by (auto simp: StorageFor_def broken_controller_def sample_controller_def sample_servers_def split: option.splits if_splits)
  then have "tb_snapshots (w_tables u) = []"
    using snapshots_are_verified [OF run] unfolding none append_Nil by (metis list.set_intros(1) neq_Nil_conv)
  with ok s id run show ?thesis by blast
qed

text \<open>
  C20. What a run makes of its job, on every path, when the statements of the database succeed and
  the job is in the table. A job whose host, plugin or storage the controller does not know is
  refused with an error, and nothing changes: it stays in the table as it was. Any other job ends, and
  no other job is touched: it is completed exactly when the plugin could be configured and listed its
  resources, every resource is fine (backed up, checked, uploaded, confirmed, and restored where
  restore tests are on), no two copies share a snapshot id and none has an id that is taken, and
  retention could be applied; otherwise it is failed.
\<close>

theorem job_outcome_exact:
  assumes "works env" "job_id j \<in> job_id ` set (tb_jobs (w_tables w))" "RunJob cn env j w = (r, w')"
  shows "(cn_servers cn (job_host j) = None \<or> cn_factories cn (job_plugin j) = None
        \<or> (\<exists>e. StorageFor cn (rq_quote (re_request env)) (job_host j) = Inl e) \<longrightarrow> r \<noteq> None \<and> w' = w)
    \<and> (cn_servers cn (job_host j) = Some srv \<and> cn_factories cn (job_plugin j) = Some factory
        \<and> StorageFor cn (rq_quote (re_request env)) (job_host j) = Inr sp \<longrightarrow>
      tb_jobs (w_tables w') = map (\<lambda>k. if job_id k = job_id j
          then k\<lparr>job_state := if r = None then Completed else Failed\<rparr> else k) (tb_jobs (w_tables w))
      \<and> (r = None \<longleftrightarrow> (\<exists>p rs v. prepared cn env j srv factory = Some (p, rs, v) \<and> (\<forall>res\<in>set rs. fine env j p sp v res)
          \<and> distinct (concat (map (copy_id env j p sp) rs))
          \<and> set (concat (map (copy_id env j p sp) rs)) \<inter> set (taken_ids w) = {}
          \<and> sp_retention sp (job_host j) (job_policy j) = None)))"
proof (intro conjI impI; (elim conjE)?)
  assume "cn_servers cn (job_host j) = None \<or> cn_factories cn (job_plugin j) = None
      \<or> (\<exists>e. StorageFor cn (rq_quote (re_request env)) (job_host j) = Inl e)"
  from run_unresolved [OF this assms(3)] show "r \<noteq> None" "w' = w" by simp_all
next
  assume known: "cn_servers cn (job_host j) = Some srv" "cn_factories cn (job_plugin j) = Some factory"
    "StorageFor cn (rq_quote (re_request env)) (job_host j) = Inr sp"
  note out = run_outcome [OF assms(1,2) known assms(3)]
  show "tb_jobs (w_tables w') = map (\<lambda>k. if job_id k = job_id j
      then k\<lparr>job_state := if r = None then Completed else Failed\<rparr> else k) (tb_jobs (w_tables w))"
    using out(2) unfolding with_status_def .
  show "r = None \<longleftrightarrow> (\<exists>p rs v. prepared cn env j srv factory = Some (p, rs, v) \<and> (\<forall>res\<in>set rs. fine env j p sp v res)
      \<and> distinct (concat (map (copy_id env j p sp) rs))
      \<and> set (concat (map (copy_id env j p sp) rs)) \<inter> set (taken_ids w) = {}
      \<and> sp_retention sp (job_host j) (job_policy j) = None)" by (rule out(1))
qed

theorem job_outcome_exact_witness:
  "\<exists>w'. RunJob sample_controller sample_env queued_job queued_world = (None, w')
     \<and> tb_jobs (w_tables w') = [queued_job\<lparr>job_state := Completed\<rparr>]"
proof -
  obtain r w' where run: "RunJob sample_controller sample_env queued_job queued_world = (r, w')" by fastforce
  from sample_run(4) obtain srv where srv: "cn_servers sample_controller (job_host queued_job) = Some srv"
    "prepared sample_controller sample_env queued_job srv (\<lambda>_ _. Inr sample_plugin)
       = Some (sample_plugin, [\<lparr>res_id = js ''db'', res_name = js ''db''\<rparr>], \<lparr>vf_enabled = True, vf_targetDir = []\<rparr>)" by blast
  note out = job_outcome_exact [OF sample_run(1,2) run, of srv "\<lambda>_ _. Inr sample_plugin" sample_storage]
  have "r = None" using out srv sample_run(3,5) by (simp add: sample_run)
  with out srv(1) sample_run(3,5) run show ?thesis
    by (simp add: queued_world_def no_rows_def)
qed

text \<open>
  The seal of the console tells the truth about a run. For a job that was picked up, the seal of
  the events it published is Failed exactly when its pipeline failed; if not, it is Restore-tested or
  Storage integrity confirmed, as restore tests are on or off for that host, and empty when there was
  nothing to back up.
\<close>

theorem seal_tells_outcome:
  assumes "run_start cn env j w = (Inr (srv, factory, sp), w1)" "runPipeline cn env j srv factory sp w1 = (err, w2)"
    and "RunJob cn env j w = (r, w')"
  shows "sealTierForEvents (drop (length (w_log w)) (w_log w')) = run_tier cn env j srv factory err"
proof -
  obtain b where b: "w_log w1 = w_log w @ [b]" "event_kind b = BackupStarted"
    using run_start_taken(7) [OF assms(1)] by blast
  from seal_of_run [OF assms(2) RunJob_jobs(1) [OF assms(3,1,2)] b] show ?thesis by auto
qed

theorem seal_tells_outcome_witness:
  "\<exists>w'. RunJob sample_controller sample_env queued_job queued_world = (None, w') \<and> sealTierForEvents (w_log w') = Restored"
proof -
  obtain w' where run: "RunJob sample_controller sample_env queued_job queued_world = (None, w')" using sample_RunJob by blast
  from sample_run(4) obtain srv where srv: "cn_servers sample_controller (job_host queued_job) = Some srv"
    "prepared sample_controller sample_env queued_job srv (\<lambda>_ _. Inr sample_plugin)
       = Some (sample_plugin, [\<lparr>res_id = js ''db'', res_name = js ''db''\<rparr>], \<lparr>vf_enabled = True, vf_targetDir = []\<rparr>)" by blast
  obtain w1 where start: "run_start sample_controller sample_env queued_job queued_world
      = (Inr (srv, \<lambda>_ _. Inr sample_plugin, sample_storage), w1)"
    using run_start_works [OF sample_run(1,2) srv(1) sample_run(5,3)] by blast
  obtain err w2 where pipe: "runPipeline sample_controller sample_env queued_job srv (\<lambda>_ _. Inr sample_plugin) sample_storage w1 = (err, w2)"
    by fastforce
  have "err = None" using run_finish_effect(4) [OF RunJob_jobs(1) [OF run start pipe]] by simp
  with seal_tells_outcome [OF start pipe run] run show ?thesis by (auto simp: run_tier_def srv(2) sample_run(12))
qed

text \<open>
  C29. A run leaves no artifact on disk: whatever fails, and wherever, the files a plugin wrote are
  removed again, provided they can be and were new.
\<close>

theorem no_artifact_left:
  assumes "RunJob cn env j w = (r, w')" "\<forall>f. re_remove env f = None"
    and "\<forall>srv factory p rs v res a. cn_factories cn (job_plugin j) = Some factory \<and> prepared cn env j srv factory = Some (p, rs, v)
      \<and> bp_backup p res = Inr a \<longrightarrow> art_path a \<noteq> [] \<and> art_path a \<notin> set (w_temp w)"
  shows "w_temp w' = w_temp w"
proof (rule RunJob_cases [OF assms(1)])
  fix e
  assume "run_start cn env j w = (Inl e, w')"
  then show ?thesis by (rule run_start_refused(2))
next
  fix srv factory sp w1 err w2
  assume start: "run_start cn env j w = (Inr (srv, factory, sp), w1)"
    and pipe: "runPipeline cn env j srv factory sp w1 = (err, w2)" and fin: "run_finish env j err w2 = (r, w')"
  have "w_temp w2 = w_temp w1"
  proof (cases "prepared cn env j srv factory")
    case None
    with runPipeline_unprepared [OF pipe] show ?thesis by blast
  next
    case (Some x)
    obtain p rs v where "x = (p, rs, v)" by (cases x)
    with Some have prep: "prepared cn env j srv factory = Some (p, rs, v)" by simp
    then have "\<forall>res a. bp_backup p res = Inr a \<longrightarrow> art_path a \<noteq> [] \<and> art_path a \<notin> set (w_temp w1)"
      using assms(3) run_start_taken(2,4) [OF start] by fastforce
    with runPipeline_prepared [OF pipe prep] assms(2) show ?thesis by blast
  qed
  with run_start_taken(4) [OF start] run_finish_effect(1) [OF fin] show ?thesis by simp
qed

theorem no_artifact_left_witness:
  "\<exists>w'. RunJob sample_controller sample_env queued_job queued_world = (None, w') \<and> w_temp w' = []"
proof -
  obtain w' where run: "RunJob sample_controller sample_env queued_job queued_world = (None, w')" using sample_RunJob by blast
  have "w_temp w' = w_temp queued_world"
  proof (rule no_artifact_left [OF run])
    show "\<forall>f. re_remove sample_env f = None" by (simp add: sample_run(11))
    show "\<forall>srv factory p rs v res a. cn_factories sample_controller (job_plugin queued_job) = Some factory
        \<and> prepared sample_controller sample_env queued_job srv factory = Some (p, rs, v)
        \<and> bp_backup p res = Inr a \<longrightarrow> art_path a \<noteq> [] \<and> art_path a \<notin> set (w_temp queued_world)"
      by (auto simp: sample_run(5,10) prepared_def sample_plugin_def js_Cons split: sum.splits)
  qed
  with run show ?thesis by (auto simp: sample_run(10))
qed

end
