(* ===== verification/Lifecycle.thy ===== *)
theory Lifecycle
  imports Pipeline
begin

text \<open>
  The life of a job in the controller process (\<open>internal/scheduler\<close>, \<open>internal/queue\<close> and
  \<open>internal/cli/wiring.go\<close>, in Go): created by a schedule or over the API, kept in the in-memory
  queue, run by the single consumer, and recovered from the tables when the process starts again.
  A run is taken in the three parts of \<open>Pipeline\<close>, so that jobs are created while another is
  running and the process may stop in between. The pipeline of a run is one step: the rows a crash
  in its middle leaves are those of a step whose statements fail from that point on, with the crash
  after it; an artifact such a crash leaves on disk is not in the model.
\<close>

section \<open>The process\<close>

datatype consumer = Idle | Working job inventory_server plugin_factory storage_provider
  | Reporting job "jsstr option"

record fleet =
  fl_world :: world
  fl_queue :: "job list"
  fl_capacity :: nat
  fl_consumer :: consumer
  fl_up :: bool

text \<open>\<open>Memory.Enqueue\<close> on the channel.\<close>

definition enqueue :: "nat \<Rightarrow> job \<Rightarrow> job list \<Rightarrow> job list" where
  "enqueue capacity j q = (if length q < capacity then q @ [j] else q)"

text \<open>A new job is persisted, announced and enqueued; one that cannot be persisted is dropped.\<close>

definition submit :: "run_env \<Rightarrow> job \<Rightarrow> fleet \<Rightarrow> fleet" where
  "submit env j f =
     (let w = fl_world f;
          (err, tb) = CreateJob (db_now env w) j (w_tables w);
          w1 = w\<lparr>w_tables := tb, w_clock := Suc (w_clock w)\<rparr>
      in case err of
           Some e \<Rightarrow> f\<lparr>fl_world := w1\<rparr>
         | None \<Rightarrow> f\<lparr>fl_world := publish env j BackupRequested [] [] w1,
             fl_queue := enqueue (fl_capacity f) j (fl_queue f)\<rparr>)"

text \<open>A tick of a schedule: one job for each plugin of the host.\<close>

fun dispatch :: "run_env \<Rightarrow> (nat \<Rightarrow> request_env) \<Rightarrow> jsstr \<Rightarrow> policy \<Rightarrow> jsstr list \<Rightarrow> fleet \<Rightarrow> fleet" where
  "dispatch env rqs host pol [] f = f"
| "dispatch env rqs host pol (p # ps) f =
     dispatch env rqs host pol ps (submit env (NewJob (rqs (length ps)) host p pol) f)"

text \<open>One turn of \<open>runConsumer\<close>: \<open>Dequeue\<close> and the start of \<open>RunJob\<close>, its pipeline, its end.\<close>

definition take_job :: "controller \<Rightarrow> run_env \<Rightarrow> fleet \<Rightarrow> fleet" where
  "take_job cn env f = (case fl_queue f of
       [] \<Rightarrow> f
     | j # q \<Rightarrow> (case run_start cn env j (fl_world f) of
         (Inl e, w) \<Rightarrow> f\<lparr>fl_world := w, fl_queue := q\<rparr>
       | (Inr (srv, factory, sp), w) \<Rightarrow> f\<lparr>fl_world := w, fl_queue := q, fl_consumer := Working j srv factory sp\<rparr>))"

definition work :: "controller \<Rightarrow> run_env \<Rightarrow> fleet \<Rightarrow> fleet" where
  "work cn env f = (case fl_consumer f of
       Working j srv factory sp \<Rightarrow> (case runPipeline cn env j srv factory sp (fl_world f) of
         (err, w) \<Rightarrow> f\<lparr>fl_world := w, fl_consumer := Reporting j err\<rparr>)
     | _ \<Rightarrow> f)"

definition report :: "run_env \<Rightarrow> fleet \<Rightarrow> fleet" where
  "report env f = (case fl_consumer f of
       Reporting j err \<Rightarrow> f\<lparr>fl_world := snd (run_finish env j err (fl_world f)), fl_consumer := Idle\<rparr>
     | _ \<Rightarrow> f)"

text \<open>The loop itself, while nothing else happens, for at most \<open>n\<close> jobs.\<close>

fun runConsumer :: "controller \<Rightarrow> run_env \<Rightarrow> nat \<Rightarrow> world \<times> job list \<Rightarrow> world \<times> job list" where
  "runConsumer cn env 0 s = s"
| "runConsumer cn env (Suc n) (w, []) = (w, [])"
| "runConsumer cn env (Suc n) (w, j # q) = runConsumer cn env n (snd (RunJob cn env j w), q)"

text \<open>The process ends: the queue and the run in progress are gone, tables and files stay.\<close>

definition crash :: "fleet \<Rightarrow> fleet" where
  "crash f = f\<lparr>fl_queue := [], fl_consumer := Idle, fl_up := False\<rparr>"

definition reconcileQueuedJobs :: "run_env \<Rightarrow> fleet \<Rightarrow> jsstr option \<times> fleet" where
  "reconcileQueuedJobs env f =
     (let w = fl_world f; w1 = w\<lparr>w_clock := Suc (w_clock w)\<rparr> in
      case ListJobsByStatus (db_now env w) Queued (w_tables w) of
        Inl e \<Rightarrow> (Some (js ''list queued jobs: '' @ e), f\<lparr>fl_world := w1\<rparr>)
      | Inr jobs \<Rightarrow> (None, f\<lparr>fl_world := w1, fl_queue := fold (enqueue (fl_capacity f)) jobs (fl_queue f)\<rparr>))"

definition startup :: "run_env \<Rightarrow> fleet \<Rightarrow> fleet" where
  "startup env f =
     (let w = fl_world f;
          (n, tb) = FailOrphanedJobs (db_now env w) (w_tables w);
          f1 = f\<lparr>fl_world := w\<lparr>w_tables := tb, w_clock := Suc (w_clock w)\<rparr>\<rparr>
      in case n of
           Inl e \<Rightarrow> f1
         | Inr m \<Rightarrow> (case reconcileQueuedJobs env f1 of
             (Some e, f2) \<Rightarrow> f2
           | (None, f2) \<Rightarrow> f2\<lparr>fl_up := True\<rparr>))"

datatype fleet_event = Submit job | TakeJob | Work | Report | Crash | Startup

inductive fleet_step :: "controller \<Rightarrow> fleet \<Rightarrow> run_env \<times> fleet_event \<Rightarrow> fleet \<Rightarrow> bool" for cn where
  step_submit: "fl_up f \<Longrightarrow> job_state j = Queued \<Longrightarrow> fleet_step cn f (env, Submit j) (submit env j f)"
| step_take: "fl_up f \<Longrightarrow> fl_consumer f = Idle \<Longrightarrow> fleet_step cn f (env, TakeJob) (take_job cn env f)"
| step_work: "fl_up f \<Longrightarrow> fleet_step cn f (env, Work) (work cn env f)"
| step_report: "fl_up f \<Longrightarrow> fleet_step cn f (env, Report) (report env f)"
| step_crash: "fl_up f \<Longrightarrow> fleet_step cn f (env, Crash) (crash f)"
| step_startup: "\<not> fl_up f \<Longrightarrow> fleet_step cn f (env, Startup) (startup env f)"

definition fleet_init :: "fleet \<Rightarrow> bool" where
  "fleet_init f \<longleftrightarrow> \<not> fl_up f \<and> fl_queue f = [] \<and> fl_consumer f = Idle \<and> w_tables (fl_world f) = no_rows"

section \<open>The invariant\<close>

abbreviation rows :: "fleet \<Rightarrow> job list" where
  "rows f \<equiv> tb_jobs (w_tables (fl_world f))"

definition state_of :: "job list \<Rightarrow> jsstr \<Rightarrow> job_status option" where
  "state_of rs i = map_option job_state (List.find (\<lambda>j. job_id j = i) rs)"

fun busy_with :: "consumer \<Rightarrow> jsstr option" where
  "busy_with Idle = None"
| "busy_with (Working j srv factory sp) = Some (job_id j)"
| "busy_with (Reporting j err) = Some (job_id j)"

definition fleet_inv :: "fleet \<Rightarrow> bool" where
  "fleet_inv f \<longleftrightarrow> distinct (map job_id (rows f)) \<and> distinct (map job_id (fl_queue f))
     \<and> (\<forall>j\<in>set (fl_queue f). state_of (rows f) (job_id j) = Some Queued)
     \<and> (\<forall>i. busy_with (fl_consumer f) = Some i \<longrightarrow> state_of (rows f) i = Some In_progress)
     \<and> (\<not> fl_up f \<longrightarrow> fl_queue f = [] \<and> fl_consumer f = Idle)"

lemma state_of_Nil [simp]: "state_of [] i = None"
  by (simp add: state_of_def)

lemma state_of_Cons [simp]: "state_of (j # rs) i = (if job_id j = i then Some (job_state j) else state_of rs i)"
  by (simp add: state_of_def)

lemma state_of_append [simp]: "state_of (rs @ ss) i = (case state_of rs i of None \<Rightarrow> state_of ss i | Some st \<Rightarrow> Some st)"
  by (induction rs) auto

lemma state_of_None: "state_of rs i = None \<longleftrightarrow> i \<notin> job_id ` set rs"
  by (induction rs) auto

lemma state_of_with_status:
  "state_of (with_status k st rs) i = (if i = k \<and> state_of rs i \<noteq> None then Some st else state_of rs i)"
  by (induction rs) (auto simp: with_status_def)

lemma state_of_orphans:
  "state_of (map (\<lambda>j. if job_state j = In_progress then j\<lparr>job_state := Failed\<rparr> else j) rs) i
    = map_option (\<lambda>st. if st = In_progress then Failed else st) (state_of rs i)"
  by (induction rs) auto

lemma state_of_known: "distinct (map job_id rs) \<Longrightarrow> j \<in> set rs \<Longrightarrow> state_of rs (job_id j) = Some (job_state j)"
  by (induction rs) (auto simp: image_iff)

text \<open>What each operation does to the table of jobs and to the queue.\<close>

lemma submit_effect:
  "rows (submit env j f) = rows f \<and> fl_queue (submit env j f) = fl_queue f
   \<or> job_id j \<notin> job_id ` set (rows f) \<and> rows (submit env j f) = rows f @ [j]
     \<and> fl_queue (submit env j f) = enqueue (fl_capacity f) j (fl_queue f)"
  by (auto simp: submit_def CreateJob_def Let_def split: option.splits)

lemma submit_keeps [simp]:
  "fl_consumer (submit env j f) = fl_consumer f" "fl_up (submit env j f) = fl_up f"
  "fl_capacity (submit env j f) = fl_capacity f"
  by (simp_all add: submit_def Let_def split: prod.splits option.splits)

lemma take_job_effect:
  assumes "fl_queue f = j # q"
  shows "fl_queue (take_job cn env f) = q" "fl_up (take_job cn env f) = fl_up f"
    "fl_consumer (take_job cn env f) = fl_consumer f \<and> rows (take_job cn env f) = rows f
     \<or> busy_with (fl_consumer (take_job cn env f)) = Some (job_id j)
       \<and> rows (take_job cn env f) = with_status (job_id j) In_progress (rows f)"
  using assms
  by (auto simp: take_job_def run_start_refused(4) run_start_taken(6) split: prod.splits sum.splits)

lemma work_effect:
  "rows (work cn env f) = rows f" "fl_queue (work cn env f) = fl_queue f" "fl_up (work cn env f) = fl_up f"
  "busy_with (fl_consumer (work cn env f)) = busy_with (fl_consumer f)"
  "fl_consumer (work cn env f) = Idle \<longleftrightarrow> fl_consumer f = Idle"
  by (auto simp: work_def adds_def split: consumer.splits prod.splits dest!: runPipeline_jobs)

lemma run_finish_rows:
  assumes "run_finish env j err w = (r, w')"
  shows "tb_jobs (w_tables w') = tb_jobs (w_tables w)
    \<or> tb_jobs (w_tables w') = with_status (job_id j) (if err = None then Completed else Failed) (tb_jobs (w_tables w))"
proof -
  let ?w1 = "(case err of None \<Rightarrow> publish env j BackupCompleted [] [] w
      | Some e \<Rightarrow> publish env j BackupFailed [] [(js ''error'', e)] w)"
  obtain serr w2 where s: "set_status env j (if err = None then Completed else Failed) ?w1 = (serr, w2)" by fastforce
  moreover have "w' = w2" using assms s by (auto simp: run_finish_def Let_def split: option.splits)
  moreover have "tb_jobs (w_tables ?w1) = tb_jobs (w_tables w)" by (simp split: option.split)
  ultimately show ?thesis using set_status_effect(5) [OF s] by simp
qed

lemma report_effect:
  "fl_queue (report env f) = fl_queue f" "fl_up (report env f) = fl_up f"
  "report env f = f \<or> (\<exists>i st. busy_with (fl_consumer f) = Some i \<and> fl_consumer (report env f) = Idle
     \<and> (rows (report env f) = rows f \<or> st \<in> {Completed, Failed} \<and> rows (report env f) = with_status i st (rows f)))"
proof -
  show "fl_queue (report env f) = fl_queue f" "fl_up (report env f) = fl_up f"
    by (simp_all add: report_def split: consumer.splits)
  show "report env f = f \<or> (\<exists>i st. busy_with (fl_consumer f) = Some i \<and> fl_consumer (report env f) = Idle
     \<and> (rows (report env f) = rows f \<or> st \<in> {Completed, Failed} \<and> rows (report env f) = with_status i st (rows f)))"
  proof (cases "fl_consumer f")
    case (Reporting j err)
    obtain r w' where "run_finish env j err (fl_world f) = (r, w')" by fastforce
    with run_finish_rows [OF this] Reporting show ?thesis
      by - (rule disjI2, intro exI [of _ "job_id j"] exI [of _ "if err = None then Completed else Failed"], auto simp: report_def)
  qed (simp_all add: report_def)
qed

text \<open>The queue after a start: the queued rows, oldest first, as many as it holds.\<close>

lemma fold_enqueue: "length q \<le> n \<Longrightarrow> fold (enqueue n) jobs q = q @ take (n - length q) jobs"
proof (induction jobs arbitrary: q)
  case (Cons j jobs)
  show ?case
  proof (cases "length q < n")
    case True
    then have "n - length q = Suc (n - Suc (length q))" by simp
    with True Cons show ?thesis by (simp add: enqueue_def)
  qed (use Cons in \<open>simp add: enqueue_def\<close>)
qed simp

definition queued_rows :: "db_env \<Rightarrow> job list \<Rightarrow> job list" where
  "queued_rows db rs = order_by (db_time db) job_queuedAt False (filter (\<lambda>j. job_state j = Queued) rs)"

definition orphans_failed :: "job list \<Rightarrow> job list" where
  "orphans_failed rs = map (\<lambda>j. if job_state j = In_progress then j\<lparr>job_state := Failed\<rparr> else j) rs"

lemma startup_effect:
  assumes "fl_queue f = []" "\<not> fl_up f"
  shows "fl_consumer (startup env f) = fl_consumer f"
    "rows (startup env f) = rows f \<and> \<not> fl_up (startup env f) \<and> fl_queue (startup env f) = []
     \<or> rows (startup env f) = orphans_failed (rows f) \<and> \<not> fl_up (startup env f) \<and> fl_queue (startup env f) = []
     \<or> rows (startup env f) = orphans_failed (rows f) \<and> fl_up (startup env f)
       \<and> (\<exists>db. fl_queue (startup env f) = take (fl_capacity f) (queued_rows db (orphans_failed (rows f))))"
  using assms
  by (auto simp: startup_def FailOrphanedJobs_def reconcileQueuedJobs_def ListJobsByStatus_def orphans_failed_def
      queued_rows_def Let_def fold_enqueue split: option.splits)

lemma startup_works:
  assumes "works env" "fl_queue f = []" "length (filter (\<lambda>j. job_state j = Queued) (rows f)) \<le> fl_capacity f"
  shows "\<exists>db. rows (startup env f) = orphans_failed (rows f) \<and> fl_queue (startup env f) = queued_rows db (orphans_failed (rows f))"
proof -
  have "length (filter (\<lambda>j. job_state j = Queued) (orphans_failed rs)) = length (filter (\<lambda>j. job_state j = Queued) rs)" for rs
    by (induction rs) (simp_all add: orphans_failed_def)
  then show ?thesis using assms
    by (auto simp: startup_def FailOrphanedJobs_def reconcileQueuedJobs_def ListJobsByStatus_def queued_rows_def
        orphans_failed_def [symmetric] Let_def fold_enqueue db_now_def works_def)
qed

section \<open>The ledger\<close>

text \<open>
  What the table of jobs promises, job by job: it is created queued, taken once, and ends once; a
  start of the process ends every job that was in progress.
\<close>

type_synonym ledger = "jsstr \<Rightarrow> job_status option"

inductive ledger_step :: "ledger \<Rightarrow> ledger \<Rightarrow> bool" where
  ledger_same: "ledger_step l l"
| ledger_created: "l i = None \<Longrightarrow> ledger_step l (l(i \<mapsto> Queued))"
| ledger_taken: "l i = Some Queued \<Longrightarrow> ledger_step l (l(i \<mapsto> In_progress))"
| ledger_ended: "l i = Some In_progress \<Longrightarrow> st = Completed \<or> st = Failed \<Longrightarrow> ledger_step l (l(i \<mapsto> st))"
| ledger_orphans: "ledger_step l (map_option (\<lambda>st. if st = In_progress then Failed else st) \<circ> l)"

text \<open>The order in which a job moves.\<close>

fun later :: "job_status \<Rightarrow> job_status \<Rightarrow> bool" where
  "later Queued st = True"
| "later In_progress st = (st \<noteq> Queued)"
| "later Completed st = (st = Completed)"
| "later Failed st = (st = Failed)"

lemma later_refl [simp]: "later st st"
  by (cases st) simp_all

lemma later_trans: "later a b \<Longrightarrow> later b c \<Longrightarrow> later a c"
  by (cases a; cases b) auto

lemma ledger_step_later: "ledger_step l l' \<Longrightarrow> l i = Some a \<Longrightarrow> \<exists>b. l' i = Some b \<and> later a b"
  by (induction rule: ledger_step.induct) auto

text \<open>The table of jobs as a ledger; every event of the process is one step of it, or none.\<close>

abbreviation ledger_of :: "fleet \<Rightarrow> ledger" where
  "ledger_of f \<equiv> state_of (rows f)"

lemma state_of_snoc: "job_id j \<notin> job_id ` set rs \<Longrightarrow> state_of (rs @ [j]) = (state_of rs)(job_id j \<mapsto> job_state j)"
  by (rule ext) (auto simp: state_of_None [symmetric] split: option.splits)

lemma state_of_set: "state_of rs i \<noteq> None \<Longrightarrow> state_of (with_status i st rs) = (state_of rs)(i \<mapsto> st)"
  by (rule ext) (simp add: state_of_with_status)

lemma ledger_rows:
  "state_of rs i = Some Queued \<Longrightarrow> ledger_step (state_of rs) (state_of (with_status i In_progress rs))"
  "state_of rs i = Some In_progress \<Longrightarrow> st = Completed \<or> st = Failed \<Longrightarrow>
    ledger_step (state_of rs) (state_of (with_status i st rs))"
  by (subst state_of_set, simp, rule ledger_step.intros, simp_all)+

lemma state_of_orphans_failed:
  "state_of (orphans_failed rs) = map_option (\<lambda>st. if st = In_progress then Failed else st) \<circ> state_of rs"
  by (rule ext) (simp only: orphans_failed_def state_of_orphans comp_def)

lemma fleet_step_ledger:
  assumes "fleet_step cn f e f'" "fleet_inv f"
  shows "ledger_step (ledger_of f) (ledger_of f')"
  using assms
proof (induction rule: fleet_step.induct)
  case (step_submit f j env)
  have created: "ledger_step (ledger_of f) (state_of (rows f @ [j]))" if "job_id j \<notin> job_id ` set (rows f)"
    unfolding state_of_snoc [OF that] step_submit.hyps(2) by (rule ledger_created) (simp add: state_of_None that)
  from submit_effect [of env j f] show ?case
  proof (elim disjE conjE)
    assume "rows (submit env j f) = rows f"
    then show ?thesis by (simp only: ledger_same)
  next
    assume new: "job_id j \<notin> job_id ` set (rows f)" and rows': "rows (submit env j f) = rows f @ [j]"
    show ?thesis unfolding rows' by (rule created [OF new])
  qed
next
  case (step_take f env)
  show ?case
  proof (cases "fl_queue f")
    case (Cons j q)
    with step_take.prems have "ledger_step (ledger_of f) (state_of (with_status (job_id j) In_progress (rows f)))"
      by (intro ledger_rows) (simp add: fleet_inv_def)
    with take_job_effect(3) [OF Cons, of cn env] show ?thesis by (elim disjE conjE) (simp_all only: ledger_same)
  qed (simp add: take_job_def ledger_same)
next
  case (step_work f env)
  show ?case by (simp add: work_effect ledger_same)
next
  case (step_report f env)
  from report_effect(3) [of env f] show ?case
  proof (elim disjE exE conjE)
    fix i st
    assume "busy_with (fl_consumer f) = Some i" "st \<in> {Completed, Failed}"
      and f': "rows (report env f) = with_status i st (rows f)"
    with step_report.prems show ?thesis unfolding f' by (intro ledger_rows) (auto simp: fleet_inv_def)
  qed (simp_all only: ledger_same)
next
  case (step_crash f env)
  show ?case by (simp add: crash_def ledger_same)
next
  case (step_startup f env)
  then have f: "fl_queue f = []" "\<not> fl_up f" by (simp_all add: fleet_inv_def)
  have "ledger_step (ledger_of f) (state_of (orphans_failed (rows f)))"
    unfolding state_of_orphans_failed by (rule ledger_orphans)
  with startup_effect(2) [OF f, of env] show ?case by (elim disjE conjE) (simp_all only: ledger_same)
qed

section \<open>The invariant is kept\<close>

lemma distinct_job_ids_snoc: "distinct (map job_id (rs @ [j])) \<longleftrightarrow> distinct (map job_id rs) \<and> job_id j \<notin> job_id ` set rs"
  by simp

lemma orphans_failed_ids [simp]: "map job_id (orphans_failed rs) = map job_id rs"
  unfolding orphans_failed_def by (rule map_job_id_keep) simp

lemma queued_rows_ok:
  assumes "distinct (map job_id rs)"
  shows "distinct (map job_id (take n (queued_rows db rs)))"
    and "j \<in> set (take n (queued_rows db rs)) \<Longrightarrow> state_of rs (job_id j) = Some Queued"
proof -
  have sub: "set (queued_rows db rs) = {j \<in> set rs. job_state j = Queued}"
    by (auto simp: queued_rows_def)
  have "distinct (filter (\<lambda>j. job_state j = Queued) rs)" using assms by (simp add: distinct_map)
  then have "distinct (queued_rows db rs)"
    by (metis queued_rows_def mset_eq_imp_distinct_iff mset_order_by)
  moreover have "inj_on job_id (set (queued_rows db rs))"
    using assms unfolding distinct_map by (rule_tac inj_on_subset [where A = "set rs"]) (auto simp: sub)
  ultimately have "distinct (map job_id (queued_rows db rs))" by (simp add: distinct_map)
  then show "distinct (map job_id (take n (queued_rows db rs)))" by (simp add: take_map [symmetric])
  show "state_of rs (job_id j) = Some Queued" if "j \<in> set (take n (queued_rows db rs))"
    using that in_set_takeD [OF that] state_of_known [OF assms, of j] by (auto simp: sub)
qed

lemma queue_state:
  assumes "\<forall>j\<in>set q. state_of rs (job_id j) = Some Queued" "distinct (map job_id q)" "i \<notin> job_id ` set q"
  shows "\<forall>j\<in>set q. state_of (with_status i st rs) (job_id j) = Some Queued"
  using assms by (auto simp: state_of_with_status)

lemma fleet_inv_step:
  assumes "fleet_step cn f e f'" "fleet_inv f"
  shows "fleet_inv f'"
  using assms
proof (induction rule: fleet_step.induct)
  case (step_submit f j env)
  let ?f' = "submit env j f"
  have kept: "fleet_inv ?f'" if "rows ?f' = rows f" "fl_queue ?f' = fl_queue f"
    using step_submit.prems that by (simp add: fleet_inv_def)
  have new: "fleet_inv ?f'" if id: "job_id j \<notin> job_id ` set (rows f)" and f': "rows ?f' = rows f @ [j]"
    "fl_queue ?f' = enqueue (fl_capacity f) j (fl_queue f)"
  proof -
    have none: "ledger_of f (job_id j) = None" by (simp add: state_of_None id)
    with step_submit.prems have "\<forall>k\<in>set (fl_queue f). job_id k \<noteq> job_id j" by (auto simp: fleet_inv_def)
    with step_submit none f' id show ?thesis
      by (auto simp: fleet_inv_def enqueue_def image_iff)
  qed
  from submit_effect [of env j f] kept new show ?case by blast
next
  case (step_take f env)
  show ?case
  proof (cases "fl_queue f")
    case (Cons j q)
    note t = take_job_effect [OF Cons, of cn env]
    have q: "\<forall>k\<in>set q. ledger_of f (job_id k) = Some Queued" "distinct (map job_id q)" "job_id j \<notin> job_id ` set q"
      "ledger_of f (job_id j) = Some Queued" "distinct (map job_id (rows f))"
      using step_take.prems Cons by (auto simp: fleet_inv_def)
    from t(3) queue_state [OF q(1-3)] q t(1,2) step_take.hyps show ?thesis
      by (auto simp: fleet_inv_def state_of_with_status)
  qed (use step_take.prems in \<open>simp add: take_job_def\<close>)
next
  case (step_work f env)
  then show ?case by (simp add: fleet_inv_def work_effect)
next
  case (step_report f env)
  from report_effect(3) [of env f]
  show ?case
  proof
    assume "report env f = f"
    with step_report.prems show ?thesis by simp
  next
    assume "\<exists>i st. busy_with (fl_consumer f) = Some i \<and> fl_consumer (report env f) = Idle
     \<and> (rows (report env f) = rows f \<or> st \<in> {Completed, Failed} \<and> rows (report env f) = with_status i st (rows f))"
    then obtain i st where i: "busy_with (fl_consumer f) = Some i" "fl_consumer (report env f) = Idle"
      "rows (report env f) = rows f \<or> rows (report env f) = with_status i st (rows f)" by blast
    with step_report.prems have "ledger_of f i = Some In_progress" by (simp add: fleet_inv_def)
    with step_report.prems have "i \<notin> job_id ` set (fl_queue f)" by (auto simp: fleet_inv_def)
    with i step_report queue_state [of "fl_queue f" "rows f" i st] report_effect(1,2) [of env f] show ?thesis
      by (auto simp: fleet_inv_def)
  qed
next
  case (step_crash f env)
  then show ?case by (simp add: fleet_inv_def crash_def)
next
  case (step_startup f env)
  then have empty: "fl_queue f = []" "fl_consumer f = Idle" "distinct (map job_id (rows f))"
    by (simp_all add: fleet_inv_def)
  have ids: "distinct (map job_id (orphans_failed (rows f)))" using empty(3) by simp
  from startup_effect [OF empty(1) step_startup.hyps, of env] empty ids queued_rows_ok [OF ids] show ?case
    by (auto simp: fleet_inv_def simp del: orphans_failed_ids)
qed

interpretation fleet: transition_system "fleet_step cn" fleet_inv fleet_init for cn
  by unfold_locales (auto intro: fleet_inv_step, simp add: fleet_inv_def fleet_init_def no_rows_def)

section \<open>The loop of the consumer\<close>

text \<open>With nothing in between, the three parts of a turn are \<open>RunJob\<close>.\<close>

lemma turn_is_RunJob:
  assumes "fl_queue f = j # q" "fl_consumer f = Idle"
  shows "report env (work cn env (take_job cn env f)) = f\<lparr>fl_world := snd (RunJob cn env j (fl_world f)), fl_queue := q\<rparr>"
  using assms
  by (cases f) (auto simp: take_job_def work_def report_def RunJob_def split: prod.splits sum.splits)

text \<open>So the loop is a run of the process in which it alone moves.\<close>

lemma runConsumer_run:
  assumes "fl_up f" "fl_consumer f = Idle" "runConsumer cn env n (fl_world f, fl_queue f) = (w, q)"
  shows "\<exists>es. run (fleet_step cn) f es (f\<lparr>fl_world := w, fl_queue := q\<rparr>) \<and> snd ` set es \<subseteq> {TakeJob, Work, Report}"
  using assms
proof (induction n arbitrary: f)
  case 0
  then show ?case by (intro exI [of _ "[]"]) (auto intro: run_Nil)
next
  case (Suc n)
  show ?case
  proof (cases "fl_queue f")
    case Nil
    with Suc.prems show ?thesis by (intro exI [of _ "[]"]) (auto intro: run_Nil)
  next
    case (Cons j q')
    let ?f1 = "take_job cn env f" and ?f3 = "f\<lparr>fl_world := snd (RunJob cn env j (fl_world f)), fl_queue := q'\<rparr>"
    have "fl_up ?f1" "fl_up (work cn env ?f1)"
      using Suc.prems(1) take_job_effect(2) [OF Cons] by (simp_all add: work_effect)
    then have turn: "run (fleet_step cn) f [(env, TakeJob), (env, Work), (env, Report)] ?f3"
      unfolding turn_is_RunJob [OF Cons Suc.prems(2), symmetric]
      by (auto simp: run_Cons_iff intro!: exI fleet_step.intros run_Nil Suc.prems)
    obtain es where es: "run (fleet_step cn) ?f3 es (?f3\<lparr>fl_world := w, fl_queue := q\<rparr>)" "snd ` set es \<subseteq> {TakeJob, Work, Report}"
      using Suc.IH [of ?f3] Suc.prems Cons by auto
    have "run (fleet_step cn) f ([(env, TakeJob), (env, Work), (env, Report)] @ es) (f\<lparr>fl_world := w, fl_queue := q\<rparr>)"
      using turn es(1) unfolding run_append by auto
    with es(2) show ?thesis by (intro exI [of _ "[(env, TakeJob), (env, Work), (env, Report)] @ es"]) auto
  qed
qed

text \<open>A job the controller can take: its host, its plugin and its storage are configured.\<close>

definition configured :: "controller \<Rightarrow> run_env \<Rightarrow> job \<Rightarrow> bool" where
  "configured cn env j \<longleftrightarrow> (\<exists>srv factory sp. cn_servers cn (job_host j) = Some srv
     \<and> cn_factories cn (job_plugin j) = Some factory
     \<and> StorageFor cn (rq_quote (re_request env)) (job_host j) = Inr sp)"

lemma RunJob_ends:
  assumes "works env" "configured cn env j" "job_id j \<in> job_id ` set (tb_jobs (w_tables w))" "RunJob cn env j w = (r, w')"
  shows "tb_jobs (w_tables w') = with_status (job_id j) (if r = None then Completed else Failed) (tb_jobs (w_tables w))"
proof -
  obtain srv factory sp where c: "cn_servers cn (job_host j) = Some srv" "cn_factories cn (job_plugin j) = Some factory"
    "StorageFor cn (rq_quote (re_request env)) (job_host j) = Inr sp" using assms(2) by (auto simp: configured_def)
  obtain w1 where start: "run_start cn env j w = (Inr (srv, factory, sp), w1)"
    using run_start_works [OF assms(1,3) c] by blast
  obtain err w2 where pipe: "runPipeline cn env j srv factory sp w1 = (err, w2)" by fastforce
  note fin = RunJob_jobs [OF assms(4) start pipe]
  have "job_id j \<in> job_id ` set (tb_jobs (w_tables w2))" using assms(3) by (simp add: fin(2))
  from run_finish_effect(5) [OF fin(1) assms(1) this] show ?thesis by (simp add: fin(2))
qed

definition ended :: "job_status option \<Rightarrow> bool" where
  "ended st \<longleftrightarrow> st = Some Completed \<or> st = Some Failed"

lemma runConsumer_ends:
  assumes "works env" "\<forall>j\<in>set q. configured cn env j \<and> job_id j \<in> job_id ` set (tb_jobs (w_tables w))"
    and "distinct (map job_id q)" "length q \<le> n"
  shows "\<exists>w'. runConsumer cn env n (w, q) = (w', [])
    \<and> (\<forall>i. if i \<in> job_id ` set q then ended (state_of (tb_jobs (w_tables w')) i)
        else state_of (tb_jobs (w_tables w')) i = state_of (tb_jobs (w_tables w)) i)"
  using assms(2-4)
proof (induction q arbitrary: w n)
  case Nil
  then show ?case by (cases n) auto
next
  case (Cons j q)
  then obtain m where m: "n = Suc m" "length q \<le> m" by (cases n) auto
  obtain r w1 where run: "RunJob cn env j w = (r, w1)" by fastforce
  have "configured cn env j" "job_id j \<in> job_id ` set (tb_jobs (w_tables w))" using Cons.prems by simp_all
  note w1 = RunJob_ends [OF assms(1) this run]
  have q: "\<forall>k\<in>set q. configured cn env k \<and> job_id k \<in> job_id ` set (tb_jobs (w_tables w1))" "distinct (map job_id q)"
    using Cons.prems by (simp_all add: w1)
  obtain w' where w': "runConsumer cn env m (w1, q) = (w', [])"
    "\<And>i. if i \<in> job_id ` set q then ended (state_of (tb_jobs (w_tables w')) i)
        else state_of (tb_jobs (w_tables w')) i = state_of (tb_jobs (w_tables w1)) i"
    using Cons.IH [OF q m(2)] by blast
  have "state_of (tb_jobs (w_tables w)) (job_id j) \<noteq> None" using Cons.prems(1) by (simp add: state_of_None)
  then have "ended (state_of (tb_jobs (w_tables w1)) (job_id j))"
    "i \<noteq> job_id j \<Longrightarrow> state_of (tb_jobs (w_tables w1)) i = state_of (tb_jobs (w_tables w)) i" for i
    by (simp_all add: w1 state_of_with_status ended_def)
  moreover have "job_id j \<notin> job_id ` set q" using Cons.prems(2) by simp
  moreover have "runConsumer cn env n (w, j # q) = (w', [])" by (simp add: m run w'(1))
  ultimately show ?case using w'(2) by (intro exI [of _ w']) (auto split: if_splits)
qed

section \<open>Samples\<close>

text \<open>The process before its first start, its database empty; a job is created; the process ends.\<close>

definition new_fleet :: fleet where
  "new_fleet = \<lparr>fl_world = \<lparr>w_tables = no_rows, w_temp = [], w_clock = 0, w_log = []\<rparr>, fl_queue = [], fl_capacity = 1,
     fl_consumer = Idle, fl_up = False\<rparr>"

definition started_fleet :: fleet where
  "started_fleet = startup sample_env new_fleet"

definition queued_fleet :: fleet where
  "queued_fleet = submit sample_env queued_job started_fleet"

definition stopped_fleet :: fleet where
  "stopped_fleet = crash queued_fleet"

lemma new_fleet_init: "fleet_init new_fleet"
  by (simp add: fleet_init_def new_fleet_def no_rows_def)

lemma sample_fleets:
  "rows started_fleet = []" "fl_queue started_fleet = []" "fl_up started_fleet" "fl_consumer started_fleet = Idle"
  "rows queued_fleet = [queued_job]" "fl_queue queued_fleet = [queued_job]" "fl_up queued_fleet"
  "fl_consumer queued_fleet = Idle" "\<not> fl_up stopped_fleet" "rows stopped_fleet = [queued_job]"
  "fl_capacity stopped_fleet = 1" "job_state queued_job = Queued"
  by (simp_all add: started_fleet_def queued_fleet_def stopped_fleet_def startup_def new_fleet_def sample_env_def
      FailOrphanedJobs_def reconcileQueuedJobs_def ListJobsByStatus_def db_now_def no_rows_def submit_def CreateJob_def
      crash_def enqueue_def order_by_def queued_job_def NewJob_def Let_def)

lemma sample_fleet_steps:
  "fleet_step cn new_fleet (sample_env, Startup) started_fleet"
  "fleet_step cn started_fleet (sample_env, Submit queued_job) queued_fleet"
  "fleet_step cn queued_fleet (sample_env, Crash) stopped_fleet"
proof -
  show "fleet_step cn new_fleet (sample_env, Startup) started_fleet"
    unfolding started_fleet_def by (rule step_startup) (simp add: new_fleet_def)
  show "fleet_step cn started_fleet (sample_env, Submit queued_job) queued_fleet"
    unfolding queued_fleet_def by (rule step_submit) (simp_all add: sample_fleets)
  show "fleet_step cn queued_fleet (sample_env, Crash) stopped_fleet"
    unfolding stopped_fleet_def by (rule step_crash) (simp add: sample_fleets)
qed

lemma sample_fleet_runs:
  "run (fleet_step cn) new_fleet [(sample_env, Startup), (sample_env, Submit queued_job)] queued_fleet"
  "run (fleet_step cn) queued_fleet [(sample_env, Crash)] stopped_fleet"
  "run (fleet_step cn) new_fleet [(sample_env, Startup), (sample_env, Submit queued_job), (sample_env, Crash)] stopped_fleet"
  using sample_fleet_steps by (blast intro: run.intros)+

section \<open>Properties\<close>

text \<open>
  C24. The queue never holds a job twice, nor one that is running or over. However the process is
  started, stopped and fed, and whatever the database refuses: a job in the queue is there once, is
  still queued in the table, and is not the one that is being run.
\<close>

theorem queue_is_sound:
  assumes "fleet_init f0" "run (fleet_step cn) f0 es f"
  shows "distinct (map job_id (fl_queue f)) \<and> (\<forall>j\<in>set (fl_queue f). ledger_of f (job_id j) = Some Queued
    \<and> busy_with (fl_consumer f) \<noteq> Some (job_id j))"
  using fleet.run_inv [OF assms] by (auto simp: fleet_inv_def)

theorem queue_is_sound_witness:
  "\<exists>es. run (fleet_step sample_controller) new_fleet es stopped_fleet \<and> distinct (map job_id (fl_queue stopped_fleet))"
  using queue_is_sound [OF new_fleet_init sample_fleet_runs(3)] sample_fleet_runs(3) by blast

text \<open>
  C22. The table of jobs is a ledger. Whatever happens in the process, it is one step of the ledger for
  the table, or none: a job is created queued, taken once out of queued, ended once out of in
  progress, and every job in progress is failed by the next start.
\<close>

theorem process_refines_ledger:
  assumes "reach fleet_init (fleet_step cn) f" "fleet_step cn f e f'"
  shows "ledger_step (ledger_of f) (ledger_of f')"
  using fleet_step_ledger [OF assms(2) fleet.reach_inv [OF assms(1)]] .

theorem process_refines_ledger_witness:
  "ledger_step (ledger_of started_fleet) (ledger_of queued_fleet) \<and> ledger_of queued_fleet (job_id queued_job) = Some Queued"
proof -
  have "reach fleet_init (fleet_step sample_controller) started_fleet"
    using new_fleet_init sample_fleet_steps(1) by (blast intro: reach.intros)
  from process_refines_ledger [OF this sample_fleet_steps(2)] show ?thesis by (simp only: sample_fleets state_of_Cons simp_thms if_True)
qed

text \<open>
  C23. No job is lost, none goes back, none runs twice: over any stretch of the process's life, crashes
  and starts included, a job that was in the table is still there, in the same state or a later one;
  one that was completed or failed stays so.
\<close>

theorem job_states_only_advance:
  assumes "fleet_init f0" "run (fleet_step cn) f0 es f" "run (fleet_step cn) f es' f'" "ledger_of f i = Some st"
  shows "\<exists>st'. ledger_of f' i = Some st' \<and> later st st'"
proof -
  have "fleet_inv f" by (rule fleet.run_inv [OF assms(1,2)])
  with assms(3,4) show ?thesis
  proof (induction es' arbitrary: f st)
    case Nil
    then show ?case by (auto elim: run.cases)
  next
    case (Cons e es')
    then obtain f1 where f1: "fleet_step cn f e f1" "run (fleet_step cn) f1 es' f'" by (auto simp: run_Cons_iff)
    obtain st1 where "ledger_of f1 i = Some st1" "later st st1"
      using ledger_step_later [OF fleet_step_ledger [OF f1(1) Cons.prems(3)] Cons.prems(2)] by blast
    with Cons.IH [OF f1(2) _ fleet_inv_step [OF f1(1) Cons.prems(3)]] show ?case by (blast intro: later_trans)
  qed
qed

theorem job_states_only_advance_witness:
  "\<exists>st. ledger_of stopped_fleet (job_id queued_job) = Some st \<and> later Queued st"
  using job_states_only_advance [where cn = sample_controller, OF new_fleet_init sample_fleet_runs(1,2)]
  by (simp add: sample_fleets)

text \<open>
  C21. Every job ends, even after a crash: with a working database, once the process has started again
  the loop of the consumer empties the queue, and every job the table held is then completed or
  failed, those that were running when the process died included; provided the queue has room for
  the queued ones and their hosts are still configured.
\<close>

theorem every_job_ends_after_restart:
  assumes "fleet_init f0" "run (fleet_step cn) f0 es f" "\<not> fl_up f" "works env"
    and "length (filter (\<lambda>j. job_state j = Queued) (rows f)) \<le> fl_capacity f"
    and "\<forall>j\<in>set (rows f). job_state j = Queued \<longrightarrow> configured cn env j" "length (rows f) \<le> n"
  shows "\<exists>w. runConsumer cn env n (fl_world (startup env f), fl_queue (startup env f)) = (w, [])
    \<and> (\<forall>j\<in>set (rows f). ended (state_of (tb_jobs (w_tables w)) (job_id j)))"
proof -
  let ?rs = "orphans_failed (rows f)"
  have f: "fl_queue f = []" "distinct (map job_id (rows f))"
    using fleet.run_inv [OF assms(1,2)] assms(3) by (simp_all add: fleet_inv_def)
  obtain db where s: "rows (startup env f) = ?rs" "fl_queue (startup env f) = queued_rows db ?rs"
    using startup_works [OF assms(4) f(1) assms(5)] by blast
  have ids: "distinct (map job_id ?rs)" using f(2) by simp
  have "length (queued_rows db ?rs) \<le> length ?rs" by (simp add: queued_rows_def)
  then have len: "length (queued_rows db ?rs) \<le> n" using assms(7) by (simp add: orphans_failed_def)
  have "\<forall>j\<in>set (queued_rows db ?rs). configured cn env j \<and> job_id j \<in> job_id ` set ?rs"
    using assms(6) by (auto simp: queued_rows_def orphans_failed_def split: if_splits)
  then obtain w where w: "runConsumer cn env n (fl_world (startup env f), queued_rows db ?rs) = (w, [])"
    "\<And>i. if i \<in> job_id ` set (queued_rows db ?rs) then ended (state_of (tb_jobs (w_tables w)) i)
        else state_of (tb_jobs (w_tables w)) i = state_of ?rs i"
    using runConsumer_ends [OF assms(4), of "queued_rows db ?rs" cn "fl_world (startup env f)" n]
      queued_rows_ok(1) [OF ids, of "length (queued_rows db ?rs)" db] len by (auto simp: s(1))
  have "ended (state_of (tb_jobs (w_tables w)) (job_id j))" if "j \<in> set ?rs" for j
  proof (cases "job_state j = Queued")
    case True
    with that w(2) [of "job_id j"] show ?thesis by (auto simp: queued_rows_def)
  next
    case False
    then have "job_id j \<notin> job_id ` set (queued_rows db ?rs)"
      using that ids by (auto simp: queued_rows_def distinct_map simp del: orphans_failed_ids dest: inj_onD)
    with w(2) [of "job_id j"] state_of_known [OF ids that] have "state_of (tb_jobs (w_tables w)) (job_id j) = Some (job_state j)"
      by simp
    moreover have "job_state j \<noteq> In_progress" using that by (auto simp: orphans_failed_def split: if_splits)
    ultimately show ?thesis using False by (cases "job_state j") (simp_all add: ended_def)
  qed
  then have "\<forall>i\<in>job_id ` set ?rs. ended (state_of (tb_jobs (w_tables w)) i)" by simp
  then have "\<forall>i\<in>job_id ` set (rows f). ended (state_of (tb_jobs (w_tables w)) i)"
    using orphans_failed_ids [of "rows f"] by (simp only: list.set_map [symmetric])
  with w(1) s(2) show ?thesis by auto
qed

theorem every_job_ends_after_restart_witness:
  "\<exists>w. runConsumer sample_controller sample_env 1 (fl_world (startup sample_env stopped_fleet), fl_queue (startup sample_env stopped_fleet)) = (w, [])
    \<and> ended (state_of (tb_jobs (w_tables w)) (job_id queued_job))"
proof -
  have "configured sample_controller sample_env queued_job"
    using sample_run(3-5) by (auto simp: configured_def)
  with every_job_ends_after_restart [OF new_fleet_init sample_fleet_runs(3), where env = sample_env and n = 1 and cn = sample_controller]
  show ?thesis by (simp add: sample_fleets sample_run)
qed

end
