(* ===== verification/Outcome.thy ===== *)
theory Outcome
  imports Reads Lifecycle
begin

text \<open>
  From the run of a job to the page that shows it. The process changes its tables by the operations of
  the store alone, so what the handlers promise of such tables holds at every moment of its life; and
  the job page tells what became of a run.
\<close>

section \<open>What the pipeline cannot break\<close>

text \<open>
  The pipeline of a job changes the world by three operations only: it publishes events of that job,
  records snapshots of that job, and keeps account of files. What they keep, it keeps.
\<close>

locale pipeline_kept =
  fixes env :: run_env and j :: job and ok :: "world \<Rightarrow> bool"
  assumes ok_publish: "ok w \<Longrightarrow> ok (publish env j kind res fs w)"
    and ok_record: "record_snapshot env j a i w = (e, w') \<Longrightarrow> ok w \<Longrightarrow> ok w'"
    and ok_temp: "ok (w\<lparr>w_temp := t\<rparr>) = ok w"
begin

lemma restore_test: "restore_test env j p res v a w = (e, w') \<Longrightarrow> ok w \<Longrightarrow> ok w'"
  by (auto simp: restore_test_def Let_def ok_publish split: option.splits if_splits)

lemma store_artifact: "store_artifact env j p sp res v a w = (e, w') \<Longrightarrow> ok w \<Longrightarrow> ok w'"
  by (auto simp: store_artifact_def Let_def ok_publish split: sum.splits option.splits prod.splits
      dest!: restore_test ok_record)

lemma cleanupArtifact: "ok (cleanupArtifact env a w) = ok w"
  by (simp add: cleanupArtifact_def ok_temp)

lemma backupResource: "backupResource env j p sp res v w = (e, w') \<Longrightarrow> ok w \<Longrightarrow> ok w'"
  by (auto simp: backupResource_def Let_def apsnd_def map_prod_def cleanupArtifact ok_temp
      split: sum.splits option.splits prod.splits dest!: store_artifact)

lemma backup_all: "backup_all env j p sp v rs w = (errs, w') \<Longrightarrow> ok w \<Longrightarrow> ok w'"
  by (induction rs arbitrary: w errs) (auto split: prod.splits dest: backupResource)

lemma runPipeline: "runPipeline cn env j srv factory sp w = (e, w') \<Longrightarrow> ok w \<Longrightarrow> ok w'"
  by (auto simp: runPipeline_def Let_def ok_publish split: sum.splits option.splits prod.splits dest!: backup_all)

end

section \<open>All changes go through the store\<close>

definition genuine :: "world \<Rightarrow> bool" where
  "genuine w \<longleftrightarrow> reach (\<lambda>tb. tb = no_rows) store_step (w_tables w)"

lemma genuine_op: "genuine w \<Longrightarrow> w_tables w' = store_apply db op (w_tables w) \<Longrightarrow> genuine w'"
  unfolding genuine_def by (metis reach_step store_step.intros)

lemma genuine_temp [simp]: "genuine (w\<lparr>w_temp := t\<rparr>) = genuine w"
  by (simp add: genuine_def)

lemma genuine_publish [simp, intro]: "genuine w \<Longrightarrow> genuine (publish env j kind res fs w)"
  by (rule genuine_op [where op = "OpEvent (event_now env j kind res fs w)" and db = "db_now env w"])
    (simp_all add: publish_def Let_def event_now_def)

lemma genuine_set_status: "set_status env j st w = (e, w') \<Longrightarrow> genuine w \<Longrightarrow> genuine w'"
  by (erule genuine_op [where op = "OpStatus (job_id j) st" and db = "db_now env w"])
    (auto simp: set_status_def split: prod.splits)

lemma genuine_record_snapshot: "record_snapshot env j a i w = (e, w') \<Longrightarrow> genuine w \<Longrightarrow> genuine w'"
  by (erule genuine_op [where db = "db_now env w" and op = "OpSnapshot
      \<lparr>snap_id = i, snap_jobId = job_id j, snap_host = job_host j, snap_plugin = job_plugin j, snap_size = art_size a,
       snap_checksum = art_checksum a, snap_createdAt = re_now env (w_clock w)\<rparr>"])
    (auto simp: record_snapshot_def split: prod.splits)

interpretation genuine: pipeline_kept env j genuine for env j
  by unfold_locales (auto intro: genuine_record_snapshot)

lemma genuine_run_start: "run_start cn env j w = (r, w') \<Longrightarrow> genuine w \<Longrightarrow> genuine w'"
  by (auto simp: run_start_unfold Let_def split: sum.splits option.splits prod.splits intro: genuine_set_status)

lemma genuine_run_finish: "run_finish env j err w = (r, w') \<Longrightarrow> genuine w \<Longrightarrow> genuine w'"
  by (auto simp: run_finish_def Let_def split: option.splits prod.splits if_splits intro: genuine_set_status)

lemma genuine_RunJob: "RunJob cn env j w = (r, w') \<Longrightarrow> genuine w \<Longrightarrow> genuine w'"
  by (erule RunJob_cases) (blast intro: genuine_run_start genuine.runPipeline genuine_run_finish)+

lemma genuine_submit: "genuine (fl_world f) \<Longrightarrow> genuine (fl_world (submit env j f))"
proof -
  assume g: "genuine (fl_world f)"
  let ?w = "fl_world f"
  let ?w1 = "?w\<lparr>w_tables := snd (CreateJob (db_now env ?w) j (w_tables ?w)), w_clock := Suc (w_clock ?w)\<rparr>"
  have "genuine ?w1" by (rule genuine_op [OF g, where op = "OpCreate j" and db = "db_now env ?w"]) simp
  moreover have "fl_world (submit env j f) = ?w1 \<or> fl_world (submit env j f) = publish env j BackupRequested [] [] ?w1"
    by (auto simp: submit_def Let_def split: prod.split option.split)
  ultimately show ?thesis by auto
qed

lemma genuine_startup: "genuine (fl_world f) \<Longrightarrow> genuine (fl_world (startup env f))"
proof -
  assume g: "genuine (fl_world f)"
  let ?w = "fl_world f"
  let ?tb = "snd (FailOrphanedJobs (db_now env ?w) (w_tables ?w))"
  have "w_tables (fl_world (startup env f)) = ?tb"
    by (auto simp: startup_def reconcileQueuedJobs_def Let_def split: prod.split option.split sum.split)
  then show ?thesis by (intro genuine_op [OF g, where op = OpOrphans and db = "db_now env ?w"]) simp
qed

text \<open>At every moment of its life the process has tables the store made.\<close>

lemma fleet_genuine: "fleet_init f0 \<Longrightarrow> run (fleet_step cn) f0 es f \<Longrightarrow> genuine (fl_world f)"
proof -
  have step: "genuine (fl_world f')" if "fleet_step cn f e f'" "genuine (fl_world f)" for f e f'
    using that
  proof (induction rule: fleet_step.induct)
    case (step_take f env)
    then show ?case
      by (auto simp: take_job_def split: list.split prod.split sum.split intro: genuine_run_start)
  next
    case (step_work f env)
    then show ?case
      by (auto simp: work_def split: consumer.split prod.split intro: genuine.runPipeline)
  next
    case (step_report f env)
    then show ?case
      by (auto simp: report_def split: consumer.split intro: genuine_run_finish surjective_pairing)
  qed (simp_all add: genuine_submit genuine_startup crash_def)
  assume "fleet_init f0" and run: "run (fleet_step cn) f0 es f"
  then have "genuine (fl_world f0)" by (simp add: genuine_def fleet_init_def reach_init)
  with run show ?thesis by (induction rule: run.induct) (auto intro: step)
qed

section \<open>What the table says of a queued job\<close>

text \<open>Events belong to jobs of the table; of a job that is still queued only its request is known.\<close>

definition of_jobs :: "(jsstr \<Rightarrow> job_status option) \<Rightarrow> bop_event \<Rightarrow> bool" where
  "of_jobs l e \<longleftrightarrow> l (event_jobId e) \<noteq> None \<and> (l (event_jobId e) = Some Queued \<longrightarrow> event_kind e = BackupRequested)"

abbreviation events_of :: "world \<Rightarrow> bop_event set" where
  "events_of w \<equiv> set (stored_events (w_tables w))"

definition timeline_inv :: "fleet \<Rightarrow> bool" where
  "timeline_inv f \<longleftrightarrow> (\<forall>e\<in>events_of (fl_world f). of_jobs (ledger_of f) e)"

lemma events_of_publish:
  assumes "e \<in> events_of (publish env j kind res fs w)"
  shows "e \<in> events_of w \<or> event_jobId e = job_id j \<and> event_kind e = kind"
proof (cases "db_error (db_now env w)")
  case None
  then have "stored_events (w_tables (publish env j kind res fs w)) = stored_events (w_tables w) @ [event_now env j kind res fs w]"
    by (simp add: publish_def event_now_def stored_events_Publish Let_def)
  with assms show ?thesis by (auto simp: event_now_def)
next
  case (Some m)
  with assms show ?thesis by (simp add: publish_def Publish_def RecordEvent_def Let_def)
qed

lemma events_of_record: "record_snapshot env j a i w = (e, w') \<Longrightarrow> events_of w' = events_of w"
  by (auto simp: record_snapshot_def RecordSnapshot_def stored_events_def Let_def split: option.splits prod.splits if_splits)

interpretation own_events: pipeline_kept env j "\<lambda>w. \<forall>e\<in>events_of w. P e \<or> event_jobId e = job_id j" for env j P
proof
  fix w kind res fs
  assume old: "\<forall>e\<in>events_of w. P e \<or> event_jobId e = job_id j"
  show "\<forall>e\<in>events_of (publish env j kind res fs w). P e \<or> event_jobId e = job_id j"
  proof
    fix e
    assume "e \<in> events_of (publish env j kind res fs w)"
    with events_of_publish [OF this] old show "P e \<or> event_jobId e = job_id j" by blast
  qed
next
  fix w w' a i e
  assume "record_snapshot env j a i w = (e, w')" "\<forall>e\<in>events_of w. P e \<or> event_jobId e = job_id j"
  then show "\<forall>e\<in>events_of w'. P e \<or> event_jobId e = job_id j" by (simp only: events_of_record)
qed simp

lemma events_of_run_start:
  assumes "run_start cn env j w = (r, w')"
  shows "events_of w' = events_of w \<or> (\<exists>x. r = Inr x) \<and> (\<forall>e\<in>events_of w'. e \<in> events_of w \<or> event_jobId e = job_id j)"
proof -
  obtain serr w1 where s: "set_status env j In_progress w = (serr, w1)" by fastforce
  have "w' = w \<or> w' = w1 \<or> (\<exists>x. r = Inr x) \<and> w' = publish env j BackupStarted [] [] w1"
    using assms unfolding run_start_unfold s Let_def by (auto split: option.splits sum.splits)
  moreover have "events_of w1 = events_of w" by (simp only: set_status_effect(4) [OF s])
  ultimately show ?thesis using events_of_publish [of _ env j BackupStarted "[]" "[]" w1] by blast
qed

lemma events_of_run_finish:
  assumes "run_finish env j err w = (r, w')" "e \<in> events_of w'"
  shows "e \<in> events_of w \<or> event_jobId e = job_id j"
proof -
  obtain kind fs serr where s: "set_status env j (if err = None then Completed else Failed) (publish env j kind [] fs w) = (serr, w')"
    using assms(1) by (cases err) (auto simp: run_finish_def Let_def split: prod.splits)
  have "e \<in> events_of (publish env j kind [] fs w)" using assms(2) by (simp only: set_status_effect(4) [OF s])
  from events_of_publish [OF this] show ?thesis by blast
qed

lemma of_jobs_step:
  assumes "ledger_step l l'" "of_jobs l e"
  shows "of_jobs l' e"
proof -
  obtain a where a: "l (event_jobId e) = Some a" using assms(2) by (auto simp: of_jobs_def)
  obtain b where "l' (event_jobId e) = Some b" "later a b" using ledger_step_later [OF assms(1) a] by blast
  then show ?thesis using assms(2) a by (cases a) (auto simp: of_jobs_def)
qed

text \<open>An event of the job that runs: it is no longer queued.\<close>

lemma of_jobs_started: "l (job_id j) = Some st \<Longrightarrow> st \<noteq> Queued \<Longrightarrow> event_jobId e = job_id j \<Longrightarrow> of_jobs l e"
  by (simp add: of_jobs_def)

lemma timeline_inv_step:
  assumes step: "fleet_step cn f e f'" and inv: "fleet_inv f" "timeline_inv f"
  shows "timeline_inv f'"
proof -
  note ledger = fleet_step_ledger [OF step inv(1)]
  have old: "of_jobs (ledger_of f') x" if "x \<in> events_of (fl_world f)" for x
    using of_jobs_step [OF ledger] inv(2) that by (auto simp: timeline_inv_def)
  have "of_jobs (ledger_of f') x" if x: "x \<in> events_of (fl_world f')" for x
    using step
  proof cases
    case (step_submit j env)
    let ?w = "fl_world f"
    let ?w1 = "?w\<lparr>w_tables := snd (CreateJob (db_now env ?w) j (w_tables ?w)), w_clock := Suc (w_clock ?w)\<rparr>"
    have "events_of ?w1 = events_of ?w"
      by (simp add: CreateJob_def stored_events_def Let_def split: option.split)
    moreover have "fl_world f' = ?w1 \<or> rows f' = rows f @ [j] \<and> fl_world f' = publish env j BackupRequested [] [] ?w1"
      unfolding step_submit(2) by (auto simp: submit_def CreateJob_def Let_def split: option.split)
    ultimately obtain w1 where w1: "events_of w1 = events_of ?w"
      "fl_world f' = w1 \<or> rows f' = rows f @ [j] \<and> fl_world f' = publish env j BackupRequested [] [] w1" by blast
    show ?thesis
    proof (cases "x \<in> events_of (fl_world f)")
      case False
      with x w1 have new: "rows f' = rows f @ [j]" "event_jobId x = job_id j" "event_kind x = BackupRequested"
        using events_of_publish [of x env j BackupRequested "[]" "[]" w1] by auto
      have "ledger_of f' (job_id j) \<noteq> None" by (simp add: new(1) split: option.split)
      with new show ?thesis by (simp add: of_jobs_def)
    qed (rule old)
  next
    case (step_take env)
    show ?thesis
    proof (cases "fl_queue f")
      case Nil
      with x old step_take show ?thesis by (simp add: take_job_def)
    next
      case (Cons j q)
      obtain r w' where r: "run_start cn env j (fl_world f) = (r, w')" by fastforce
      have w': "fl_world f' = w'" using step_take Cons r by (auto simp: take_job_def split: sum.split)
      show ?thesis
      proof (cases "x \<in> events_of (fl_world f)")
        case False
        with x events_of_run_start [OF r] obtain y where y: "r = Inr y" "event_jobId x = job_id j" by (auto simp: w')
        obtain srv factory sp where "y = (srv, factory, sp)" by (cases y)
        with r y have "rows f' = with_status (job_id j) In_progress (rows f)" by (simp add: w' run_start_taken(6))
        moreover have "ledger_of f (job_id j) = Some Queued" using inv(1) Cons by (simp add: fleet_inv_def)
        ultimately have "ledger_of f' (job_id j) = Some In_progress" by (simp add: state_of_with_status)
        then show ?thesis by (rule of_jobs_started) (simp_all add: y)
      qed (rule old)
    qed
  next
    case (step_work env)
    show ?thesis
    proof (cases "fl_consumer f")
      case (Working j srv factory sp)
      obtain err w' where r: "runPipeline cn env j srv factory sp (fl_world f) = (err, w')" by fastforce
      have w': "fl_world f' = w'" using step_work Working r by (simp add: work_def)
      have "\<forall>e\<in>events_of w'. e \<in> events_of (fl_world f) \<or> event_jobId e = job_id j"
        by (rule own_events.runPipeline [OF r]) simp
      then have "x \<in> events_of (fl_world f) \<or> event_jobId x = job_id j" using x by (simp add: w')
      moreover have "ledger_of f' (job_id j) = Some In_progress"
        using inv(1) Working step_work(2) by (simp add: fleet_inv_def work_effect)
      ultimately show ?thesis using old of_jobs_started by blast
    qed (use x old step_work in \<open>simp_all add: work_def\<close>)
  next
    case (step_report env)
    show ?thesis
    proof (cases "fl_consumer f")
      case (Reporting j err)
      obtain r w' where r: "run_finish env j err (fl_world f) = (r, w')" by fastforce
      have w': "fl_world f' = w'" using step_report Reporting r by (simp add: report_def)
      have "ledger_of f (job_id j) = Some In_progress" using inv(1) Reporting by (simp add: fleet_inv_def)
      then obtain st where "ledger_of f' (job_id j) = Some st" "later In_progress st"
        using ledger_step_later [OF ledger] by blast
      moreover have "x \<in> events_of (fl_world f) \<or> event_jobId x = job_id j"
        using events_of_run_finish [OF r] x by (simp add: w')
      ultimately show ?thesis using old of_jobs_started [of "ledger_of f'" j st] by auto
    qed (use x old step_report in \<open>simp_all add: report_def\<close>)
  next
    case (step_crash env)
    with x old show ?thesis by (simp add: crash_def)
  next
    case (step_startup env)
    have "stored_events (w_tables (fl_world (startup env f))) = stored_events (w_tables (fl_world f))"
      by (auto simp: startup_def FailOrphanedJobs_def reconcileQueuedJobs_def stored_events_def Let_def
          split: option.split sum.split prod.split)
    with x old show ?thesis by (simp only: step_startup)
  qed
  then show ?thesis by (simp add: timeline_inv_def)
qed

interpretation timeline: transition_system "fleet_step cn" "\<lambda>f. fleet_inv f \<and> timeline_inv f" fleet_init for cn
proof
  show "fleet_init f \<Longrightarrow> fleet_inv f \<and> timeline_inv f" for f
    using fleet.inv_init [of f] by (simp add: timeline_inv_def fleet_init_def no_rows_def stored_events_def)
qed (blast intro: fleet_inv_step timeline_inv_step)

section \<open>What a run leaves in the table\<close>

text \<open>With a working database, the events of a run are in the table as they were published.\<close>

lemma run_start_stored:
  assumes "run_start cn env j w = (Inr x, w')" "works env"
  shows "\<exists>b. w_log w' = w_log w @ [b] \<and> event_kind b = BackupStarted \<and> event_jobId b = job_id j
    \<and> stored_events (w_tables w') = stored_events (w_tables w) @ [b]"
proof -
  obtain serr w1 where s: "set_status env j In_progress w = (serr, w1)" by fastforce
  then have "w' = publish env j BackupStarted [] [] w1"
    using assms(1) unfolding run_start_unfold s Let_def by (auto split: option.splits sum.splits)
  with adds_publish [of env j BackupStarted "[]" "[]" w1] set_status_effect(1,4) [OF s] assms(2) show ?thesis
    by (intro exI [of _ "event_now env j BackupStarted [] [] w1"]) (auto simp: adds_def)
qed

lemma run_finish_stored:
  assumes "run_finish env j err w = (r, w')" "works env"
  shows "\<exists>e. w_log w' = w_log w @ [e] \<and> event_jobId e = job_id j
    \<and> stored_events (w_tables w') = stored_events (w_tables w) @ [e]"
proof -
  obtain kind fs serr where s: "set_status env j (if err = None then Completed else Failed) (publish env j kind [] fs w) = (serr, w')"
    using assms(1) by (cases err) (auto simp: run_finish_def Let_def split: prod.splits)
  with adds_publish [of env j kind "[]" fs w] set_status_effect(1,4) [OF s] assms(2) show ?thesis
    by (intro exI [of _ "event_now env j kind [] fs w"]) (auto simp: adds_def)
qed

lemma RunJob_stored:
  assumes "run_start cn env j w = (Inr (srv, factory, sp), w1)" "runPipeline cn env j srv factory sp w1 = (err, w2)"
    and "run_finish env j err w2 = (r, w')" "works env"
  shows "\<exists>es. stored_events (w_tables w') = stored_events (w_tables w) @ es
    \<and> (\<forall>e\<in>set es. event_jobId e = job_id j) \<and> sealTierForEvents es = run_tier cn env j srv factory err
    \<and> (\<exists>new ss. adds env j new ss w1 w2 \<and> length es = length new + 2)"
proof -
  obtain b where b: "w_log w1 = w_log w @ [b]" "event_kind b = BackupStarted" "event_jobId b = job_id j"
    "stored_events (w_tables w1) = stored_events (w_tables w) @ [b]" using run_start_stored [OF assms(1,4)] by blast
  obtain es ss where es: "adds env j es ss w1 w2" using runPipeline_jobs [OF assms(2)] by blast
  obtain e where e: "w_log w' = w_log w2 @ [e]" "event_jobId e = job_id j"
    "stored_events (w_tables w') = stored_events (w_tables w2) @ [e]" using run_finish_stored [OF assms(3,4)] by blast
  have "w_log w' = w_log w @ (b # es @ [e])" "stored_events (w_tables w') = stored_events (w_tables w) @ (b # es @ [e])"
    using b e es assms(4) by (simp_all add: adds_def)
  moreover have "\<forall>x\<in>set (b # es @ [e]). event_jobId x = job_id j" using b e es by (simp add: adds_def)
  moreover have "sealTierForEvents (b # es @ [e]) = run_tier cn env j srv factory err"
    using seal_of_run [OF assms(2,3) b(1,2)] calculation(1) by simp
  moreover have "length (b # es @ [e]) = length es + 2" by simp
  ultimately show ?thesis using es by blast
qed

lemma seal_of_requests: "\<forall>e\<in>set es. event_kind e = BackupRequested \<Longrightarrow> sealTierForEvents es = NoTier"
  by (induction es) (simp_all add: seal_Cons event_tier_def, simp add: sealTierForEvents_def)

section \<open>The job page\<close>

text \<open>The answer to the page's request for the events of a job, when they fit.\<close>

lemma detail_events_shown:
  assumes "tables_ok tb" "db_error db = None" "well_formed i" "i \<noteq> []" "send c (detail_events_call i) = Inr r"
    and "length (filter (\<lambda>e. event_jobId e = i) (stored_events tb)) \<le> 200"
  shows "mset (rows_of (delivered reason c kind (listEventsHandler db tb r) h))
    = mset (filter (\<lambda>e. event_jobId e = i) (stored_events tb))"
proof -
  let ?f = "\<lparr>filter_jobId = Some i, filter_host = None, filter_limit = Some 200\<rparr>"
  have p: "params_ok (event_params (Some ?f))"
    unfolding event_params_alt using assms(3) by (simp add: params_ok_def)
  have t: "truthy (Some i)" using assms(4) by (simp add: truthy_def)
  have "listEventsHandler db tb r = writeJSON 200 (take 200 (order_by (db_time db) event_timestamp True
      (filter (\<lambda>e. event_jobId e = i) (stored_events tb))))"
    using listEventsHandler_asked [OF assms(1,2) p, of c r 200] assms(5) t
    by (simp add: detail_events_call_def truthy_def)
  then show ?thesis using assms(6) by simp
qed

lemma delivered_error [simp]: "hook_error (delivered reason c kind (writeJSON 200 v) h) = hook_error h"
  by (cases kind) (simp_all add: delivered_def request_finish_def received_def writeJSON_def res_ok_def)

lemma detail_page_facts:
  assumes "JobDetailPage br h1 h2 = Inr v" "hook_error h1 = None" "hook_data h1 = Some k"
  shows "\<exists>notices facts. v = JobView notices (Some facts) \<and> jf_id facts = job_id k \<and> jf_status facts = StatusPill (job_state k)
    \<and> jf_seal facts = Seal (sealTierForEvents (rows_of h2))"
  using assms by (auto simp: JobDetailPage_def job_facts_def truthy_def Let_def bind_result_Inr_iff)

lemma state_of_row: "state_of rs i = Some st \<Longrightarrow> \<exists>k\<in>set rs. job_id k = i \<and> job_state k = st"
  by (induction rs) (auto split: if_splits)

section \<open>Jobs a crash interrupted\<close>

text \<open>The start of the process fails them in the table, but publishes no event: the seal does not change.\<close>

lemma orphaned_job_keeps_its_seal:
  assumes "ledger_of f i = Some In_progress" "works env"
  shows "ledger_of (startup env f) i = Some Failed
    \<and> stored_events (w_tables (fl_world (startup env f))) = stored_events (w_tables (fl_world f))"
  using assms state_of_orphans [of "rows f" i]
  by (simp add: startup_def FailOrphanedJobs_def reconcileQueuedJobs_def stored_events_def Let_def
      split: option.split sum.split prod.split)

section \<open>A hook nothing asks\<close>

text \<open>Neither a reload nor new dependencies nor an interval: what a page without them can still do.\<close>

fun undisturbed :: "'k \<Rightarrow> ('d, 'k) hook_event \<Rightarrow> bool" where
  "undisturbed k Reload = False"
| "undisturbed k (Rerender k' iv) = (k' = k \<and> iv = None)"
| "undisturbed k e = True"

definition asleep :: "'k \<Rightarrow> 'd option \<Rightarrow> ('d, 'k) hook \<Rightarrow> bool" where
  "asleep k d h \<longleftrightarrow> timer_inv h \<and> hook_interval h = None \<and> in_flight h = [] \<and> hook_key h = k \<and> hook_data h = d"

lemma asleep_step:
  assumes "hook_step answers h e h'" "undisturbed k e" "asleep k d h"
  shows "asleep k d h'"
proof -
  have "live_timers h = [] \<and> \<not> hook_listening h" using assms(3) by (auto simp: asleep_def timer_inv_def polls_def)
  with assms show ?thesis using timer_inv_step [OF assms(1)]
    by (auto simp: asleep_def rerender_def visibility_def unmount_def poll_cleanup_def Let_def elim!: hook_step.cases)
qed

interpretation asleep: kept_assertion "hook_step answers" "undisturbed k" "asleep k d" for answers k d
  by unfold_locales (rule asleep_step)

section \<open>Properties\<close>

text \<open>
  C13. From the queue to the screen. Take any moment of the process's life at which the consumer is
  free: when it has run the job at the head of the queue, the job page, asked for that job, shows it
  completed or failed as its pipeline ended, and its seal says what was reached: Failed, or
  Restore-tested or Storage integrity confirmed as restore tests are on or off for the host. It
  supposes that the database works during the run and that the events of the job fit the page.
\<close>

theorem job_page_tells_outcome:
  assumes "fleet_init f0" "run (fleet_step cn) f0 es f" "fl_queue f = j # q" "fl_consumer f = Idle" "works env"
    and "run_start cn env j (fl_world f) = (Inr (srv, factory, sp), w1)"
    and "runPipeline cn env j srv factory sp w1 = (err, w2)"
    and "tb = w_tables (fl_world (report env (work cn env (take_job cn env f))))"
    and "length (filter (\<lambda>e. event_jobId e = job_id j) (stored_events tb)) \<le> 200"
    and "db_error db = None" "job_id j \<noteq> []" "\<not> dot_name (job_id j)" "getJob (job_id j) = Inr a"
    and "send c a = Inr r1" "send c (detail_events_call (job_id j)) = Inr r2" "hook_error h1 = None"
    and "served r1 = Some (EpJob i)"
    and "JobDetailPage br (delivered reason c kind1 (getJobHandler db tb i) h1)
      (delivered reason c kind2 (listEventsHandler db tb r2) h2) = Inr v"
  shows "\<exists>notices facts. v = JobView notices (Some facts) \<and> jf_id facts = job_id j
    \<and> jf_status facts = StatusPill (if err = None then Completed else Failed)
    \<and> jf_seal facts = Seal (run_tier cn env j srv factory err)"
proof -
  obtain r w' where run: "RunJob cn env j (fl_world f) = (r, w')" by fastforce
  then have tb: "tb = w_tables w'" by (simp add: assms(8) turn_is_RunJob [OF assms(3,4)])
  note fin = RunJob_jobs [OF run assms(6,7)]
  have invs: "fleet_inv f" "timeline_inv f" using timeline.run_inv [OF assms(1,2)] by blast+
  have ok: "tables_ok tb"
    using genuine_RunJob [OF run fleet_genuine [OF assms(1,2)]] store.reach_inv by (simp add: tb genuine_def)
  let ?st = "if err = None then Completed else Failed" and ?i = "job_id j"
  have queued: "ledger_of f ?i = Some Queued" using invs(1) assms(3) by (simp add: fleet_inv_def)
  then have "ledger_of f ?i \<noteq> None" by simp
  then have "?i \<in> job_id ` set (rows f)" unfolding state_of_None by blast
  then have "?i \<in> job_id ` set (tb_jobs (w_tables w2))" by (simp add: fin(2))
  from run_finish_effect(5) [OF fin(1) assms(5) this]
  have jobs: "tb_jobs tb = with_status ?i ?st (rows f)" by (simp add: tb fin(2))
  have "state_of (tb_jobs tb) ?i = Some ?st" by (simp add: jobs state_of_with_status queued)
  then obtain k where k: "k \<in> set (tb_jobs tb)" "job_id k = ?i" "job_state k = ?st" using state_of_row by blast
  have "i = ?i" using served_job_id [OF assms(13,14,11,12)] assms(17) by simp
  then have handler: "getJobHandler db tb i = writeJSON 200 k"
    using GetJob_known [OF ok assms(10) k(1)] by (simp add: getJobHandler_def k(2))
  obtain es where es: "stored_events tb = stored_events (w_tables (fl_world f)) @ es"
    "\<forall>e\<in>set es. event_jobId e = ?i" "sealTierForEvents es = run_tier cn env j srv factory err"
    using RunJob_stored [OF assms(6,7) fin(1) assms(5)] by (auto simp: tb)
  let ?old = "filter (\<lambda>e. event_jobId e = ?i) (stored_events (w_tables (fl_world f)))"
  have "\<forall>e\<in>set ?old. event_kind e = BackupRequested"
    using invs(2) queued by (auto simp: timeline_inv_def of_jobs_def)
  then have seal: "sealTierForEvents (?old @ es) = run_tier cn env j srv factory err"
    using es(3) by (simp only: seal_append seal_of_requests NoTier_least)
  obtain e where "encoded ?i = Inr e" using assms(13) by (auto simp: getJob_def bind_result_Inr_iff)
  then have "well_formed ?i" using encodeURIComponent_Some_iff by (auto simp: encoded_Inr_iff)
  from detail_events_shown [OF ok assms(10) this assms(11,15,9), THEN mset_eq_setD]
  have shown: "set (rows_of (delivered reason c kind2 (listEventsHandler db tb r2) h2)) = set (?old @ es)"
    using es(2) by (auto simp: es(1))
  have "sealTierForEvents (rows_of (delivered reason c kind2 (listEventsHandler db tb r2) h2)) = run_tier cn env j srv factory err"
    unfolding seal [symmetric] by (rule seal_cong) (simp only: list.set_map shown)
  with detail_page_facts [OF assms(18) [unfolded handler]] assms(16) k show ?thesis by simp
qed

lemma sample_stored:
  "stored_events (w_tables (fl_world queued_fleet)) = [event_now sample_env queued_job BackupRequested [] [] (fl_world started_fleet)]"
  by (simp add: queued_fleet_def started_fleet_def startup_def new_fleet_def sample_env_def FailOrphanedJobs_def
      reconcileQueuedJobs_def ListJobsByStatus_def db_now_def no_rows_def submit_def CreateJob_def order_by_def
      publish_def event_now_def stored_events_def store_defs event_of_def Let_def)

lemma queued_job_id: "job_id queued_job = js ''db1-postgres-1''"
proof -
  have "int_str 1 = js ''1''" by (simp add: int_str_def nat_str.simps digit_unit_def ch_def js_Cons)
  then show ?thesis by (simp add: queued_job_def NewJob_def sample_request_def js_Cons)
qed

lemma sample_detail: "\<exists>v. JobDetailPage sample_browser h1 h2 = Inr v"
proof -
  have items: "\<exists>items. map_result (timeline_item sample_browser) es = Inr items" for es
  proof (induction es)
    case (Cons e es)
    moreover obtain t where "relative sample_browser (event_timestamp e) = Inr t" using sample_relative by blast
    ultimately show ?case by (auto simp: timeline_item_def)
  qed simp
  have "\<exists>facts. job_facts sample_browser k h2 = Inr facts" for k
  proof -
    obtain t where "relative sample_browser (job_queuedAt k) = Inr t" using sample_relative by blast
    with items [of "timeline sample_browser (rows_of h2)"] show ?thesis by (auto simp: job_facts_def Let_def)
  qed
  then have "\<exists>v. bind_result (job_facts sample_browser k h2) (\<lambda>f. Inr (JobView ns (Some f))) = Inr v" for k ns
    by (metis bind_result_Inr_iff)
  then show ?thesis by (auto simp: JobDetailPage_def Let_def split: option.split)
qed

lemma sample_turn:
  assumes "w = fl_world queued_fleet"
  shows "\<exists>srv w1 w2. run_start sample_controller sample_env queued_job w = (Inr (srv, \<lambda>_ _. Inr sample_plugin, sample_storage), w1)
    \<and> runPipeline sample_controller sample_env queued_job srv (\<lambda>_ _. Inr sample_plugin) sample_storage w1 = (None, w2)
    \<and> run_tier sample_controller sample_env queued_job srv (\<lambda>_ _. Inr sample_plugin) None = Restored
    \<and> length (stored_events (w_tables (snd (RunJob sample_controller sample_env queued_job w)))) = 13"
proof -
  let ?rs = "[\<lparr>res_id = js ''db'', res_name = js ''db''\<rparr>]" and ?v = "\<lparr>vf_enabled = True, vf_targetDir = []\<rparr>"
  have job: "job_id queued_job \<in> job_id ` set (tb_jobs (w_tables w))" using sample_fleets(5) by (simp add: assms)
  from sample_run(4) obtain srv where srv: "cn_servers sample_controller (job_host queued_job) = Some srv"
    "prepared sample_controller sample_env queued_job srv (\<lambda>_ _. Inr sample_plugin) = Some (sample_plugin, ?rs, ?v)" by blast
  obtain w1 where start: "run_start sample_controller sample_env queued_job w = (Inr (srv, \<lambda>_ _. Inr sample_plugin, sample_storage), w1)"
    using run_start_works [OF sample_run(1) job srv(1) sample_run(5,3)] by blast
  obtain err w2 where pipe: "runPipeline sample_controller sample_env queued_job srv (\<lambda>_ _. Inr sample_plugin) sample_storage w1 = (err, w2)"
    by fastforce
  obtain r w' where run: "RunJob sample_controller sample_env queued_job w = (r, w')" by fastforce
  note fin = RunJob_jobs(1) [OF run start pipe]
  have "taken_ids w = []"
    by (simp add: assms queued_fleet_def started_fleet_def startup_def new_fleet_def sample_env_def FailOrphanedJobs_def
      reconcileQueuedJobs_def ListJobsByStatus_def db_now_def no_rows_def submit_def CreateJob_def order_by_def Let_def)
  then have ids: "taken_ids w1 = []" by (simp add: run_start_taken(5) [OF start])
  obtain new es ss oks where new: "adds sample_env queued_job new ss w1 w2"
    "map event_kind new = [PluginDiscoveryStarted, PluginDiscoveryCompleted] @ map event_kind es
        @ (if sp_retention sample_storage (job_host queued_job) (job_policy queued_job) = None then [RetentionApplied] else [])"
    "resource_runs sample_env queued_job sample_plugin sample_storage ?v [] ?rs es ss oks"
    "err = None \<longleftrightarrow> filter Not oks = [] \<and> sp_retention sample_storage (job_host queued_job) (job_policy queued_job) = None"
    using runPipeline_prepared [OF pipe srv(2)] unfolding ids by blast
  have ok: "filter Not oks = []" by (rule runs_all_fine [OF new(3)]) (simp_all add: sample_run)
  then have err: "err = None" using new(4) by (simp add: sample_run)
  have "length (map event_kind new) = 10"
    using new(2) runs_success [OF new(3) ok] by (simp add: sample_run success_kinds_def)
  then have len: "length new = 10" by simp
  obtain all fs ts where all: "stored_events (w_tables w') = stored_events (w_tables w) @ all"
    "adds sample_env queued_job fs ts w1 w2" "length all = length fs + 2"
    using RunJob_stored [OF start pipe fin sample_run(1)] by blast
  moreover have "fs = new" using all(2) new(1) by (simp add: adds_def)
  ultimately have "length (stored_events (w_tables w')) = 13" using len sample_stored by (simp add: assms)
  moreover have "run_tier sample_controller sample_env queued_job srv (\<lambda>_ _. Inr sample_plugin) None = Restored"
    by (simp add: run_tier_def srv(2))
  ultimately show ?thesis using start pipe run by (simp add: err)
qed

theorem job_page_tells_outcome_witness:
  "\<exists>tb r1 r2 i notices facts. JobDetailPage sample_browser
       (delivered (\<lambda>_. []) sample_client Load (getJobHandler sample_db tb i) (mount () None False))
       (delivered (\<lambda>_. []) sample_client Load (listEventsHandler sample_db tb r2) (mount () None False))
     = Inr (JobView notices (Some facts))
     \<and> send sample_client (detail_events_call (job_id queued_job)) = Inr r2 \<and> served r1 = Some (EpJob i)
     \<and> jf_status facts = js ''Succeeded'' \<and> jf_seal facts = Seal Restored"
proof -
  let ?cn = sample_controller and ?env = sample_env and ?j = queued_job and ?h = "mount () None False"
  let ?f' = "report ?env (work ?cn ?env (take_job ?cn ?env queued_fleet))"
  let ?tb = "w_tables (fl_world ?f')"
  obtain srv w1 w2 where turn: "run_start ?cn ?env ?j (fl_world queued_fleet) = (Inr (srv, \<lambda>_ _. Inr sample_plugin, sample_storage), w1)"
    "runPipeline ?cn ?env ?j srv (\<lambda>_ _. Inr sample_plugin) sample_storage w1 = (None, w2)"
    "run_tier ?cn ?env ?j srv (\<lambda>_ _. Inr sample_plugin) None = Restored"
    and len: "length (stored_events (w_tables (snd (RunJob ?cn ?env ?j (fl_world queued_fleet))))) = 13"
    using sample_turn [OF refl] by blast
  have "length (stored_events ?tb) = 13" using len by (simp add: turn_is_RunJob [OF sample_fleets(6,8)])
  then have fits: "length (filter (\<lambda>e. event_jobId e = job_id ?j) (stored_events ?tb)) \<le> 200"
    using length_filter_le [of "\<lambda>e. event_jobId e = job_id ?j" "stored_events ?tb"] by linarith
  have wf: "well_formed (job_id ?j)" and id: "job_id ?j \<noteq> []" "\<not> dot_name (job_id ?j)"
    by (simp_all only: queued_job_id well_formed_js) (simp_all add: dot_name_def)
  obtain a where a: "getJob (job_id ?j) = Inr a" "init_headers (call_init a) = []"
    using encoded_well_formed [OF wf] by (auto simp: getJob_def)
  obtain r1 where r1: "send sample_client a = Inr r1" using sample_send [OF a(2)] by blast
  obtain r2 where r2: "send sample_client (detail_events_call (job_id ?j)) = Inr r2"
    using sample_send [of "detail_events_call (job_id ?j)"] by (auto simp: detail_events_call_def listEvents_def Let_def)
  have served: "served r1 = Some (EpJob (job_id ?j))" by (rule served_job_id [OF a(1) r1 id])
  let ?jobs = "delivered (\<lambda>_. []) sample_client Load (getJobHandler sample_db ?tb (job_id ?j)) ?h"
  let ?events = "delivered (\<lambda>_. []) sample_client Load (listEventsHandler sample_db ?tb r2) ?h"
  obtain v where v: "JobDetailPage sample_browser ?jobs ?events = Inr v" using sample_detail by blast
  from job_page_tells_outcome [OF new_fleet_init sample_fleet_runs(1) sample_fleets(6,8) sample_run(1) turn(1,2) refl fits
    sample_tables_simps(4) id a(1) r1 r2 _ served v] v r2 served
  show ?thesis by (fastforce simp: turn(3) StatusPill_def mount_def)
qed

text \<open>
  C30. The last events of a job may never reach its page. When the page sees that the job is over it
  stops asking for events at once: if no request for them is on its way at that moment, then without a
  reload or another job the seal and the timeline stay as they are for good, whatever the controller
  has recorded since the last answer.
\<close>

theorem last_events_never_fetched:
  assumes "reach hook_init (hook_step answers) h" "hook_mounted h" "isTerminal jobState" "in_flight h = []"
    and "run (hook_step answers) (rerender (hook_key h) (events_interval jobState) h) es t"
    and "\<forall>e\<in>set es. undisturbed (hook_key h) e"
  shows "rows_of t = rows_of h \<and> sealTierForEvents (rows_of t) = sealTierForEvents (rows_of h)
    \<and> timeline br (rows_of t) = timeline br (rows_of h)"
proof -
  let ?r = "rerender (hook_key h) (events_interval jobState) h"
  have "reach hook_init (hook_step answers) ?r"
    using assms(1) by (rule reach_step) (rule step_rerender [OF assms(2)])
  then have "timer_inv ?r" using hook.reach_inv by (auto simp: hook_inv_def)
  moreover have "in_flight ?r = []" "hook_data ?r = hook_data h"
    using assms(3,4) by (simp_all add: rerender_def Let_def)
  ultimately have "asleep (hook_key h) (hook_data h) ?r" using assms(3) by (simp add: asleep_def events_interval_def)
  from asleep.run_kept [OF assms(5,6) this] show ?thesis by (simp add: asleep_def rows_of_def)
qed

theorem last_events_never_fetched_witness:
  "let h = answer 0 (Inr (Some [])) (mount () (Some 5000) False) :: (bop_event list, unit) hook;
       over = (mount () (Some 5000) False)\<lparr>hook_data := Some (sample_job\<lparr>job_state := Completed\<rparr>)\<rparr> :: (job, unit) hook
   in \<exists>t. run (hook_step (\<lambda>_ _. True)) (rerender () (events_interval over) h) [Visibility True, Visibility False] t
     \<and> sealTierForEvents (rows_of t) = NoTier"
proof -
  let ?m = "mount () (Some 5000) False :: (bop_event list, unit) hook"
  let ?h = "answer 0 (Inr (Some [])) ?m"
  let ?over = "(mount () (Some 5000) False)\<lparr>hook_data := Some (sample_job\<lparr>job_state := Completed\<rparr>)\<rparr> :: (job, unit) hook"
  let ?r = "rerender () (events_interval ?over) ?h" and ?step = "hook_step (\<lambda>_ _. True)"
  have flying: "in_flight ?m = [\<lparr>fl_id = 1, fl_kind = Load, fl_key = ()\<rparr>]" "hook_mounted ?m"
    by (simp_all add: mount_def poll_setup_def start_timer_def Let_def)
  then have "?step ?m (Answer 0 (Inr (Some []))) ?h" by (intro step_answer) simp_all
  then have reach: "reach hook_init ?step ?h" by (rule reach_step [OF reach_mount])
  have h: "hook_mounted ?h" "in_flight ?h = []" "hook_data ?h = Some []" "hook_key ?h = ()"
    using flying by (simp_all add: answer_def mount_def poll_setup_def start_timer_def Let_def)
  have over: "isTerminal ?over" by (simp add: isTerminal_def)
  have "?step ?r (Visibility True) (visibility True ?r)"
    "?step (visibility True ?r) (Visibility False) (visibility False (visibility True ?r))" by (rule step_visibility)+
  then have t: "run ?step ?r [Visibility True, Visibility False] (visibility False (visibility True ?r))"
    by (blast intro: run.intros)
  have "sealTierForEvents (rows_of ?h) = NoTier" using h(3) by (simp add: rows_of_def sealTierForEvents_def)
  with last_events_never_fetched [OF reach h(1) over h(2), of "[Visibility True, Visibility False]"] t show ?thesis
    by (auto simp: Let_def)
qed

end
