(* ===== verification/Spec2Isabelle.thy ===== *)
theory Spec2Isabelle
  imports Prelude JsText Types Client UseApi Session WriteAction TriggerModal PluginConfig Seal
    Activity Format Pages Shell DialogKeys Server Settings Metadata Reads Pipeline Lifecycle Outcome
begin

text \<open>
  A verification development of the web console of the backup orchestration platform
  (\<open>web/src\<close>, TypeScript and React), and of the controller behind it (Go): its HTTP API
  (\<open>internal/api\<close>), its metadata store, its backup pipeline, and the life of a job from the
  schedule or the dialog to the page that shows what became of it.

  \<^bold>\<open>The program.\<close> The console is a single-page application over the HTTP API of the
  controller. One module, \<open>api/client.ts\<close>, holds the bearer token and makes every request.
  \<open>state/auth.tsx\<close> decides whether the tab is connected: it probes a token the operator enters,
  and listens for the 401 answers of the client. Each page asks for its data through the hook
  \<open>hooks/useApi.ts\<close>, which loads when its dependencies change and polls in the background.
  Two forms write: the dialog that queues a backup and the plugin configuration. The rest
  derives what is drawn from the answers: the seal, the activity chart, the lists and dates.
  The controller keeps jobs, snapshots, events and plugin settings in a database. Jobs, created by
  a schedule or over the API, wait in a queue in memory; one consumer takes them and runs the
  pipeline of each (discover, back up, check, upload, check again, record, test a restore), which
  publishes an event at every stage. The console reads the tables over the API.

  \<^bold>\<open>Theories.\<close>
  \<^item> \<^theory_text>\<open>Prelude\<close>: strings as lists of 16-bit code units, errors as values, the stable sort,
    and the locales \<open>codec\<close>, \<open>transition_system\<close>, \<open>kept_assertion\<close> and \<open>latest_guard\<close>.
  \<^item> \<^theory_text>\<open>JsText\<close>: the string operations of the language the program calls (\<open>trim\<close>,
    \<open>split\<close>, \<open>join\<close>, \<open>slice\<close>, \<open>encodeURIComponent\<close>, \<open>URLSearchParams\<close>), with the readers
    of a path segment and of a query as reference definitions.
  \<^item> \<^theory_text>\<open>Types\<close>: \<open>api/types.ts\<close>, and the JSON text of the two request bodies.
  \<^item> \<^theory_text>\<open>Client\<close>: \<open>api/client.ts\<close>. The record \<open>client\<close> is the module's state (\<open>token\<close>,
    \<open>sessionStorage\<close>, the set of listeners); \<open>request_start\<close> and \<open>request_finish\<close> are
    \<open>request\<close> before and after its \<open>await fetch\<close>; one definition per endpoint of \<open>api\<close>.
    Shown: the headers of every request, every way a request ends, and what is read back from
    the URL: names, ids and filters exactly, but for the names \<open>.\<close> and \<open>..\<close> in a path.
  \<^item> \<^theory_text>\<open>UseApi\<close>: \<open>hooks/useApi.ts\<close>. The record \<open>hook\<close> holds the three state variables,
    the request counter, the polling effect's closure and the intervals, listener and requests
    of the browser; one function per handler, effect and answer, and the relation \<open>hook_step\<close>
    of everything that can happen to a mounted hook. Shown: an invariant, the refinement of an
    abstract view (loading, failed, or showing an answer to the current question), that answers
    to an older question never arrive on screen, that there is one timer, and two behaviours
    in which a background poll leaves a spinner or an error on screen.
  \<^item> \<^theory_text>\<open>Session\<close>: \<open>state/auth.tsx\<close>, the form of \<open>pages/ConnectPage.tsx\<close>, the guard of
    \<open>App.tsx\<close> and the Disconnect button of \<open>AppShell.tsx\<close>, on top of the client's state.
    Shown: the invariant between storage, token, session and form, what can open a session,
    the verdict of a probe, and what a 401, a reload and a late answer do.
  \<^item> \<^theory_text>\<open>WriteAction\<close>: the locale of what the two write forms promise about busy and error;
    interpreted by \<^theory_text>\<open>TriggerModal\<close> and \<^theory_text>\<open>PluginConfig\<close>.
  \<^item> \<^theory_text>\<open>TriggerModal\<close>: \<open>components/TriggerBackupModal.tsx\<close>, with its effects, the props
    it is given and the requests on their way.
  \<^item> \<^theory_text>\<open>PluginConfig\<close>: \<open>pages/PluginConfigPage.tsx\<close>: list fields, the load/save hook, the
    three forms as values of one record, and the choice of a form.
  \<^item> \<^theory_text>\<open>Seal\<close>: \<open>components/Seal.tsx\<close> and \<open>StatusPill.tsx\<close>; the tiers are a \<open>linorder\<close>.
  \<^item> \<^theory_text>\<open>Activity\<close>: \<open>lib/activity.ts\<close> and the data of \<open>ActivityChart.tsx\<close>, with the
    Gregorian calendar written out.
  \<^item> \<^theory_text>\<open>Format\<close>: \<open>lib/format.ts\<close> and \<open>lib/motion.ts\<close>.
  \<^item> \<^theory_text>\<open>Pages\<close>: what each page over \<open>useApi\<close> asks for, derives and shows; properties
    that span the hook, the client and a page are there.
  \<^item> \<^theory_text>\<open>Shell\<close>: \<open>hooks/usePrefersReducedMotion.ts\<close>, the connect card, \<open>App.tsx\<close> and
    \<open>AppShell.tsx\<close>. Shown: which screen a reachable session has and what its connect button
    says, and that the frame obeys the preference of the browser.
  \<^item> \<^theory_text>\<open>Server\<close>: \<open>auth.go\<close>, the routes of \<open>server.go\<close>, \<open>plugin_config.go\<close> with the
    \<open>ParseConfig\<close> of the three plugins, and \<open>backups.go\<close> with \<open>BuildPlugin\<close>, \<open>NewJob\<close>
    and the queue. Shown: where every call of the console arrives, what a token may do, that a
    configuration is stored exactly when what the controller reads of it is acceptable and is
    answered as it was read, and that a backup request makes one job or changes nothing. The stored
    column is an instance of the locale \<open>codec\<close>.
  \<^item> \<^theory_text>\<open>DialogKeys\<close>: the trigger dialog on its page: what opens and closes it, and its
    listener for the Escape key, of which there is one exactly while it is open.
  \<^item> \<^theory_text>\<open>Settings\<close>: the settings table under any sequence of PUT requests, as a typed store:
    every stored row is usable, by the form that loads it and by the run that reads it.
  \<^item> \<^theory_text>\<open>Metadata\<close>: \<open>internal/metadata\<close> over its tables, one function for each method with
    its SQL statement written out on the rows. Shown: keys stay distinct and events readable, and
    a page of rows holds the newest.
  \<^item> \<^theory_text>\<open>Reads\<close>: the handlers of \<open>internal/api/handlers.go\<close>. Shown: what the jobs, snapshots
    and events pages show is what the tables hold, for every filter a page can send.
  \<^item> \<^theory_text>\<open>Pipeline\<close>: \<open>RunJob\<close>, \<open>runPipeline\<close> and \<open>backupResource\<close> of
    \<open>internal/controller\<close>, with the events, rows and files of a run. Shown: what a completed job
    has done, that only verified snapshots are recorded, that the outcome is decided by the
    resources alone, and that no artifact stays behind.
  \<^item> \<^theory_text>\<open>Lifecycle\<close>: the process (\<open>internal/scheduler\<close>, \<open>internal/queue\<close>,
    \<open>internal/cli/wiring.go\<close>): jobs are created while another runs, the process may die at any
    point and starts again. Shown: the queue never holds a job twice or one that is over, the
    table is a ledger in which jobs only advance, and after a start every job ends.
  \<^item> \<^theory_text>\<open>Outcome\<close>: from the queue to the screen: the process changes its tables through the
    store alone (the locale \<open>pipeline_kept\<close>), and the job page tells what became of a run.

  \<^bold>\<open>End to end.\<close> The theorems of this theory put the console and the controller together: a
  probe opens the app exactly for a listed token; a write without the scope for it is refused,
  explained, and leaves the session alone; a saved form opens again as the controller read it, which
  is as it was saved unless a text holds half a surrogate pair; a backup asked for in the dialog is
  put in the table and the queue and confirmed. \<open>Outcome\<close> follows the job from there to its
  page.

  \<^bold>\<open>Asynchrony.\<close> Code between two \<open>await\<close>s runs without interruption, so it is one function
  of the state. An \<open>async\<close> operation is therefore two functions, its start and its finish, and
  the requests on their way are part of the state. Steps of a transition relation interleave
  them with everything else in any order. The second \<open>await\<close> of \<open>request\<close> (reading the
  body) is merged with the first: the listeners called for a 401 and the handler of the answer
  are one step. Effects of React run after the render that changed their dependency, in the
  same step; its development-only double invocation of effects is left out, and a state
  update after unmounting does nothing.

  \<^bold>\<open>Arguments.\<close> What is not code of the repository is an argument: what \<open>fetch\<close> answers, with
  the two readings made of a body; the parser of dates, the clock, the time zone, the phrases of
  \<open>Intl\<close> and \<open>localeCompare\<close> of the browser (of the last, only that it is a consistent
  comparison, where a list is said to be sorted). Routes are matched by the routing library;
  the model starts from the parameters it hands over. On the side of the controller the hash of
  a token, the environment, Go's quoting, the errors of the database and the plugin factories are
  arguments. Hashes are compared, so statements about tokens assume that no listed token collides
  with the one presented. A request body is taken as parsed JSON, with what Go's decoder makes of its strings written out
  (\<open>go_json\<close>); the controller's own strings are taken to be valid text. A header is a list of bytes.
  What a plugin, the storage and the hash of a file give is an argument of a run, each call a
  function of its own arguments while the run lasts, and so is the database, statement by statement: any of them may fail at any point, and a job whose time is up
  is one whose remaining calls fail. The time of a row is text, ordered by an argument. Statements
  with the hypothesis \<open>works\<close> are about runs in which no statement fails.

  \<^bold>\<open>Numbers.\<close> Counts, times and sizes are unbounded integers or exact fractions; they are exact
  in a double below \<open>2^53\<close>. \<open>Math.log\<close> is taken to find the power of 1024 below a count. The
  port of a configuration is an integer, as the number input has it on submit; the controller
  stores it and reads it back as a double, which is written out (\<open>float64\<close>), so its round trip
  is stated for ports below \<open>2^53\<close>.

  \<^bold>\<open>Bounds.\<close> Every loop of the program runs over a list, a string or a counter, and what goes on
  forever (polling, the life of the process) is a step relation. Only \<open>runConsumer\<close>, the loop of
  the consumer while nothing else happens, counts the jobs it may take: as many as the table has
  rows are enough, and that it then returns with an empty queue is part of its theorem.

  \<^bold>\<open>Not modelled.\<close> \<open>main.tsx\<close>, style classes, SVG geometry, the animations apart from the
  stagger delay and the transitions of the frame, the tests and the build. Of the controller: the
  commands of the plugins and of restic, which are programs of their own; the cron library, which
  only decides when \<open>dispatch\<close> is called; metrics, logging, the start of the HTTP server, the
  commands of the CLI other than \<open>controller\<close> (\<open>bop backup\<close> runs a job in a process of its own),
  and the hourly call of \<open>PruneEventsOlderThan\<close>, which is an operation of the store but no step
  of the process here; and the file an interrupted run leaves on disk (a crash falls between the
  three parts of a run, or leaves the rows of a run whose statements fail from some point on). Panics of a publisher are recovered by \<open>publish\<close> and not modelled.
\<close>

section \<open>The console and the controller\<close>

lemma authMiddleware_denies:
  "authMiddleware sha hashes req = Some a \<Longrightarrow> ans_status a = 401 \<and> ans_value a = None \<and> ans_error a \<noteq> None"
  by (auto simp: authMiddleware_def writeError_def Let_def split: option.splits if_splits)

lemma received_ok: "fst (request_finish c hush (received reason (writeJSON 200 v))) = Inr (Some v)"
  by (simp add: request_finish_def received_def writeJSON_def res_ok_def)

lemma received_denied:
  assumes "authMiddleware sha hashes req = Some a"
  shows "\<exists>m. fst (request_finish c hush (received reason a)) = Inl (ApiError 401 m)"
  using authMiddleware_denies [OF assms] by (auto simp: request_finish_def received_def res_ok_def Let_def)

text \<open>
  C14. The connect form against a controller: a probe arrives at the hosts endpoint, and its answer
  opens the app exactly when the operator listed the token, for reading or for writing. Any other
  token is forgotten and reported as not accepted.
\<close>

theorem listed_tokens_connect:
  assumes "reach session_init session_step s" "n < length (sent s)" "sent_probe (sent s ! n)"
    and "sent_wire (sent s ! n) = Inr req" "sent_token (sent s ! n) = Some t" "header_token t"
    and "no_collision sha (read_tokens ts @ write_tokens ts) (wire_bytes t)"
    and "session_step s (AnswerCall n (received reason
      (guarded sha (endpoint_hashes sha ts EpHosts) req (writeJSON 200 (hosts :: host list))))) u"
  shows "served req = Some EpHosts
    \<and> (connected u \<longleftrightarrow> wire_bytes t \<in> set (read_tokens ts @ write_tokens ts))
    \<and> (\<not> connected u \<longrightarrow> auth_error u = Some NOT_ACCEPTED \<and> token (ses_client u) = None)"
proof -
  note inv = tab.reach_inv [OF assms(1)]
  have up: "unproven s (sent s ! n)" by (rule probe_answered(1) [OF inv assms(2,3)])
  then have tok: "token (ses_client s) = Some t" and req: "send (ses_client s) listHosts = Inr req"
    using assms(4,5) by (simp_all add: unproven_def)
  have ini: "init_headers (call_init listHosts) = []" by (simp add: listHosts_def)
  have t: "t \<noteq> []" using assms(6) by (simp add: header_token_def)
  have auth: "(authMiddleware sha (endpoint_hashes sha ts EpHosts) req :: host list api_answer option)
      = (if wire_bytes t \<in> set (read_tokens ts @ write_tokens ts) then None else Some (writeError 401 (js ''invalid token'')))"
    using send_authorization [OF req ini] header_value_bearer [OF assms(6)] tok t known_hash [OF assms(7)]
    by (simp add: authMiddleware_bearer endpoint_hashes_def needs_write_def readHashes_def)
  let ?out = "received reason (guarded sha (endpoint_hashes sha ts EpHosts) req (writeJSON 200 hosts))"
  have u: "u = answer_sent n ?out s" using assms(8) by (auto elim: ses_answer_cases)
  have res: "call_result s n ?out = fst (request_finish (ses_client s) (sent_suppress (sent s ! n)) ?out)"
    using assms(4) by (simp add: call_result_def)
  note verdict = answer_probe [OF inv assms(3), of ?out]
  show ?thesis
  proof (cases "wire_bytes t \<in> set (read_tokens ts @ write_tokens ts)")
    case True
    with auth have "?out = received reason (writeJSON 200 hosts)" by (simp add: guarded_def)
    then have "call_result s n ?out = Inr (Some hosts)" using res received_ok by metis
    with True served_reads(1) [OF req] show ?thesis unfolding u by (simp add: verdict(1))
  next
    case False
    with auth have den: "authMiddleware sha (endpoint_hashes sha ts EpHosts) req = Some (writeError 401 (js ''invalid token'') :: host list api_answer)"
      by simp
    then have "?out = received reason (writeError 401 (js ''invalid token''))" by (simp add: guarded_def)
    then obtain m where "call_result s n ?out = Inl (ApiError 401 m)" using res received_denied [OF den] by metis
    with False served_reads(1) [OF req] verdict show ?thesis unfolding u by simp
  qed
qed

theorem listed_tokens_connect_witness:
  "\<exists>req u. sent_wire (sent (connecting (js ''abc'')) ! 0) = Inr req
     \<and> session_step (connecting (js ''abc'')) (AnswerCall 0 (received (\<lambda>_. []) (guarded id
         (endpoint_hashes id \<lparr>read_tokens = [wire_bytes (js ''abc'')], write_tokens = []\<rparr> EpHosts) req
         (writeJSON 200 ([] :: host list))))) u
     \<and> connected u"
proof -
  let ?s = "connecting (js ''abc'')" and ?ts = "\<lparr>read_tokens = [wire_bytes (js ''abc'')], write_tokens = []\<rparr>"
  note c = connecting [of "js ''abc''", simplified]
  obtain w where w: "sent ?s = [\<lparr>sent_probe = True, sent_suppress = False, sent_token = Some (js ''abc''), sent_wire = Inr w\<rparr>]"
    using c(5) by blast
  let ?out = "received (\<lambda>_. []) (guarded id (endpoint_hashes id ?ts EpHosts) w (writeJSON 200 ([] :: host list)))"
  have st: "session_step ?s (AnswerCall 0 ?out) (answer_sent 0 ?out ?s)" by (rule ses_answer) (simp add: w)
  have t: "header_token (js ''abc'')" by (simp add: header_token_def js_Cons unat_ch http_space_def)
  have known: "no_collision id (read_tokens ?ts @ write_tokens ?ts) (wire_bytes (js ''abc''))"
    by (simp add: no_collision_def)
  have "connected (answer_sent 0 ?out ?s)"
    using listed_tokens_connect [OF c(1) _ _ _ _ t known st] by (simp add: w)
  with st show ?thesis by (intro exI [of _ w] exI [of _ "answer_sent 0 ?out ?s"]) (simp add: w)
qed

text \<open>
  C17. Both write forms under a token without the write scope: whatever the handler would do is not
  done, no listener is called, so the session goes on, and the form says that the token cannot do
  this.
\<close>

theorem missing_scope_is_explained:
  assumes "token c = Some t" "header_token t" "wire_bytes t \<notin> set (write_tokens ts)"
    and "no_collision sha (read_tokens ts @ write_tokens ts) (wire_bytes t)"
    and "send c (triggerBackup r) = Inr trig" "setPluginConfig h p cfg = Inr a" "send c a = Inr put"
    and "h \<noteq> []" "p \<noteq> []" "\<not> dot_name h" "\<not> dot_name p"
    and "out1 = received reason (guarded sha (endpoint_hashes sha ts (the (served trig))) trig (ans1 :: job api_answer))"
    and "out2 = received reason (guarded sha (endpoint_hashes sha ts (the (served put))) put (ans2 :: 'c api_answer))"
  shows "md_error (trigger_finish (fst (request_finish d (call_suppress (triggerBackup r)) out1)) m) = Some TRIGGER_DENIED
    \<and> cf_saveError (save_answer pf (fst (request_finish d (call_suppress a) out2)) s) = Some SAVE_DENIED
    \<and> snd (request_finish d (call_suppress (triggerBackup r)) out1) = []
    \<and> snd (request_finish d (call_suppress a) out2) = []"
proof -
  obtain b where a: "a = write_call (js ''PUT'') b (config_json cfg)"
    using assms(6) by (auto simp: setPluginConfig_def bind_result_Inr_iff)
  have served: "served trig = Some EpBackups" "served put = Some (EpSetConfig h p)"
    using served_reads(5) [OF assms(5)] served_config(2) [OF assms(6,7)] assms(8-11) by simp_all
  have sup: "call_suppress (triggerBackup r)" "call_suppress a" by (simp_all add: triggerBackup_def a)
  have known: "no_collision sha (write_tokens ts) (wire_bytes t)" using assms(4) by (simp add: no_collision_def)
  have denied: "authMiddleware sha (endpoint_hashes sha ts e) req = Some (writeError 401 (js ''invalid token''))"
    if "send c x = Inr req" "init_headers (call_init x) = []" "needs_write e" for x req e
    using send_authorization [OF that(1,2)] header_value_bearer [OF assms(2)] assms(1-3) that(3) known_hash [OF known]
    by (simp add: authMiddleware_bearer endpoint_hashes_def writeHashes_def header_token_def)
  have d1: "authMiddleware sha (endpoint_hashes sha ts EpBackups) trig
      = Some (writeError 401 (js ''invalid token'') :: job api_answer)"
    by (rule denied [OF assms(5)]) (simp_all add: triggerBackup_def needs_write_def)
  have d2: "authMiddleware sha (endpoint_hashes sha ts (EpSetConfig h p)) put
      = Some (writeError 401 (js ''invalid token'') :: 'c api_answer)"
    by (rule denied [OF assms(7)]) (simp_all add: a needs_write_def)
  have out: "out1 = received reason (writeError 401 (js ''invalid token''))"
    "out2 = received reason (writeError 401 (js ''invalid token''))"
    using assms(12,13) d1 d2 by (simp_all add: served guarded_def)
  obtain x y where "fst (request_finish d True out1) = Inl (ApiError 401 x)"
    "fst (request_finish d True out2) = Inl (ApiError 401 y)"
    using received_denied [OF d1, of d True reason] received_denied [OF d2, of d True reason] unfolding out by blast
  then show ?thesis using sup
    by (simp add: trigger_finish_def save_answer_def request_finish_notified split: fetch_outcome.split)
qed

theorem missing_scope_is_explained_witness:
  "\<exists>trig. send (setToken (js ''abc'') (module_load (\<lambda>_. None)))
        (triggerBackup \<lparr>req_host = js ''db1'', req_plugin = js ''postgres''\<rparr>) = Inr trig
     \<and> md_error (trigger_finish (fst (request_finish (module_load (\<lambda>_. None)) True (received (\<lambda>_. []) (guarded id
          (endpoint_hashes id \<lparr>read_tokens = [wire_bytes (js ''abc'')], write_tokens = []\<rparr> EpBackups) trig
          (writeError 404 []))))) (opened sample_hosts)) = Some TRIGGER_DENIED"
proof -
  let ?c = "setToken (js ''abc'') (module_load (\<lambda>_. None))" and ?d = "module_load (\<lambda>_. None)"
  let ?ts = "\<lparr>read_tokens = [wire_bytes (js ''abc'')], write_tokens = []\<rparr>"
  let ?r = "\<lparr>req_host = js ''db1'', req_plugin = js ''postgres''\<rparr>" and ?cfg = "Filesystem sample_fs"
  have t: "token ?c = Some (js ''abc'')" "header_token (js ''abc'')" "wire_bytes (js ''abc'') \<notin> set (write_tokens ?ts)"
    "no_collision id (read_tokens ?ts @ write_tokens ?ts) (wire_bytes (js ''abc''))"
    by (simp_all add: header_token_def js_Cons unat_ch http_space_def no_collision_def)
  obtain trig where trig: "send ?c (triggerBackup ?r) = Inr trig"
    using send_leaves [OF t(1,2), of "triggerBackup ?r"] by (auto simp: triggerBackup_def)
  obtain eh ep where "encoded (js ''db1'') = Inr eh" "encoded (js ''filesystem'') = Inr ep"
    using encoded_well_formed well_formed_js by blast
  then obtain a where a: "setPluginConfig (js ''db1'') (js ''filesystem'') ?cfg = Inr a" "init_headers (call_init a) = []"
    by (auto simp: setPluginConfig_def config_path_def)
  obtain put where put: "send ?c a = Inr put" using send_leaves [OF t(1,2) a(2)] by blast
  have served: "served trig = Some EpBackups" by (rule served_reads(5) [OF trig])
  have plain: "js ''db1'' \<noteq> []" "js ''filesystem'' \<noteq> []" "\<not> dot_name (js ''db1'')" "\<not> dot_name (js ''filesystem'')"
    by (simp_all add: dot_name_def)
  have "md_error (trigger_finish (fst (request_finish ?d (call_suppress (triggerBackup ?r)) (received (\<lambda>_. []) (guarded id
      (endpoint_hashes id ?ts (the (served trig))) trig (writeError 404 []))))) (opened sample_hosts)) = Some TRIGGER_DENIED"
    using missing_scope_is_explained [where reason = "\<lambda>_. []" and d = ?d and m = "opened sample_hosts"
        and ?ans1.0 = "writeError 404 []" and ?ans2.0 = "writeError 404 [] :: filesystem_config api_answer",
        OF t trig a(1) put plain refl refl] by blast
  moreover have "call_suppress (triggerBackup ?r)" by (simp add: triggerBackup_def)
  ultimately show ?thesis using trig by (simp add: served)
qed

lemma saved_then_loaded:
  assumes "small_port c" "ans_status a = 200"
    and "setPluginConfigHandler q env failing h (plugin_name c) (Some (config_json c)) store = (a, store')"
  shows "Option.bind (ans_value (getPluginConfigHandler me None store' h (plugin_name c))) console_config = Some (go_config c)"
proof -
  have "store' = store((h, plugin_name c) \<mapsto> marshal (GMap (toRawConfig (dto_of (go_config c)))))"
    using assms(2,3) unfolding setPluginConfigHandler_sent [OF assms(1)]
    by (auto simp: writeError_def split: option.splits)
  then have "getPluginConfigHandler me None store' h (plugin_name (go_config c)) = writeJSON 200 (dto_of (go_config c))"
    by (intro getPluginConfigHandler_stored) (simp_all add: assms(1))
  then show ?thesis by (simp add: writeJSON_def)
qed

text \<open>What a form sends are listable entries, and they are listable still when the controller has read them.\<close>

lemma replacement_plain: "\<not> is_space (cu 65533)" "cu 65533 \<noteq> ch CHR '',''"
proof -
  show "\<not> is_space (cu 65533)" by (simp add: is_space_def)
  have "unat (ch CHR '','') = 44" by (simp add: unat_ch)
  then show "cu 65533 \<noteq> ch CHR '',''" by (metis replacement_code(3) numeral_eq_iff num.distinct(5) semiring_norm(84))
qed

lemma listable_go_text:
  assumes "listable x"
  shows "listable (go_text x)"
proof -
  have x: "x \<noteq> []" "\<not> is_space (hd x)" "\<not> is_space (last x)" "ch CHR '','' \<notin> set x"
    using assms by (auto simp: listable_def trimmed_def)
  have units: "go_text x ! i = x ! i \<or> go_text x ! i = cu 65533" if "i < length x" for i
    using list_all2_nthD [OF go_text_units that] by auto
  have "hd (go_text x) = hd x \<or> hd (go_text x) = cu 65533" "last (go_text x) = last x \<or> last (go_text x) = cu 65533"
    using units [of 0] units [of "length x - 1"] x(1) by (simp_all add: hd_conv_nth last_conv_nth)
  moreover have "ch CHR '','' \<notin> set (go_text x)"
  proof
    assume "ch CHR '','' \<in> set (go_text x)"
    then obtain i where "i < length x" "go_text x ! i = ch CHR '',''" by (auto simp: in_set_conv_nth)
    with units [of i] x(4) replacement_plain(2) show False by (metis nth_mem)
  qed
  ultimately show ?thesis using x replacement_plain(1) by (auto simp: listable_def trimmed_def)
qed

lemma sent_listable:
  "payload_of InformixConfigForm s = Some c \<Longrightarrow> list_all listable (ifx_tables c)"
  "payload_of PostgresConfigForm u = Some d \<Longrightarrow> list_all listable (pg_databases d)"
  "payload_of FilesystemConfigForm v = Some e \<Longrightarrow> list_all listable (fs_paths e) \<and> list_all listable (fs_excludes e)"
  using splitList_listable
  by (auto simp: payload_of_def InformixConfigForm_def PostgresConfigForm_def FilesystemConfigForm_def)

lemma reopened:
  "list_all listable (ifx_tables c) \<Longrightarrow> payload_of InformixConfigForm (load_answer InformixConfigForm (Inr (Some c)) s1) = Some c"
  "list_all listable (pg_databases d) \<Longrightarrow> payload_of PostgresConfigForm (load_answer PostgresConfigForm (Inr (Some d)) u1) = Some d"
  "list_all listable (fs_paths e) \<Longrightarrow> list_all listable (fs_excludes e)
    \<Longrightarrow> payload_of FilesystemConfigForm (load_answer FilesystemConfigForm (Inr (Some e)) v1) = Some e"
  by (simp_all add: payload_of_def load_answer_def InformixConfigForm_def PostgresConfigForm_def
      FilesystemConfigForm_def splitList_joinList_iff)

lemma map_listable_go_text: "list_all listable xs \<Longrightarrow> list_all listable (map go_text xs)"
  by (induction xs) (simp_all add: listable_go_text)

text \<open>
  C15. From the screen to the database and back, for every text that was typed. When a controller
  has taken what one of the three forms submitted, opening the form again for that host shows what
  the controller read of it, in a form that would submit exactly that. This is the very configuration
  that was submitted when its texts are well formed; a surrogate without its partner, which JSON
  carries but a Go string cannot, comes back as U+FFFD (\<open>go_config\<close>).
\<close>

theorem saved_form_reopens:
  "(payload_of InformixConfigForm s = Some c \<and> abs (ifx_port c) < 9007199254740992
      \<and> setPluginConfigHandler q env failing h (js ''informix'') (Some (config_json (Informix c))) store = (a, store')
      \<and> ans_status a = 200 \<longrightarrow>
    (\<exists>x. Option.bind (ans_value (getPluginConfigHandler me None store' h (js ''informix''))) console_config = Some (Informix x)
      \<and> Informix x = go_config (Informix c) \<and> (list_all well_formed (config_texts (Informix c)) \<longrightarrow> x = c)
      \<and> payload_of InformixConfigForm (load_answer InformixConfigForm (Inr (Some x)) s1) = Some x))
   \<and> (payload_of PostgresConfigForm u = Some d
      \<and> setPluginConfigHandler q env failing h (js ''postgres'') (Some (config_json (Postgres d))) store = (a, store')
      \<and> ans_status a = 200 \<longrightarrow>
    (\<exists>x. Option.bind (ans_value (getPluginConfigHandler me None store' h (js ''postgres''))) console_config = Some (Postgres x)
      \<and> Postgres x = go_config (Postgres d) \<and> (list_all well_formed (config_texts (Postgres d)) \<longrightarrow> x = d)
      \<and> payload_of PostgresConfigForm (load_answer PostgresConfigForm (Inr (Some x)) u1) = Some x))
   \<and> (payload_of FilesystemConfigForm v = Some e
      \<and> setPluginConfigHandler q env failing h (js ''filesystem'') (Some (config_json (Filesystem e))) store = (a, store')
      \<and> ans_status a = 200 \<longrightarrow>
    (\<exists>x. Option.bind (ans_value (getPluginConfigHandler me None store' h (js ''filesystem''))) console_config = Some (Filesystem x)
      \<and> Filesystem x = go_config (Filesystem e) \<and> (list_all well_formed (config_texts (Filesystem e)) \<longrightarrow> x = e)
      \<and> payload_of FilesystemConfigForm (load_answer FilesystemConfigForm (Inr (Some x)) v1) = Some x))"
proof (intro conjI impI; elim conjE)
  assume c: "payload_of InformixConfigForm s = Some c" "abs (ifx_port c) < 9007199254740992"
    and h: "setPluginConfigHandler q env failing h (js ''informix'') (Some (config_json (Informix c))) store = (a, store')"
    and ok: "ans_status a = 200"
  obtain x where x: "go_config (Informix c) = Informix x" "ifx_tables x = map go_text (ifx_tables c)" by simp
  show "\<exists>x. Option.bind (ans_value (getPluginConfigHandler me None store' h (js ''informix''))) console_config = Some (Informix x)
      \<and> Informix x = go_config (Informix c) \<and> (list_all well_formed (config_texts (Informix c)) \<longrightarrow> x = c)
      \<and> payload_of InformixConfigForm (load_answer InformixConfigForm (Inr (Some x)) s1) = Some x"
    using saved_then_loaded [of "Informix c" a q env failing h store store' me] c h ok x go_config_id [of "Informix c"]
      reopened(1) [of x] map_listable_go_text [OF sent_listable(1) [OF c(1)]]
    by (intro exI [of _ x]) simp
next
  assume d: "payload_of PostgresConfigForm u = Some d"
    and h: "setPluginConfigHandler q env failing h (js ''postgres'') (Some (config_json (Postgres d))) store = (a, store')"
    and ok: "ans_status a = 200"
  obtain x where x: "go_config (Postgres d) = Postgres x" "pg_databases x = map go_text (pg_databases d)" by simp
  show "\<exists>x. Option.bind (ans_value (getPluginConfigHandler me None store' h (js ''postgres''))) console_config = Some (Postgres x)
      \<and> Postgres x = go_config (Postgres d) \<and> (list_all well_formed (config_texts (Postgres d)) \<longrightarrow> x = d)
      \<and> payload_of PostgresConfigForm (load_answer PostgresConfigForm (Inr (Some x)) u1) = Some x"
    using saved_then_loaded [of "Postgres d" a q env failing h store store' me] h ok x go_config_id [of "Postgres d"]
      reopened(2) [of x] map_listable_go_text [OF sent_listable(2) [OF d]]
    by (intro exI [of _ x]) simp
next
  assume e: "payload_of FilesystemConfigForm v = Some e"
    and h: "setPluginConfigHandler q env failing h (js ''filesystem'') (Some (config_json (Filesystem e))) store = (a, store')"
    and ok: "ans_status a = 200"
  let ?x = "\<lparr>fs_paths = map go_text (fs_paths e), fs_excludes = map go_text (fs_excludes e)\<rparr>"
  show "\<exists>x. Option.bind (ans_value (getPluginConfigHandler me None store' h (js ''filesystem''))) console_config = Some (Filesystem x)
      \<and> Filesystem x = go_config (Filesystem e) \<and> (list_all well_formed (config_texts (Filesystem e)) \<longrightarrow> x = e)
      \<and> payload_of FilesystemConfigForm (load_answer FilesystemConfigForm (Inr (Some x)) v1) = Some x"
    using saved_then_loaded [of "Filesystem e" a q env failing h store store' me] h ok go_config_id [of "Filesystem e"]
      reopened(3) [of ?x] sent_listable(3) [OF e] map_listable_go_text
    by (intro exI [of _ ?x]) simp
qed

theorem saved_form_reopens_witness:
  "\<exists>a store'. setPluginConfigHandler id (\<lambda>_. []) None (js ''h'') (js ''filesystem'')
        (Some (config_json (Filesystem sample_fs))) (\<lambda>_. None) = (a, store')
     \<and> Option.bind (ans_value (getPluginConfigHandler (\<lambda>_. []) None store' (js ''h'') (js ''filesystem''))) console_config
        = Some (Filesystem sample_fs)
     \<and> payload_of FilesystemConfigForm (load_answer FilesystemConfigForm (Inr (Some sample_fs)) (form_mount FilesystemConfigForm (js ''h'')))
        = Some sample_fs"
proof -
  obtain a store' where h: "setPluginConfigHandler id (\<lambda>_. []) None (js ''h'') (js ''filesystem'')
      (Some (config_json (Filesystem sample_fs))) (\<lambda>_. None) = (a, store')" by fastforce
  have wf: "list_all well_formed (config_texts (Filesystem sample_fs))" by (simp add: sample_fs_def)
  then have same: "go_config (Filesystem sample_fs) = Filesystem sample_fs" by (rule go_config_id)
  have "acceptable (\<lambda>_. []) (Filesystem sample_fs)" by (simp add: sample_fs_def absolute_def js_Cons)
  then have "validate id (\<lambda>_. []) (dto_of (Filesystem sample_fs)) = None" by (simp only: validate_iff)
  then have ok: "ans_status a = 200"
    using h setPluginConfigHandler_sent [of "Filesystem sample_fs" id "\<lambda>_. []" None "js ''h''" "\<lambda>_. None"]
    by (simp add: same writeJSON_def del: validate.simps dto_of.simps go_config.simps)
  have "payload_of FilesystemConfigForm (loaded_form FilesystemConfigForm (js ''h'') sample_fs) = Some sample_fs"
    using loaded_form [of "js ''h''" FilesystemConfigForm sample_fs]
      sample_fs_ok splitList_joinList_iff
    by (simp add: payload_of_def FilesystemConfigForm_def fs_ok_def)
  with h ok wf show ?thesis
    using saved_form_reopens [of _ _ id "\<lambda>_. []" None "js ''h''" "\<lambda>_. None" a store'] by blast
qed

lemma BuildPlugin_message: "BuildPlugin rq servers factories store h p = Some e \<Longrightarrow> e \<noteq> []"
  by (auto simp: BuildPlugin_def js_Cons split: option.splits sum.splits)

lemma trigger_refused:
  assumes "req_host r \<noteq> []" "req_plugin r \<noteq> []"
    and "triggerBackupHandler rq servers factories (Some (trigger_json r)) st = (a, st')"
    and "\<not> (BuildPlugin rq servers factories (ct_settings st) (go_text (req_host r)) (go_text (req_plugin r)) = None
      \<and> rq_create_error rq = None)"
  shows "\<exists>code msg. a = writeError code msg \<and> st' = st \<and> (code = 404 \<or> code = 500) \<and> msg \<noteq> []"
proof (cases "BuildPlugin rq servers factories (ct_settings st) (go_text (req_host r)) (go_text (req_plugin r))")
  case (Some e)
  then have "a = writeError 404 e" "st' = st"
    using assms by (simp_all add: triggerBackupHandler_def decode_trigger)
  with BuildPlugin_message [OF Some] show ?thesis by blast
next
  case None
  with assms(4) obtain e where "rq_create_error rq = Some e" by auto
  with None assms have "a = writeError 500 (js ''create job: '' @ e)" "st' = st"
    by (simp_all add: triggerBackupHandler_def decode_trigger Let_def)
  then show ?thesis by (auto simp: js_Cons)
qed

text \<open>
  C16. The dialog against a controller. If the backup is taken, exactly one job was added to the table,
  in the state \<open>queued\<close>, for the selected host and plugin; the same job was put at the end of the
  queue (when the queue is full it is not, and waits in the table for the next start of the
  process), announced as requested, and the dialog confirms it, with a link to it. Otherwise nothing
  was changed and the form shows the reason the controller gave. It is never taken for a plugin
  nothing configures on the selected host. (\<open>go_text\<close> is the identity on well-formed names, such as
  every name the controller gave.)
\<close>

theorem triggered_backup_is_confirmed:
  assumes "modal_view m = FormView er True" "modal_step m SubmitTrigger u"
    and "triggerBackupHandler rq servers factories
      (Some (trigger_json \<lparr>req_host = md_host m, req_plugin = md_plugin m\<rparr>)) st = (a, st')"
    and "modal_step u (AnswerTrigger (length (md_pending m)) (fst (request_finish c True (received reason a)))) t"
  shows "(\<exists>j. ct_jobs st' = ct_jobs st @ [j] \<and> job_state j = Queued
        \<and> job_host j = go_text (md_host m) \<and> job_plugin j = go_text (md_plugin m)
        \<and> ct_queue st' = (if length (ct_queue st) < ct_capacity st then ct_queue st @ [j] else ct_queue st)
        \<and> (\<exists>e. ct_events st' = ct_events st @ [e] \<and> event_kind e = BackupRequested \<and> event_jobId e = job_id j)
        \<and> ct_settings st' = ct_settings st
        \<and> modal_view t = QueuedView (job_id j)
        \<and> (\<exists>srv. servers (job_host j) = Some srv
          \<and> (ct_settings st (job_host j, job_plugin j) \<noteq> None \<or> job_plugin j \<in> fst ` set (inv_plugins srv))))
    \<or> st' = st \<and> (\<exists>msg. ans_error a = Some msg \<and> modal_view t = FormView (Some msg) True
        \<and> md_host t = md_host m \<and> md_plugin t = md_plugin m)"
proof -
  have m: "md_open m" "md_host m \<noteq> []" "md_plugin m \<noteq> []" "\<not> truthy (md_queued m)"
    using assms(1) by (auto simp: modal_view_def split: if_splits)
  let ?r = "\<lparr>req_host = md_host m, req_plugin = md_plugin m\<rparr>"
  let ?h = "go_text (md_host m)" and ?p = "go_text (md_plugin m)"
  have u: "u = (trigger_start m)\<lparr>md_pending := md_pending m @ [triggerBackup ?r]\<rparr>"
    using assms(2) m(2,3) by cases (simp add: trigger_submit_def)
  have t: "t = trigger_finish (fst (request_finish c True (received reason a))) (trigger_start m)"
    using assms(4) u by (auto elim!: modal_answer_cases simp: answer_trigger_def trigger_start_def)
  show ?thesis
  proof (cases "BuildPlugin rq servers factories (ct_settings st) ?h ?p = None \<and> rq_create_error rq = None")
    case True
    then obtain srv where srv: "servers ?h = Some srv"
      "ct_settings st (?h, ?p) \<noteq> None \<or> ?p \<in> fst ` set (inv_plugins srv)"
      using BuildPlugin_known by blast
    let ?j = "NewJob rq ?h ?p (inv_retention srv)"
    have a: "a = writeJSON 202 ?j" and st: "ct_jobs st' = ct_jobs st @ [?j]" "ct_settings st' = ct_settings st"
        "ct_queue st' = (if length (ct_queue st) < ct_capacity st then ct_queue st @ [?j] else ct_queue st)"
        "\<exists>e. ct_events st' = ct_events st @ [e] \<and> event_kind e = BackupRequested \<and> event_jobId e = job_id ?j"
      using assms(3) True srv m triggerBackupHandler_sent [of ?r servers srv] by (auto simp: Let_def Enqueue_def)
    have "fst (request_finish c True (received reason a)) = Inr (Some ?j)"
      by (simp add: a request_finish_def received_def writeJSON_def res_ok_def)
    then have "modal_view t = QueuedView (job_id ?j)"
      using m(1) by (simp add: t trigger_finish_def modal_view_def trigger_start_def)
    with st srv show ?thesis by (intro disjI1 exI [of _ ?j]) simp
  next
    case False
    obtain code msg where a: "a = writeError code msg" "st' = st" "code = 404 \<or> code = 500" "msg \<noteq> []"
      using trigger_refused [OF _ _ assms(3)] False m by auto
    have "fst (request_finish c True (received reason a)) = Inl (ApiError code msg)"
      using a(3,4) by (auto simp: a(1) request_finish_def received_def writeError_def res_ok_def error_message_def Let_def)
    then have "modal_view t = FormView (Some msg) True" "md_host t = md_host m" "md_plugin t = md_plugin m"
      using m a(3,4) by (auto simp: t trigger_finish_def modal_view_def trigger_start_def)
    with a show ?thesis by (simp add: writeError_def)
  qed
qed

theorem triggered_backup_is_confirmed_witness:
  "\<exists>a st' t. triggerBackupHandler sample_request sample_servers (\<lambda>_. Some (\<lambda>_ _. None))
        (Some (trigger_json \<lparr>req_host = js ''db1'', req_plugin = js ''postgres''\<rparr>))
        \<lparr>ct_settings = (\<lambda>_. None), ct_jobs = [], ct_events = [], ct_queue = [], ct_capacity = 1\<rparr> = (a, st')
     \<and> (\<exists>j. ct_jobs st' = [j] \<and> ct_queue st' = [j] \<and> job_state j = Queued \<and> job_host j = js ''db1''
        \<and> modal_view t = QueuedView (job_id j))"
proof -
  let ?m = "opened sample_hosts" and ?c = "module_load (\<lambda>_. None)"
  let ?st = "\<lparr>ct_settings = (\<lambda>_. None), ct_jobs = [], ct_events = [], ct_queue = [], ct_capacity = 1\<rparr>"
  let ?r = "\<lparr>req_host = md_host ?m, req_plugin = md_plugin ?m\<rparr>"
  note o = opened_sample
  obtain a st' where h: "triggerBackupHandler sample_request sample_servers (\<lambda>_. Some (\<lambda>_ _. None))
      (Some (trigger_json ?r)) ?st = (a, st')" by fastforce
  have s: "modal_step ?m SubmitTrigger (trigger_submit ?m)" by (rule modal_submit) (rule o(7))
  let ?t = "answer_trigger 0 (fst (request_finish ?c True (received (\<lambda>_. []) a))) (trigger_submit ?m)"
  have "md_pending (trigger_submit ?m) \<noteq> []" by (simp add: trigger_submit_def o js_Cons)
  then have n: "modal_step (trigger_submit ?m) (AnswerTrigger (length (md_pending ?m))
      (fst (request_finish ?c True (received (\<lambda>_. []) a)))) ?t"
    using modal_answer [of 0 "trigger_submit ?m"] by (simp add: o(5))
  have "BuildPlugin sample_request sample_servers (\<lambda>_. Some (\<lambda>_ _. None)) (\<lambda>_. None) (js ''db1'') (js ''postgres'') = None"
    by (simp add: BuildPlugin_def resolvePluginConfig_def sample_servers_def sample_request_def)
  then have "ct_jobs st' \<noteq> ct_jobs ?st"
    using h triggerBackupHandler_sent [of ?r sample_servers]
    by (auto simp: o sample_servers_def sample_request_def Let_def)
  with triggered_backup_is_confirmed [OF o(7) s h n] h show ?thesis by (auto simp: o)
qed

end
